(* ===== verification/Prelude.thy ===== *)
theory Prelude
  imports Main "HOL-Library.Word" "HOL-Library.Char_ord" "HOL-Library.List_Lexorder"
begin

text \<open>
  Shared vocabulary of the development: byte strings, machine integers, the result type of
  fallible code with the \<open>?\<close> operator, the kinds of \<open>std::io::Error\<close> the code
  distinguishes, and the generic lemmas every component uses.

  A byte is a \<^typ>\<open>char\<close> (Isabelle's characters are exactly the 256 byte values), so a
  Rust \<open>Vec<u8>\<close>, a \<open>&[u8]\<close> and the UTF-8 bytes of a \<open>String\<close> are all
  \<open>char list\<close>, with literals such as \<open>''a.md''\<close>. The order on byte strings is the
  lexicographic one (SQLite's order on BLOB columns).
\<close>

type_synonym byte = char
type_synonym bytes = "char list"
type_synonym u64 = "64 word"
type_synonym u32 = "32 word"

text \<open>SQLite INTEGER columns and Rust \<open>i64\<close> values; casts are written out where they occur.\<close>

type_synonym i64 = int

named_theorems result_simps \<open>equations of the result combinators\<close>

section \<open>Results\<close>

text \<open>\<open>Result<T, E>\<close> is \<^typ>\<open>'e + 'a\<close>: \<open>Inl\<close> is \<open>Err\<close>, \<open>Inr\<close> is \<open>Ok\<close>.\<close>

definition and_then :: "'e + 'a \<Rightarrow> ('a \<Rightarrow> 'e + 'b) \<Rightarrow> 'e + 'b" where
  "and_then r f = (case r of Inl e \<Rightarrow> Inl e | Inr a \<Rightarrow> f a)"

definition map_err :: "('e \<Rightarrow> 'f) \<Rightarrow> 'e + 'a \<Rightarrow> 'f + 'a" where
  "map_err g r = (case r of Inl e \<Rightarrow> Inl (g e) | Inr a \<Rightarrow> Inr a)"

definition ok_or :: "'e \<Rightarrow> 'a option \<Rightarrow> 'e + 'a" where
  "ok_or e x = (case x of None \<Rightarrow> Inl e | Some a \<Rightarrow> Inr a)"

lemma and_then_simps [simp, result_simps]:
  "and_then (Inl e) f = Inl e"
  "and_then (Inr a) f = f a"
  by (simp_all add: and_then_def)

lemma map_err_simps [simp, result_simps]:
  "map_err g (Inl e) = Inl (g e)"
  "map_err g (Inr a) = Inr a"
  by (simp_all add: map_err_def)

lemma ok_or_simps [simp, result_simps]:
  "ok_or e None = Inl e"
  "ok_or e (Some a) = Inr a"
  by (simp_all add: ok_or_def)

lemma and_then_eq_Inr [simp]: "and_then r f = Inr b \<longleftrightarrow> (\<exists>a. r = Inr a \<and> f a = Inr b)"
  by (cases r) auto

lemma and_then_eq_Inl:
  "and_then r f = Inl e \<longleftrightarrow> r = Inl e \<or> (\<exists>a. r = Inr a \<and> f a = Inl e)"
  by (cases r) auto

lemma map_err_eq_Inr [simp]: "map_err g r = Inr a \<longleftrightarrow> r = Inr a"
  by (cases r) auto

lemma map_err_eq_Inl: "map_err g r = Inl e \<longleftrightarrow> (\<exists>e'. r = Inl e' \<and> e = g e')"
  by (cases r) auto

lemma ok_or_eq_Inr [simp]: "ok_or e x = Inr a \<longleftrightarrow> x = Some a"
  by (cases x) auto

lemma ok_or_eq_Inl [simp]: "ok_or e x = Inl e' \<longleftrightarrow> x = None \<and> e' = e"
  by (cases x) auto

section \<open>I/O errors\<close>

text \<open>The \<open>std::io::ErrorKind\<close>s the code tests or creates; every other kind is \<open>IoOther\<close>.\<close>

datatype io_error =
    IoNotFound
  | IoPermissionDenied
  | IoAlreadyExists
  | IoInvalidInput
  | IoInvalidData
  | IoUnexpectedEof
  | IoInterrupted
  | IoOther

section \<open>Generic lemmas\<close>

lemma find_Some_conv:
  "find P xs = Some x \<Longrightarrow> x \<in> set xs \<and> P x"
  by (auto simp: find_Some_iff)

lemma find_None_conv: "find P xs = None \<longleftrightarrow> (\<forall>x \<in> set xs. \<not> P x)"
  by (auto simp: find_None_iff)

lemma find_distinct_key:
  assumes "distinct (map k xs)" and "x \<in> set xs"
  shows "find (\<lambda>y. k y = k x) xs = Some x"
  using assms by (induction xs) force+

lemma find_key_eq_Some:
  assumes "distinct (map k xs)"
  shows "find (\<lambda>y. k y = a) xs = Some x \<longleftrightarrow> x \<in> set xs \<and> k x = a"
  using assms by (auto dest: find_Some_conv find_distinct_key [of k xs x])

lemma map_of_key_in_set:
  assumes "distinct (map k xs)" and "x \<in> set xs" and "y \<in> set xs" and "k x = k y"
  shows "x = y"
  using assms by (auto simp: distinct_map dest: inj_onD)

lemma distinct_map_filterI: "distinct (map k xs) \<Longrightarrow> distinct (map k (filter P xs))"
  by (rule distinct_map_filter)

lemma concat_map_take_Suc:
  "i < length xs \<Longrightarrow> concat (map f (take (Suc i) xs)) = concat (map f (take i xs)) @ f (xs ! i)"
  by (simp add: take_Suc_conv_app_nth)

lemma insort_key_snoc: "f x \<le> f w \<Longrightarrow> insort_key f x (ys @ [w]) = insort_key f x ys @ [w]"
  by (induction ys) auto

lemma sort_key_snoc:
  "(\<And>x. x \<in> set xs \<Longrightarrow> f x \<le> f w) \<Longrightarrow> sort_key f (xs @ [w]) = sort_key f xs @ [w]"
  by (induction xs) (auto simp: insort_key_snoc)

lemma take_length_take: "take (length (take n xs)) xs = take n xs"
  by (cases "n \<le> length xs") auto

lemma take_drop_split: "take n (drop i xs) @ drop (i + n) xs = drop i xs"
  by (metis append_take_drop_id drop_drop add.commute)

end
