(* ===== verification/Rust_Std.thy ===== *)
theory Rust_Std
  imports Prelude
begin

text \<open>
  The parts of Rust's standard library the storage code relies on: \<open>std::cmp::Ordering\<close>
  with its derived order, \<open>slice::binary_search_by\<close> (the branch-light loop of the pinned
  toolchain), \<open>io::Cursor<Vec<u8>>\<close>, \<open>io::SeekFrom\<close>, and the integer casts.
\<close>

section \<open>Ordering\<close>

datatype ordering = Less | Equal | Greater

fun ordering_rank :: "ordering \<Rightarrow> nat" where
  "ordering_rank Less = 0"
| "ordering_rank Equal = 1"
| "ordering_rank Greater = 2"

instantiation ordering :: linorder
begin

definition less_eq_ordering :: "ordering \<Rightarrow> ordering \<Rightarrow> bool" where
  "less_eq_ordering a b \<longleftrightarrow> ordering_rank a \<le> ordering_rank b"

definition less_ordering :: "ordering \<Rightarrow> ordering \<Rightarrow> bool" where
  "less_ordering a b \<longleftrightarrow> ordering_rank a < ordering_rank b"

instance
proof
  fix x y z :: ordering
  show "x < y \<longleftrightarrow> x \<le> y \<and> \<not> y \<le> x" by (auto simp: less_eq_ordering_def less_ordering_def)
  show "x \<le> x" by (simp add: less_eq_ordering_def)
  show "x \<le> z" if "x \<le> y" and "y \<le> z" using that by (simp add: less_eq_ordering_def)
  show "x = y" if "x \<le> y" and "y \<le> x"
    using that by (cases x; cases y) (simp_all add: less_eq_ordering_def)
  show "x \<le> y \<or> y \<le> x" by (simp add: less_eq_ordering_def linear)
qed

end

lemma ordering_le_simps [simp]:
  "Less \<le> x" "x \<le> Greater" "x \<le> Less \<longleftrightarrow> x = Less" "Greater \<le> x \<longleftrightarrow> x = Greater"
  by (cases x; simp add: less_eq_ordering_def)+

section \<open>Binary search\<close>

text \<open>
  \<open>binary_search_by f\<close>: \<open>Ok i\<close> for an index with \<open>f xs[i] = Equal\<close>, \<open>Err i\<close>
  for the insertion point otherwise. The loop halves \<open>size\<close> and never moves \<open>base\<close>
  past the last element that compares \<open>Less\<close> or \<open>Equal\<close>.
\<close>

function bs_loop :: "('a \<Rightarrow> ordering) \<Rightarrow> 'a list \<Rightarrow> nat \<Rightarrow> nat \<Rightarrow> nat" where
  "bs_loop f xs sz base =
     (if 1 < sz then
        let half = sz div 2; mid = base + half
        in bs_loop f xs (sz - half) (if f (xs ! mid) = Greater then base else mid)
      else base)"
  by pat_completeness auto
termination
  by (relation "measure (\<lambda>(f, xs, sz, base). sz)") auto

declare bs_loop.simps [simp del]

definition binary_search_by :: "('a \<Rightarrow> ordering) \<Rightarrow> 'a list \<Rightarrow> nat + nat" where
  "binary_search_by f xs =
     (if xs = [] then Inl 0
      else let base = bs_loop f xs (length xs) 0
           in case f (xs ! base) of
                Equal \<Rightarrow> Inr base
              | Less \<Rightarrow> Inl (base + 1)
              | Greater \<Rightarrow> Inl base)"

lemma bs_loop_bounds:
  "0 < sz \<Longrightarrow> base \<le> bs_loop f xs sz base \<and> bs_loop f xs sz base < base + sz"
proof (induction f xs sz base rule: bs_loop.induct)
  case (1 f xs sz base)
  show ?case
  proof (cases "1 < sz")
    case True
    let ?b = "if f (xs ! (base + sz div 2)) = Greater then base else base + sz div 2"
    have pos: "0 < sz - sz div 2" using True by linarith
    have IH: "?b \<le> bs_loop f xs (sz - sz div 2) ?b
        \<and> bs_loop f xs (sz - sz div 2) ?b < ?b + (sz - sz div 2)"
      using "1.IH" [OF True refl refl] pos by simp
    moreover have "?b \<le> base + sz div 2" and "base \<le> ?b" by auto
    ultimately have "base \<le> bs_loop f xs (sz - sz div 2) ?b
        \<and> bs_loop f xs (sz - sz div 2) ?b < base + sz"
      by linarith
    then show ?thesis using True by (simp add: bs_loop.simps [of f xs sz base] Let_def)
  next
    case False
    then show ?thesis using "1.prems" by (simp add: bs_loop.simps [of f xs sz base])
  qed
qed

lemma binary_search_by_Ok:
  assumes "binary_search_by f xs = Inr i"
  shows "i < length xs" and "f (xs ! i) = Equal"
  using assms bs_loop_bounds [of "length xs" 0 f xs]
  by (auto simp: binary_search_by_def Let_def split: if_splits ordering.splits)

text \<open>The loop invariant: an \<open>Equal\<close> index stays between \<open>base\<close> and \<open>base + size\<close>.\<close>

definition cmp_sorted :: "('a \<Rightarrow> ordering) \<Rightarrow> 'a list \<Rightarrow> bool" where
  "cmp_sorted f xs \<longleftrightarrow> sorted (map f xs)"

lemma cmp_sortedD:
  "cmp_sorted f xs \<Longrightarrow> i \<le> j \<Longrightarrow> j < length xs \<Longrightarrow> f (xs ! i) \<le> f (xs ! j)"
  by (auto simp: cmp_sorted_def sorted_iff_nth_mono)

lemma bs_loop_finds:
  assumes "cmp_sorted f xs" and "base + sz \<le> length xs" and "0 < sz"
    and "base \<le> k" and "k < base + sz" and "f (xs ! k) = Equal"
  shows "f (xs ! bs_loop f xs sz base) = Equal"
  using assms(2-)
proof (induction sz arbitrary: base k rule: less_induct)
  case (less sz)
  show ?case
  proof (cases "1 < sz")
    case False
    with less.prems have "k = base" by linarith
    with False less.prems show ?thesis by (simp add: bs_loop.simps [of f xs sz base])
  next
    case True
    let ?mid = "base + sz div 2"
    have smaller: "sz - sz div 2 < sz" "0 < sz - sz div 2" using True by auto
    have mid: "?mid < length xs" using True less.prems by linarith
    show ?thesis
    proof (cases "f (xs ! ?mid) = Greater")
      case G: True
      have "k < ?mid"
      proof (rule ccontr)
        assume "\<not> k < ?mid"
        then have "Greater \<le> f (xs ! k)"
          using cmp_sortedD [OF assms(1), of ?mid k] less.prems G by simp
        with less.prems show False by simp
      qed
      then have "k < base + (sz - sz div 2)" by linarith
      with less.IH [OF smaller(1), of base k] less.prems smaller
      have "f (xs ! bs_loop f xs (sz - sz div 2) base) = Equal" by simp
      with True G show ?thesis by (simp add: bs_loop.simps [of f xs sz base] Let_def)
    next
      case L: False
      have step: "bs_loop f xs sz base = bs_loop f xs (sz - sz div 2) ?mid"
        using True L by (simp add: bs_loop.simps [of f xs sz base] Let_def)
      have bound: "?mid + (sz - sz div 2) \<le> length xs" using less.prems by simp
      show ?thesis
      proof (cases "?mid \<le> k")
        case True
        with less.IH [OF smaller(1) bound smaller(2), of k] less.prems step show ?thesis by simp
      next
        case False
        then have "f (xs ! k) \<le> f (xs ! ?mid)"
          using cmp_sortedD [OF assms(1), of k ?mid] mid by simp
        with L less.prems have "f (xs ! ?mid) = Equal"
          by (cases "f (xs ! ?mid)") (simp_all add: less_eq_ordering_def)
        with less.IH [OF smaller(1) bound smaller(2), of ?mid] smaller step show ?thesis by simp
      qed
    qed
  qed
qed

lemma binary_search_by_finds:
  assumes "cmp_sorted f xs" and "k < length xs" and "f (xs ! k) = Equal"
  shows "\<exists>i. binary_search_by f xs = Inr i"
proof -
  have "xs \<noteq> []" using assms(2) by auto
  moreover have "f (xs ! bs_loop f xs (length xs) 0) = Equal"
    using bs_loop_finds [OF assms(1), of 0 "length xs" k] assms(2,3) \<open>xs \<noteq> []\<close> by simp
  ultimately show ?thesis by (simp add: binary_search_by_def Let_def)
qed

section \<open>Cursors and seek positions\<close>

text \<open>\<open>io::Cursor<Vec<u8>>\<close>: a buffer and a position, which may lie past the end.\<close>

record cursor =
  cur_data :: bytes
  cur_pos :: u64

definition cursor_new :: "bytes \<Rightarrow> cursor" where
  "cursor_new v = \<lparr>cur_data = v, cur_pos = 0\<rparr>"

definition cursor_read :: "nat \<Rightarrow> cursor \<Rightarrow> bytes \<times> cursor" where
  "cursor_read n c =
     (let rest = drop (unat (cur_pos c)) (cur_data c); got = take n rest
      in (got, c\<lparr>cur_pos := cur_pos c + of_nat (length got)\<rparr>))"

datatype seek_from = SeekStart u64 | SeekCurrent i64 | SeekEnd i64

text \<open>\<open>x as u64\<close> of a wider signed integer keeps the low 64 bits.\<close>

definition as_u64 :: "int \<Rightarrow> u64" where
  "as_u64 x = word_of_int x"

text \<open>\<open>x as i64\<close> of a \<open>u64\<close> reads it as two's complement.\<close>

definition u64_as_i64 :: "u64 \<Rightarrow> i64" where
  "u64_as_i64 x = sint x"

lemma as_u64_as_i64 [simp]: "as_u64 (u64_as_i64 x) = x"
  by (simp add: as_u64_def u64_as_i64_def)

lemma u64_as_i64_eq_iff [simp]: "u64_as_i64 x = u64_as_i64 y \<longleftrightarrow> x = y"
  by (metis as_u64_as_i64)

lemma as_u64_uint [simp]: "as_u64 (uint x) = x"
  by (simp add: as_u64_def)

lemma as_u64_mod: "as_u64 (x mod 2 ^ 64) = as_u64 x"
  by (simp add: as_u64_def word_of_int_eq_iff take_bit_eq_mod)

lemma unat_as_u64: "unat (as_u64 x) = nat (x mod 2 ^ 64)"
  by (simp add: as_u64_def unat_eq_nat_uint uint_word_of_int)

lemma unat_bound: "unat (x :: 'a::len word) < 2 ^ LENGTH('a)"
  by (rule unsigned_less)

lemma u32_bound: "unat (x :: u32) < 2 ^ 32"
  using unat_bound [of x] by simp

lemma u64_bound: "unat (x :: u64) < 2 ^ 64"
  using unat_bound [of x] by simp

lemma unat_of_nat_small: "n < 2 ^ LENGTH('a) \<Longrightarrow> unat (of_nat n :: 'a::len word) = n"
  by (simp add: unat_of_nat take_bit_nat_eq_self)

lemma unat_ucast_u32 [simp]: "unat (ucast (x :: u32) :: u64) = unat x"
  using u32_bound [of x] by (simp add: unsigned_ucast_eq take_bit_nat_eq_self)

lemma unat_add_no_wrap:
  fixes a b :: "'a::len word"
  shows "unat a + unat b < 2 ^ LENGTH('a) \<Longrightarrow> unat (a + b) = unat a + unat b"
  by (simp add: unat_word_ariths)

end
