(* ===== verification/Chunker.thy ===== *)
theory Chunker
  imports Rust_Std
begin

text \<open>
  \<open>crates/chunker/src/lib.rs\<close>: the validated chunk-size configuration and the wrapper
  \<open>chunk_reader\<close> over the \<open>fastcdc\<close> crate. The crate itself is not part of the
  repository: its six size limits and its streaming chunker are the fields of
  \<open>fastcdc_lib\<close>, and \<open>fastcdc_ok\<close> is what its documentation promises.
\<close>

section \<open>The source of a file's bytes\<close>

text \<open>
  An \<open>impl Read\<close>: the bytes it delivers, after which it reports end of file (\<open>None\<close>)
  or an error.
\<close>

record reader =
  rd_bytes :: bytes
  rd_err :: "io_error option"

definition reader_of :: "bytes \<Rightarrow> reader" where
  "reader_of d = \<lparr>rd_bytes = d, rd_err = None\<rparr>"

section \<open>The fastcdc crate\<close>

text \<open>\<open>fastcdc::v2020::ChunkData\<close>: \<open>offset\<close> is a \<open>u64\<close>, \<open>length\<close> a \<open>usize\<close>.\<close>

record cdc_data =
  cd_offset :: u64
  cd_length :: nat
  cd_data :: bytes

record fastcdc_lib =
  minimum_min :: u32
  minimum_max :: u32
  average_min :: u32
  average_max :: u32
  maximum_min :: u32
  maximum_max :: u32
  stream_cdc :: "u32 \<Rightarrow> u32 \<Rightarrow> u32 \<Rightarrow> reader \<Rightarrow> (io_error + cdc_data) list"

section \<open>Chunks and configurations\<close>

record chunk =
  ck_offset :: u64
  ck_length :: u32
  ck_data :: bytes

record chunker_config =
  min_size :: u32
  avg_size :: u32
  max_size :: u32

datatype config_error =
    MinOutOfRange u32
  | AvgOutOfRange u32
  | MaxOutOfRange u32
  | NotAscending u32 u32 u32

definition config_new :: "fastcdc_lib \<Rightarrow> u32 \<Rightarrow> u32 \<Rightarrow> u32 \<Rightarrow> config_error + chunker_config" where
  "config_new F mn av mx =
     (if \<not> (minimum_min F \<le> mn \<and> mn \<le> minimum_max F) then Inl (MinOutOfRange mn)
      else if \<not> (average_min F \<le> av \<and> av \<le> average_max F) then Inl (AvgOutOfRange av)
      else if \<not> (maximum_min F \<le> mx \<and> mx \<le> maximum_max F) then Inl (MaxOutOfRange mx)
      else if \<not> (mn \<le> av \<and> av \<le> mx) then Inl (NotAscending mn av mx)
      else Inr \<lparr>min_size = mn, avg_size = av, max_size = mx\<rparr>)"

definition DEFAULT_MIN_SIZE :: u32 where "DEFAULT_MIN_SIZE = 16 * 1024"
definition DEFAULT_AVG_SIZE :: u32 where "DEFAULT_AVG_SIZE = 64 * 1024"
definition DEFAULT_MAX_SIZE :: u32 where "DEFAULT_MAX_SIZE = 256 * 1024"
definition MEDIA_MIN_SIZE :: u32 where "MEDIA_MIN_SIZE = 256 * 1024"
definition MEDIA_AVG_SIZE :: u32 where "MEDIA_AVG_SIZE = 1024 * 1024"
definition MEDIA_MAX_SIZE :: u32 where "MEDIA_MAX_SIZE = 4 * 1024 * 1024"

text \<open>\<open>default\<close> and \<open>media\<close> unwrap the result: \<^const>\<open>None\<close> is the panic of \<open>expect\<close>.\<close>

definition expect :: "'e + 'a \<Rightarrow> 'a option" where
  "expect r = (case r of Inl _ \<Rightarrow> None | Inr a \<Rightarrow> Some a)"

definition config_default :: "fastcdc_lib \<Rightarrow> chunker_config option" where
  "config_default F = expect (config_new F DEFAULT_MIN_SIZE DEFAULT_AVG_SIZE DEFAULT_MAX_SIZE)"

definition config_media :: "fastcdc_lib \<Rightarrow> chunker_config option" where
  "config_media F = expect (config_new F MEDIA_MIN_SIZE MEDIA_AVG_SIZE MEDIA_MAX_SIZE)"

definition chunk_of_cdc :: "cdc_data \<Rightarrow> chunk" where
  "chunk_of_cdc cd = \<lparr>ck_offset = cd_offset cd, ck_length = of_nat (cd_length cd), ck_data = cd_data cd\<rparr>"

definition chunk_reader :: "fastcdc_lib \<Rightarrow> reader \<Rightarrow> chunker_config \<Rightarrow> (io_error + chunk) list" where
  "chunk_reader F r cfg =
     map (map_sum id chunk_of_cdc) (stream_cdc F (min_size cfg) (avg_size cfg) (max_size cfg) r)"

section \<open>What the fastcdc documentation promises\<close>

text \<open>
  Consecutive chunks of at most \<open>mx\<close> bytes, none empty, whose offsets are the running
  byte count.
\<close>

fun cdc_cut :: "u32 \<Rightarrow> nat \<Rightarrow> bytes \<Rightarrow> cdc_data list \<Rightarrow> bool" where
  "cdc_cut mx n d [] \<longleftrightarrow> d = []"
| "cdc_cut mx n d (c # cs) \<longleftrightarrow>
     cd_offset c = of_nat n \<and> cd_length c = length (cd_data c) \<and> cd_data c \<noteq> [] \<and>
     length (cd_data c) \<le> unat mx \<and>
     take (length (cd_data c)) d = cd_data c \<and>
     cdc_cut mx (n + length (cd_data c)) (drop (length (cd_data c)) d) cs"

text \<open>
  For sizes it accepts, the chunker cuts all bytes of a reader that ends normally, and
  reports the error of a reader that fails.
\<close>

definition fastcdc_ok :: "fastcdc_lib \<Rightarrow> bool" where
  "fastcdc_ok F \<longleftrightarrow>
     (\<forall>mn av mx cfg d. config_new F mn av mx = Inr cfg \<longrightarrow>
        (\<exists>cs. stream_cdc F mn av mx (reader_of d) = map Inr cs \<and> cdc_cut mx 0 d cs)) \<and>
     (\<forall>mn av mx cfg d e. config_new F mn av mx = Inr cfg \<longrightarrow>
        (\<exists>cs. stream_cdc F mn av mx \<lparr>rd_bytes = d, rd_err = Some e\<rparr> = map Inr cs @ [Inl e]))"

text \<open>The size limits leave room for the two built-in configurations.\<close>

definition fastcdc_limits_ok :: "fastcdc_lib \<Rightarrow> bool" where
  "fastcdc_limits_ok F \<longleftrightarrow>
     minimum_min F \<le> DEFAULT_MIN_SIZE \<and> MEDIA_MIN_SIZE \<le> minimum_max F \<and>
     average_min F \<le> DEFAULT_AVG_SIZE \<and> MEDIA_AVG_SIZE \<le> average_max F \<and>
     maximum_min F \<le> DEFAULT_MAX_SIZE \<and> MEDIA_MAX_SIZE \<le> maximum_max F"

section \<open>Lemmas\<close>

lemma expect_simps [simp]: "expect (Inl e) = None" "expect (Inr a) = Some a"
  by (simp_all add: expect_def)

lemma config_new_eq_Inr:
  "config_new F mn av mx = Inr c \<longleftrightarrow>
     minimum_min F \<le> mn \<and> mn \<le> minimum_max F \<and> average_min F \<le> av \<and> av \<le> average_max F \<and>
     maximum_min F \<le> mx \<and> mx \<le> maximum_max F \<and> mn \<le> av \<and> av \<le> mx \<and>
     c = \<lparr>min_size = mn, avg_size = av, max_size = mx\<rparr>"
  by (auto simp: config_new_def)

lemma config_new_fields:
  "config_new F mn av mx = Inr c \<Longrightarrow> min_size c = mn \<and> avg_size c = av \<and> max_size c = mx"
  by (simp add: config_new_eq_Inr)

lemma config_builtin:
  assumes "fastcdc_limits_ok F"
  shows "config_default F = Some \<lparr>min_size = 16384, avg_size = 65536, max_size = 262144\<rparr>"
    and "config_media F = Some \<lparr>min_size = 262144, avg_size = 1048576, max_size = 4194304\<rparr>"
proof -
  note sizes = DEFAULT_MIN_SIZE_def DEFAULT_AVG_SIZE_def DEFAULT_MAX_SIZE_def
    MEDIA_MIN_SIZE_def MEDIA_AVG_SIZE_def MEDIA_MAX_SIZE_def
  have order: "(16384::u32) \<le> 262144" "(65536::u32) \<le> 1048576" "(262144::u32) \<le> 4194304"
    by simp_all
  have lim: "minimum_min F \<le> 16384" "262144 \<le> minimum_max F" "average_min F \<le> 65536"
      "1048576 \<le> average_max F" "maximum_min F \<le> 262144" "4194304 \<le> maximum_max F"
    using assms by (simp_all add: fastcdc_limits_ok_def sizes)
  have more: "262144 \<le> maximum_max F" "65536 \<le> average_max F" "16384 \<le> minimum_max F"
      "minimum_min F \<le> 262144" "average_min F \<le> 1048576" "maximum_min F \<le> 4194304"
    using lim order by (meson order_trans)+
  show "config_default F = Some \<lparr>min_size = 16384, avg_size = 65536, max_size = 262144\<rparr>"
    using lim more by (simp add: config_default_def config_new_def sizes)
  show "config_media F = Some \<lparr>min_size = 262144, avg_size = 1048576, max_size = 4194304\<rparr>"
    using lim more by (simp add: config_media_def config_new_def sizes)
qed

lemma cdc_cut_concat: "cdc_cut mx n d cs \<Longrightarrow> concat (map cd_data cs) = d"
proof (induction cs arbitrary: n d)
  case (Cons c cs)
  then have "concat (map cd_data cs) = drop (length (cd_data c)) d" by auto
  with Cons.prems show ?case by (metis append_take_drop_id cdc_cut.simps(2) concat.simps(2) list.simps(9))
qed simp

text \<open>Every chunk of a cut is a slice of the data.\<close>

lemma cdc_cut_slices: "cdc_cut mx n d cs \<Longrightarrow> c \<in> set cs \<Longrightarrow> \<exists>i k. cd_data c = take k (drop i d)"
proof (induction cs arbitrary: n d)
  case (Cons a cs)
  show ?case
  proof (cases "c = a")
    case True
    then have "cd_data c = take (length (cd_data a)) (drop 0 d)" using Cons.prems by simp
    then show ?thesis by blast
  next
    case False
    then obtain i k where "cd_data c = take k (drop i (drop (length (cd_data a)) d))"
      using Cons.IH [of "n + length (cd_data a)" "drop (length (cd_data a)) d"] Cons.prems by auto
    then have "cd_data c = take k (drop (i + length (cd_data a)) d)" by simp
    then show ?thesis by blast
  qed
qed simp

text \<open>A configuration accepted by \<open>new\<close>, as every \<open>ChunkerConfig\<close> value is.\<close>

definition valid_config :: "fastcdc_lib \<Rightarrow> chunker_config \<Rightarrow> bool" where
  "valid_config F c \<longleftrightarrow> config_new F (min_size c) (avg_size c) (max_size c) = Inr c"

lemma config_new_valid: "config_new F mn av mx = Inr c \<Longrightarrow> valid_config F c"
  by (simp add: valid_config_def config_new_fields)

lemma config_builtin_valid:
  assumes "config_default F = Some c \<or> config_media F = Some c"
  shows "valid_config F c"
  using assms by (auto simp: config_default_def config_media_def expect_def
      intro: config_new_valid split: sum.splits)

lemma chunk_reader_ok:
  assumes "fastcdc_ok F" and "valid_config F cfg"
  obtains cs where "chunk_reader F (reader_of d) cfg = map (\<lambda>c. Inr (chunk_of_cdc c)) cs"
    and "cdc_cut (max_size cfg) 0 d cs"
proof -
  obtain cs where "stream_cdc F (min_size cfg) (avg_size cfg) (max_size cfg) (reader_of d) = map Inr cs"
    and cut: "cdc_cut (max_size cfg) 0 d cs"
    using assms unfolding fastcdc_ok_def valid_config_def by metis
  then have "chunk_reader F (reader_of d) cfg = map (\<lambda>c. Inr (chunk_of_cdc c)) cs"
    by (simp add: chunk_reader_def)
  then show thesis using cut that by blast
qed

lemma chunk_reader_err:
  assumes "fastcdc_ok F" and "valid_config F cfg" and "rd_err r = Some e"
  shows "\<exists>cs. chunk_reader F r cfg = map (\<lambda>c. Inr (chunk_of_cdc c)) cs @ [Inl e]"
proof -
  have "r = \<lparr>rd_bytes = rd_bytes r, rd_err = Some e\<rparr>" using assms(3) by (cases r) simp
  with assms(1,2) obtain cs where
    "stream_cdc F (min_size cfg) (avg_size cfg) (max_size cfg) r = map Inr cs @ [Inl e]"
    unfolding fastcdc_ok_def valid_config_def by metis
  then have "chunk_reader F r cfg = map (\<lambda>c. Inr (chunk_of_cdc c)) cs @ [Inl e]"
    by (simp add: chunk_reader_def)
  then show ?thesis by blast
qed

end
