(* ===== verification/Blob_Hash.thy ===== *)
theory Blob_Hash
  imports Rust_Std
begin

text \<open>
  \<open>crates/blobstore/src/hash.rs\<close>: the content hash that keys a blob. The 32 bytes of
  \<open>[u8; 32]\<close> are a 256-bit word (most significant byte first, so the derived
  lexicographic order of the array is the order of the word). The \<open>blake3\<close> crate is not
  part of the repository: its hash function, its incremental hasher and its hex codec are
  the fields of \<open>blake3_lib\<close>; \<open>blake3_ok\<close> states what its documentation promises.
\<close>

datatype hash = Hash (as_bytes: "256 word")

record blake3_lib =
  b3_hash :: "bytes \<Rightarrow> 256 word"
  b3_hash_updates :: "bytes list \<Rightarrow> 256 word"
  b3_to_hex :: "256 word \<Rightarrow> string"
  b3_from_hex :: "string \<Rightarrow> 256 word option"

definition hash_of :: "blake3_lib \<Rightarrow> bytes \<Rightarrow> hash" where
  "hash_of B d = Hash (b3_hash B d)"

definition from_bytes :: "256 word \<Rightarrow> hash" where
  "from_bytes w = Hash w"

definition to_hex :: "blake3_lib \<Rightarrow> hash \<Rightarrow> string" where
  "to_hex B h = b3_to_hex B (as_bytes h)"

datatype parse_hash_error = InvalidLength nat | InvalidHex

definition from_str :: "blake3_lib \<Rightarrow> string \<Rightarrow> parse_hash_error + hash" where
  "from_str B s =
     (if length s \<noteq> 64 then Inl (InvalidLength (length s))
      else map_err (\<lambda>_. InvalidHex) (ok_or () (map_option Hash (b3_from_hex B s))))"

instantiation hash :: linorder
begin

definition less_eq_hash :: "hash \<Rightarrow> hash \<Rightarrow> bool" where
  "less_eq_hash a b \<longleftrightarrow> as_bytes a \<le> as_bytes b"

definition less_hash :: "hash \<Rightarrow> hash \<Rightarrow> bool" where
  "less_hash a b \<longleftrightarrow> as_bytes a < as_bytes b"

instance
  by standard (auto simp: less_eq_hash_def less_hash_def hash.expand)

end

section \<open>What the blake3 documentation promises\<close>

definition is_hex_digit :: "char \<Rightarrow> bool" where
  "is_hex_digit c \<longleftrightarrow> c \<in> set ''0123456789abcdef''"

text \<open>
  Feeding a hasher piece by piece gives the hash of the whole; \<open>to_hex\<close> writes 64
  lowercase hex digits, and \<open>from_hex\<close> reads them back.
\<close>

definition blake3_ok :: "blake3_lib \<Rightarrow> bool" where
  "blake3_ok B \<longleftrightarrow>
     (\<forall>ds. b3_hash_updates B ds = b3_hash B (concat ds)) \<and>
     (\<forall>w. length (b3_to_hex B w) = 64 \<and> list_all is_hex_digit (b3_to_hex B w)
          \<and> b3_from_hex B (b3_to_hex B w) = Some w)"

text \<open>No two of the byte strings in \<open>D\<close> collide (never assumed of all byte strings).\<close>

definition collision_free :: "blake3_lib \<Rightarrow> bytes set \<Rightarrow> bool" where
  "collision_free B D \<longleftrightarrow> inj_on (hash_of B) D"

section \<open>Lemmas\<close>

lemma blake3_okD:
  assumes "blake3_ok B"
  shows "b3_hash_updates B ds = b3_hash B (concat ds)"
    and "length (to_hex B h) = 64" and "list_all is_hex_digit (to_hex B h)"
    and "b3_from_hex B (to_hex B h) = Some (as_bytes h)"
  using assms by (auto simp: blake3_ok_def to_hex_def)

lemma from_str_to_hex [simp]: "blake3_ok B \<Longrightarrow> from_str B (to_hex B h) = Inr h"
  by (simp add: from_str_def blake3_okD)

lemma to_hex_inject: "blake3_ok B \<Longrightarrow> to_hex B h = to_hex B h' \<longleftrightarrow> h = h'"
  by (metis from_str_to_hex Inr_inject)

lemma collision_freeD:
  "collision_free B D \<Longrightarrow> x \<in> D \<Longrightarrow> y \<in> D \<Longrightarrow> hash_of B x = hash_of B y \<Longrightarrow> x = y"
  by (auto simp: collision_free_def inj_on_def)

lemma collision_free_mono: "collision_free B D \<Longrightarrow> D' \<subseteq> D \<Longrightarrow> collision_free B D'"
  by (auto simp: collision_free_def intro: inj_on_subset)

lemma from_str_Inr_length: "from_str B s = Inr h \<Longrightarrow> length s = 64"
  by (auto simp: from_str_def split: if_splits)

end
