(* ===== verification/Manifest.thy ===== *)
theory Manifest
  imports Chunker Blob_Hash
begin

text \<open>
  \<open>crates/blobstore/src/manifest.rs\<close> and the chunk loop of \<open>BlobStore::store_file\<close>:
  manifests, what bytes a manifest stands for under a content-addressed store, and the
  interface \<open>content_store\<close> through which a file is stored chunk by chunk. The disk of
  theory \<open>Blob_Store\<close> provides that interface.
\<close>

section \<open>Manifests\<close>

record chunk_ref =
  cr_hash :: hash
  cr_offset :: u64
  cr_length :: u32

record manifest =
  total_size :: u64
  chunks :: "chunk_ref list"

definition manifest_default :: manifest where
  "manifest_default = \<lparr>total_size = 0, chunks = []\<rparr>"

text \<open>One turn of the loop of \<open>store_file\<close>: the reference of a stored chunk is appended.\<close>

definition push_chunk :: "manifest \<Rightarrow> hash \<Rightarrow> chunk \<Rightarrow> manifest" where
  "push_chunk m h ck =
     \<lparr>total_size = total_size m + ucast (ck_length ck),
      chunks = chunks m @ [\<lparr>cr_hash = h, cr_offset = ck_offset ck, cr_length = ck_length ck\<rparr>]\<rparr>"

fun store_loop ::
  "('s \<Rightarrow> bytes \<Rightarrow> 's \<times> (io_error + hash)) \<Rightarrow> 's \<Rightarrow> (io_error + chunk) list \<Rightarrow> manifest
     \<Rightarrow> 's \<times> (io_error + manifest)"
where
  "store_loop put s [] m = (s, Inr m)"
| "store_loop put s (Inl e # items) m = (s, Inl e)"
| "store_loop put s (Inr ck # items) m =
     (case put s (ck_data ck) of
        (s', Inl e) \<Rightarrow> (s', Inl e)
      | (s', Inr h) \<Rightarrow> store_loop put s' items (push_chunk m h ck))"

section \<open>The bytes a manifest stands for\<close>

text \<open>
  Chunk references laid end to end from position \<open>n\<close>, none empty; the end of the last
  one is the total size.
\<close>

fun layout_from :: "nat \<Rightarrow> chunk_ref list \<Rightarrow> bool" where
  "layout_from n [] \<longleftrightarrow> True"
| "layout_from n (c # cs) \<longleftrightarrow>
     unat (cr_offset c) = n \<and> 0 < unat (cr_length c) \<and> layout_from (n + unat (cr_length c)) cs"

definition refs_length :: "chunk_ref list \<Rightarrow> nat" where
  "refs_length cs = (\<Sum>c\<leftarrow>cs. unat (cr_length c))"

definition wf_manifest :: "manifest \<Rightarrow> bool" where
  "wf_manifest m \<longleftrightarrow> layout_from 0 (chunks m) \<and> refs_length (chunks m) = unat (total_size m)"

text \<open>
  The content of a list of references under a store \<open>v\<close>: every blob present and as
  long as its reference says.
\<close>

fun content_of :: "(hash \<Rightarrow> bytes option) \<Rightarrow> chunk_ref list \<Rightarrow> bytes option" where
  "content_of v [] = Some []"
| "content_of v (c # cs) =
     (case v (cr_hash c) of
        None \<Rightarrow> None
      | Some b \<Rightarrow> if length b = unat (cr_length c)
                 then map_option (append b) (content_of v cs) else None)"

definition manifest_content :: "(hash \<Rightarrow> bytes option) \<Rightarrow> manifest \<Rightarrow> bytes option" where
  "manifest_content v m = (if wf_manifest m then content_of v (chunks m) else None)"

definition manifest_hashes :: "manifest \<Rightarrow> hash set" where
  "manifest_hashes m = cr_hash ` set (chunks m)"

lemma refs_length_simps [simp]:
  "refs_length [] = 0"
  "refs_length (c # cs) = unat (cr_length c) + refs_length cs"
  "refs_length (cs @ ds) = refs_length cs + refs_length ds"
  by (simp_all add: refs_length_def)

lemma wf_manifest_default [simp]: "wf_manifest manifest_default"
  by (simp add: wf_manifest_def manifest_default_def)

lemma manifest_content_default [simp]: "manifest_content v manifest_default = Some []"
  by (simp add: manifest_content_def) (simp add: manifest_default_def)

lemma layout_from_append:
  "layout_from n (cs @ ds) \<longleftrightarrow> layout_from n cs \<and> layout_from (n + refs_length cs) ds"
  by (induction cs arbitrary: n) (auto simp: add.assoc)

lemma content_of_length: "content_of v cs = Some d \<Longrightarrow> length d = refs_length cs"
  by (induction cs arbitrary: d) (auto split: option.splits if_splits)

lemma content_of_append:
  "content_of v (cs @ ds) =
     (case content_of v cs of None \<Rightarrow> None | Some a \<Rightarrow> map_option (append a) (content_of v ds))"
  by (induction cs; cases "content_of v ds") (auto split: option.splits)

lemma content_of_cong:
  "(\<And>c. c \<in> set cs \<Longrightarrow> v (cr_hash c) = w (cr_hash c)) \<Longrightarrow> content_of v cs = content_of w cs"
proof (induction cs)
  case (Cons c cs)
  then have "v (cr_hash c) = w (cr_hash c)" "content_of v cs = content_of w cs" by simp_all
  then show ?case by (simp only: content_of.simps)
qed simp

lemma content_of_mono: "v \<subseteq>\<^sub>m w \<Longrightarrow> content_of v cs = Some d \<Longrightarrow> content_of w cs = Some d"
  by (induction cs arbitrary: d) (fastforce simp: map_le_def dom_def split: option.splits if_splits)+

lemma content_of_present: "content_of v cs = Some d \<Longrightarrow> c \<in> set cs \<Longrightarrow> v (cr_hash c) \<noteq> None"
  by (induction cs arbitrary: d) (auto split: option.splits if_splits)

lemma manifest_content_length: "manifest_content v m = Some d \<Longrightarrow> length d = unat (total_size m)"
  by (auto simp: manifest_content_def wf_manifest_def dest: content_of_length split: if_splits)

lemma manifest_content_cong:
  "(\<And>h. h \<in> manifest_hashes m \<Longrightarrow> v h = w h) \<Longrightarrow> manifest_content v m = manifest_content w m"
  by (auto simp: manifest_content_def manifest_hashes_def intro: content_of_cong)

lemma manifest_content_mono:
  "v \<subseteq>\<^sub>m w \<Longrightarrow> manifest_content v m = Some d \<Longrightarrow> manifest_content w m = Some d"
  by (auto simp: manifest_content_def intro: content_of_mono split: if_splits)

lemma manifest_content_present:
  "manifest_content v m = Some d \<Longrightarrow> h \<in> manifest_hashes m \<Longrightarrow> v h \<noteq> None"
  by (auto simp: manifest_content_def manifest_hashes_def dest: content_of_present split: if_splits)

section \<open>References of a sequence of chunks\<close>

definition refs_of :: "(bytes \<Rightarrow> hash) \<Rightarrow> chunk list \<Rightarrow> chunk_ref list" where
  "refs_of hof cks =
     map (\<lambda>ck. \<lparr>cr_hash = hof (ck_data ck), cr_offset = ck_offset ck, cr_length = ck_length ck\<rparr>) cks"

definition push_all :: "(bytes \<Rightarrow> hash) \<Rightarrow> manifest \<Rightarrow> chunk list \<Rightarrow> manifest" where
  "push_all hof m cks = foldl (\<lambda>m ck. push_chunk m (hof (ck_data ck)) ck) m cks"

lemma refs_of_simps [simp]:
  "refs_of hof [] = []"
  "refs_of hof (ck # cks) =
     \<lparr>cr_hash = hof (ck_data ck), cr_offset = ck_offset ck, cr_length = ck_length ck\<rparr> # refs_of hof cks"
  by (simp_all add: refs_of_def)

lemma chunk_of_cdc_sel [simp]:
  "ck_data (chunk_of_cdc c) = cd_data c"
  "ck_offset (chunk_of_cdc c) = cd_offset c"
  by (simp_all add: chunk_of_cdc_def)

lemma push_all_simps [simp]:
  "push_all hof m [] = m"
  "push_all hof m (ck # cks) = push_all hof (push_chunk m (hof (ck_data ck)) ck) cks"
  by (simp_all add: push_all_def)

lemma chunks_push_all: "chunks (push_all hof m cks) = chunks m @ refs_of hof cks"
  by (induction cks arbitrary: m) (simp_all add: push_chunk_def)

lemma total_push_all:
  "unat (total_size m) + refs_length (refs_of hof cks) < 2 ^ 64 \<Longrightarrow>
     unat (total_size (push_all hof m cks)) = unat (total_size m) + refs_length (refs_of hof cks)"
proof (induction cks arbitrary: m)
  case (Cons ck cks)
  have small: "unat (ck_length ck) < 2 ^ 32" by (rule u32_bound)
  have "unat (total_size m) + unat (ck_length ck) < 2 ^ 64"
    using Cons.prems by simp
  then have add_len: "unat (total_size m + ucast (ck_length ck)) = unat (total_size m) + unat (ck_length ck)"
    by (subst unat_add_no_wrap) simp_all
  then show ?case using Cons by (simp add: push_chunk_def)
qed simp

lemma length_chunk_of_cdc:
  assumes "cd_length c = length (cd_data c)" and "length (cd_data c) \<le> unat (mx :: u32)"
  shows "unat (ck_length (chunk_of_cdc c)) = length (cd_data c)"
proof -
  have "length (cd_data c) < 2 ^ 32" using assms(2) u32_bound [of mx] by simp
  then show ?thesis using assms(1) by (simp add: chunk_of_cdc_def unat_of_nat_small)
qed

text \<open>A cut of \<open>d\<close> is laid out from its first offset and has the length of \<open>d\<close>.\<close>

lemma cdc_cut_head:
  assumes "cdc_cut mx n d (c # cs)" and "n + length d < 2 ^ 64"
  shows "unat (ck_length (chunk_of_cdc c)) = length (cd_data c)" and "unat (cd_offset c) = n"
    and "length (cd_data c) \<le> length d" and "0 < length (cd_data c)"
    and "cd_data c @ drop (length (cd_data c)) d = d"
proof -
  have tk: "take (length (cd_data c)) d = cd_data c" using assms(1) by simp
  then show "length (cd_data c) \<le> length d" by (metis length_take min.cobounded1)
  show "cd_data c @ drop (length (cd_data c)) d = d" by (metis tk append_take_drop_id)
  have "n < 2 ^ 64" using assms(2) by simp
  then show "unat (cd_offset c) = n" using assms(1) by (simp add: unat_of_nat_small)
  show "unat (ck_length (chunk_of_cdc c)) = length (cd_data c)" and "0 < length (cd_data c)"
    using assms(1) length_chunk_of_cdc [of c mx] by simp_all
qed

lemma refs_of_cdc_cut:
  assumes "cdc_cut mx n d cs" and "n + length d < 2 ^ 64"
  shows "layout_from n (refs_of hof (map chunk_of_cdc cs))
    \<and> refs_length (refs_of hof (map chunk_of_cdc cs)) = length d"
  using assms
proof (induction cs arbitrary: n d)
  case (Cons c cs)
  note h = cdc_cut_head [OF Cons.prems]
  let ?n = "n + length (cd_data c)" and ?d = "drop (length (cd_data c)) d"
  have "layout_from ?n (refs_of hof (map chunk_of_cdc cs))
      \<and> refs_length (refs_of hof (map chunk_of_cdc cs)) = length ?d"
    using Cons.prems h(3) by (intro Cons.IH) auto
  then show ?case using h by simp
qed simp

lemma content_of_cdc_cut:
  assumes "cdc_cut mx n d cs" and "n + length d < 2 ^ 64"
    and "\<And>c. c \<in> set cs \<Longrightarrow> v (hof (cd_data c)) = Some (cd_data c)"
  shows "content_of v (refs_of hof (map chunk_of_cdc cs)) = Some d"
  using assms
proof (induction cs arbitrary: n d)
  case (Cons c cs)
  note h = cdc_cut_head [OF Cons.prems(1,2)]
  have "content_of v (refs_of hof (map chunk_of_cdc cs)) = Some (drop (length (cd_data c)) d)"
    using Cons.prems h(3) by (intro Cons.IH [of "n + length (cd_data c)"]) auto
  moreover have "v (hof (cd_data c)) = Some (cd_data c)" using Cons.prems(3) by simp
  ultimately show ?case using h by simp
qed simp

text \<open>The manifest of a whole cut: well-formed, of the right size.\<close>

lemma wf_push_all_cdc_cut:
  assumes "cdc_cut mx 0 d cs" and "length d < 2 ^ 64"
  shows "wf_manifest (push_all hof manifest_default (map chunk_of_cdc cs))"
    and "unat (total_size (push_all hof manifest_default (map chunk_of_cdc cs))) = length d"
proof -
  have lay: "layout_from 0 (refs_of hof (map chunk_of_cdc cs))"
    and len: "refs_length (refs_of hof (map chunk_of_cdc cs)) = length d"
    using refs_of_cdc_cut [OF assms(1)] assms(2) by auto
  show sz: "unat (total_size (push_all hof manifest_default (map chunk_of_cdc cs))) = length d"
    using total_push_all [of manifest_default hof "map chunk_of_cdc cs"] len assms(2)
    by (simp add: manifest_default_def)
  show "wf_manifest (push_all hof manifest_default (map chunk_of_cdc cs))"
    using lay len sz by (simp add: wf_manifest_def chunks_push_all manifest_default_def)
qed

lemma content_push_all_cdc_cut:
  assumes cut: "cdc_cut mx 0 d cs" and small: "length d < 2 ^ 64"
    and stored: "\<And>c. c \<in> set cs \<Longrightarrow> v (hof (cd_data c)) = Some (cd_data c)"
  shows "manifest_content v (push_all hof manifest_default (map chunk_of_cdc cs)) = Some d"
  using content_of_cdc_cut [OF cut _ stored] wf_push_all_cdc_cut(1) [OF cut small, of hof] small
  by (simp add: manifest_content_def chunks_push_all) (simp add: manifest_default_def)

section \<open>The interface of a content-addressed store\<close>

text \<open>
  What the chunk loop needs of a store: a successful \<open>put\<close> answers the content's hash and
  adds at most that content; a failed one leaves the content as it was; a blob's bytes
  always hash to its name.
\<close>

locale content_store =
  fixes sput :: "'s \<Rightarrow> bytes \<Rightarrow> 's \<times> (io_error + hash)"
    and sview :: "'s \<Rightarrow> hash \<Rightarrow> bytes option"
    and sinv :: "'s \<Rightarrow> bool"
    and hof :: "bytes \<Rightarrow> hash"
  assumes put_hash: "sinv s \<Longrightarrow> sput s d = (s', Inr h) \<Longrightarrow> h = hof d"
    and put_view: "sinv s \<Longrightarrow> sput s d = (s', Inr h) \<Longrightarrow>
      sview s' = (if sview s (hof d) = None then (sview s)(hof d \<mapsto> d) else sview s)"
    and put_err: "sinv s \<Longrightarrow> sput s d = (s', Inl e) \<Longrightarrow> sview s' = sview s"
    and put_inv: "sinv s \<Longrightarrow> sput s d = (s', r) \<Longrightarrow> sinv s'"
    and named_by_content: "sinv s \<Longrightarrow> sview s h = Some d \<Longrightarrow> hof d = h"
begin

lemma put_mono: "sinv s \<Longrightarrow> sput s d = (s', r) \<Longrightarrow> sview s \<subseteq>\<^sub>m sview s'"
  by (cases r) (auto simp: map_le_def put_err put_view)

lemma put_stored:
  assumes "sinv s" and "sput s d = (s', Inr h)" and "inj_on hof (insert d (ran (sview s)))"
  shows "sview s' (hof d) = Some d"
proof (cases "sview s (hof d)")
  case None
  then show ?thesis using put_view [OF assms(1,2)] by simp
next
  case (Some b)
  have "hof b = hof d" using named_by_content [OF assms(1) Some] .
  moreover have "b \<in> ran (sview s)" using Some by (auto simp: ran_def)
  ultimately have "b = d" using inj_onD [OF assms(3), of b d] by simp
  then show ?thesis using put_view [OF assms(1,2)] Some by simp
qed

lemma put_ran: "sinv s \<Longrightarrow> sput s d = (s', r) \<Longrightarrow> ran (sview s') \<subseteq> insert d (ran (sview s))"
  by (cases r) (auto simp: put_err put_view ran_def split: if_splits)

lemma store_loop_inv_mono:
  assumes "sinv s" and "store_loop sput s items m = (s', r)"
  shows "sinv s' \<and> sview s \<subseteq>\<^sub>m sview s'"
  using assms
proof (induction items arbitrary: s m)
  case (Cons item items)
  show ?case
  proof (cases item)
    case (Inl e)
    then show ?thesis using Cons.prems by simp
  next
    case item: (Inr ck)
    obtain s1 r1 where p: "sput s (ck_data ck) = (s1, r1)" by fastforce
    have one: "sinv s1" "sview s \<subseteq>\<^sub>m sview s1"
      using put_inv put_mono Cons.prems(1) p by blast+
    show ?thesis
    proof (cases r1)
      case (Inl e)
      then show ?thesis using Cons.prems p item one by simp
    next
      case (Inr h)
      then have "store_loop sput s1 items (push_chunk m h ck) = (s', r)"
        using Cons.prems p item by simp
      then show ?thesis using Cons.IH [OF one(1)] one(2) map_le_trans by blast
    qed
  qed
qed simp

lemma store_loop_inv: "sinv s \<Longrightarrow> store_loop sput s items m = (s', r) \<Longrightarrow> sinv s'"
  and store_loop_mono: "sinv s \<Longrightarrow> store_loop sput s items m = (s', r) \<Longrightarrow> sview s \<subseteq>\<^sub>m sview s'"
  using store_loop_inv_mono by blast+

text \<open>A loop that succeeds pushed every chunk, and each chunk's bytes are in the store.\<close>

lemma store_loop_ok:
  assumes "sinv s" and "store_loop sput s (map Inr cks) m = (s', Inr m')"
    and "inj_on hof (ran (sview s) \<union> ck_data ` set cks)"
  shows "m' = push_all hof m cks" and "ck \<in> set cks \<Longrightarrow> sview s' (hof (ck_data ck)) = Some (ck_data ck)"
proof -
  have "m' = push_all hof m cks \<and> (\<forall>ck \<in> set cks. sview s' (hof (ck_data ck)) = Some (ck_data ck))"
    using assms
  proof (induction cks arbitrary: s m)
    case (Cons ck cks)
    obtain s1 h where p: "sput s (ck_data ck) = (s1, Inr h)"
      and rest: "store_loop sput s1 (map Inr cks) (push_chunk m h ck) = (s', Inr m')"
      using Cons.prems(2) by (auto split: prod.splits sum.splits)
    have h: "h = hof (ck_data ck)" using put_hash Cons.prems(1) p by blast
    have inv1: "sinv s1" using put_inv Cons.prems(1) p by blast
    have inj: "inj_on hof (ran (sview s1) \<union> ck_data ` set cks)"
      using put_ran [OF Cons.prems(1) p] Cons.prems(3) by (auto intro: inj_on_subset)
    have "sview s1 (hof (ck_data ck)) = Some (ck_data ck)"
      using put_stored [OF Cons.prems(1) p] Cons.prems(3) by (auto intro: inj_on_subset)
    then have "sview s' (hof (ck_data ck)) = Some (ck_data ck)"
      using store_loop_mono [OF inv1 rest] by (auto simp: map_le_def dom_def)
    then show ?case using Cons.IH [OF inv1 rest inj] h by auto
  qed simp
  then show "m' = push_all hof m cks" and "ck \<in> set cks \<Longrightarrow> sview s' (hof (ck_data ck)) = Some (ck_data ck)"
    by auto
qed

text \<open>Storing all chunks of \<open>d\<close> gives a well-formed manifest that stands for \<open>d\<close>.\<close>

lemma store_loop_content:
  assumes inv: "sinv s" and run: "store_loop sput s (map (\<lambda>c. Inr (chunk_of_cdc c)) cs) manifest_default = (s', Inr m)"
    and cut: "cdc_cut mx 0 d cs" and small: "length d < 2 ^ 64"
    and inj: "inj_on hof (ran (sview s) \<union> cd_data ` set cs)"
  shows "manifest_content (sview s') m = Some d" and "unat (total_size m) = length d"
proof -
  let ?cks = "map chunk_of_cdc cs"
  have run': "store_loop sput s (map Inr ?cks) manifest_default = (s', Inr m)"
    using run by (simp add: comp_def)
  have data: "ck_data ` set ?cks = cd_data ` set cs"
    by (auto simp: chunk_of_cdc_def image_iff)
  have m: "m = push_all hof manifest_default ?cks"
    using store_loop_ok(1) [OF inv run'] inj data by simp
  have "sview s' (hof (cd_data c)) = Some (cd_data c)" if "c \<in> set cs" for c
    using store_loop_ok(2) [OF inv run', of "chunk_of_cdc c"] inj data that
    by (auto simp: chunk_of_cdc_def)
  then show "manifest_content (sview s') m = Some d"
    using content_push_all_cdc_cut [OF cut small] m by simp
  show "unat (total_size m) = length d" using wf_push_all_cdc_cut(2) [OF cut small] m by simp
qed

end

end
