(* ===== verification/Blob_Store.thy ===== *)
theory Blob_Store
  imports Manifest "HOL-Library.AList"
begin

text \<open>
  \<open>crates/blobstore/src/lib.rs\<close>: the blob store over its directory. The directory is the
  two-level tree the code lays out: the root holds regular files (uploads in progress) and
  shard directories, a shard holds blob files and, possibly, entries that are not regular
  files. Entries are listed in the order \<open>read_dir\<close> yields them.

  Every system call that can fail is an \<open>io_step\<close>; the argument \<open>flt\<close> of an operation
  says which of its steps fail, and how. A temporary file is deleted when its handle is
  dropped, so it never outlives the call that made it; the entry \<open>RootFile\<close> stands for
  the files of other calls and of a crash.
\<close>

section \<open>The directory\<close>

datatype shard_entry = BlobFile bytes | NotRegular

datatype root_entry = RootFile bytes | ShardDir "(string \<times> shard_entry) list"

type_synonym disk = "(string \<times> root_entry) list"

datatype io_step =
    TempCreate | TempWrite | ShardCreate | TempSync | TempChmod | TempPersist
  | BlobRead | BlobStat | BlobUnlink | RootScan

type_synonym faults = "io_step \<Rightarrow> io_error option"

definition no_faults :: faults where
  "no_faults = (\<lambda>_. None)"

lemma no_faults_step: "no_faults st = None"
  by (simp add: no_faults_def)

section \<open>Paths\<close>

definition blob_path :: "blake3_lib \<Rightarrow> hash \<Rightarrow> string \<times> string" where
  "blob_path B h = (let hex = to_hex B h in (take 2 hex, hex))"

definition shard_of :: "disk \<Rightarrow> string \<Rightarrow> (string \<times> shard_entry) list" where
  "shard_of d s = (case map_of d s of Some (ShardDir es) \<Rightarrow> es | _ \<Rightarrow> [])"

definition entry_at :: "disk \<Rightarrow> string \<times> string \<Rightarrow> shard_entry option" where
  "entry_at d p = map_of (shard_of d (fst p)) (snd p)"

definition path_exists :: "disk \<Rightarrow> string \<times> string \<Rightarrow> bool" where
  "path_exists d p \<longleftrightarrow> entry_at d p \<noteq> None"

definition has :: "blake3_lib \<Rightarrow> disk \<Rightarrow> hash \<Rightarrow> bool" where
  "has B d h = path_exists d (blob_path B h)"

section \<open>Storing\<close>

text \<open>\<open>fs::create_dir_all\<close> of a shard: \<^const>\<open>None\<close> when a regular file is in the way.\<close>

definition create_shard :: "disk \<Rightarrow> string \<Rightarrow> disk option" where
  "create_shard d s =
     (case map_of d s of
        None \<Rightarrow> Some (AList.update s (ShardDir []) d)
      | Some (ShardDir _) \<Rightarrow> Some d
      | Some (RootFile _) \<Rightarrow> None)"

text \<open>The atomic rename of the temporary file holding \<open>data\<close> onto \<open>p\<close>.\<close>

definition persist :: "disk \<Rightarrow> string \<times> string \<Rightarrow> bytes \<Rightarrow> disk" where
  "persist d p data =
     AList.update (fst p) (ShardDir (AList.update (snd p) (BlobFile data) (shard_of d (fst p)))) d"

definition commit :: "blake3_lib \<Rightarrow> faults \<Rightarrow> disk \<Rightarrow> bytes \<Rightarrow> hash \<Rightarrow> disk \<times> (io_error + hash)" where
  "commit B flt d data h =
     (let dest = blob_path B h in
      if path_exists d dest then (d, Inr h)
      else case flt ShardCreate of Some e \<Rightarrow> (d, Inl e) | None \<Rightarrow>
      case create_shard d (fst dest) of None \<Rightarrow> (d, Inl IoAlreadyExists) | Some d1 \<Rightarrow>
      case flt TempSync of Some e \<Rightarrow> (d1, Inl e) | None \<Rightarrow>
      case flt TempChmod of Some e \<Rightarrow> (d1, Inl e) | None \<Rightarrow>
      case flt TempPersist of
        Some e \<Rightarrow> if path_exists d1 dest then (d1, Inr h) else (d1, Inl e)
      | None \<Rightarrow> (persist d1 dest data, Inr h))"

definition put :: "blake3_lib \<Rightarrow> faults \<Rightarrow> disk \<Rightarrow> bytes \<Rightarrow> disk \<times> (io_error + hash)" where
  "put B flt d data =
     (let h = hash_of B data in
      if has B d h then (d, Inr h)
      else case flt TempCreate of Some e \<Rightarrow> (d, Inl e) | None \<Rightarrow>
      case flt TempWrite of Some e \<Rightarrow> (d, Inl e) | None \<Rightarrow>
      commit B flt d data h)"

text \<open>
  \<open>put_reader\<close>: what one call of \<open>read\<close> returns is an event; the loop ends at the first
  empty read. \<open>pump\<close> collects the buffers that were hashed and written.
\<close>

datatype read_event = ReadOk bytes | ReadErr io_error

fun pump :: "faults \<Rightarrow> read_event list \<Rightarrow> bytes list \<Rightarrow> io_error + bytes list" where
  "pump flt [] bufs = Inr bufs"
| "pump flt (ReadOk b # evs) bufs =
     (if b = [] then Inr bufs
      else case flt TempWrite of Some e \<Rightarrow> Inl e | None \<Rightarrow> pump flt evs (bufs @ [b]))"
| "pump flt (ReadErr e # evs) bufs = (if e = IoInterrupted then pump flt evs bufs else Inl e)"

definition put_reader :: "blake3_lib \<Rightarrow> faults \<Rightarrow> disk \<Rightarrow> read_event list \<Rightarrow> disk \<times> (io_error + hash)" where
  "put_reader B flt d evs =
     (case flt TempCreate of Some e \<Rightarrow> (d, Inl e) | None \<Rightarrow>
      case pump flt evs [] of Inl e \<Rightarrow> (d, Inl e) | Inr bufs \<Rightarrow>
      commit B flt d (concat bufs) (from_bytes (b3_hash_updates B bufs)))"

definition store_file ::
  "blake3_lib \<Rightarrow> fastcdc_lib \<Rightarrow> faults \<Rightarrow> disk \<Rightarrow> reader \<Rightarrow> chunker_config \<Rightarrow> disk \<times> (io_error + manifest)"
where
  "store_file B F flt d r cfg = store_loop (put B flt) d (chunk_reader F r cfg) manifest_default"

section \<open>Reading, listing, removing\<close>

definition get :: "blake3_lib \<Rightarrow> faults \<Rightarrow> disk \<Rightarrow> hash \<Rightarrow> io_error + bytes" where
  "get B flt d h =
     (case flt BlobRead of Some e \<Rightarrow> Inl e | None \<Rightarrow>
      case entry_at d (blob_path B h) of
        Some (BlobFile b) \<Rightarrow> Inr b
      | Some NotRegular \<Rightarrow> Inl IoOther
      | None \<Rightarrow> (case map_of d (fst (blob_path B h)) of
                  Some (RootFile _) \<Rightarrow> Inl IoOther | _ \<Rightarrow> Inl IoNotFound))"

text \<open>Root entries and shard entries that cannot be read during a scan.\<close>

record scan_faults =
  bad_shard :: "string \<Rightarrow> bool"
  bad_blob :: "string \<Rightarrow> string \<Rightarrow> bool"

definition no_scan_faults :: scan_faults where
  "no_scan_faults = \<lparr>bad_shard = (\<lambda>_. False), bad_blob = (\<lambda>_ _. False)\<rparr>"

fun scan_shard :: "blake3_lib \<Rightarrow> (string \<Rightarrow> bool) \<Rightarrow> (string \<times> shard_entry) list \<Rightarrow> hash list" where
  "scan_shard B bad [] = []"
| "scan_shard B bad ((n, e) # es) =
     (if bad n then scan_shard B bad es
      else case e of
        NotRegular \<Rightarrow> scan_shard B bad es
      | BlobFile _ \<Rightarrow> (case from_str B n of
                         Inl _ \<Rightarrow> scan_shard B bad es
                       | Inr h \<Rightarrow> h # scan_shard B bad es))"

fun scan_root :: "blake3_lib \<Rightarrow> scan_faults \<Rightarrow> disk \<Rightarrow> hash list" where
  "scan_root B sf [] = []"
| "scan_root B sf ((s, e) # d) =
     (if bad_shard sf s then scan_root B sf d
      else case e of
        RootFile _ \<Rightarrow> scan_root B sf d
      | ShardDir es \<Rightarrow> scan_shard B (bad_blob sf s) es @ scan_root B sf d)"

definition list_hashes :: "blake3_lib \<Rightarrow> faults \<Rightarrow> scan_faults \<Rightarrow> disk \<Rightarrow> io_error + hash list" where
  "list_hashes B flt sf d =
     (case flt RootScan of Some e \<Rightarrow> Inl e | None \<Rightarrow> Inr (scan_root B sf d))"

text \<open>Removing the file at \<open>p\<close>; the shard directory stays.\<close>

definition unlink :: "disk \<Rightarrow> string \<times> string \<Rightarrow> disk" where
  "unlink d p = AList.update (fst p) (ShardDir (AList.delete (snd p) (shard_of d (fst p)))) d"

definition remove :: "blake3_lib \<Rightarrow> faults \<Rightarrow> disk \<Rightarrow> hash \<Rightarrow> disk \<times> (io_error + u64)" where
  "remove B flt d h =
     (let p = blob_path B h in
      case flt BlobStat of
        Some e \<Rightarrow> (d, if e = IoNotFound then Inr 0 else Inl e)
      | None \<Rightarrow>
      case entry_at d p of
        None \<Rightarrow> (case map_of d (fst p) of
                   Some (RootFile _) \<Rightarrow> (d, Inl IoOther) | _ \<Rightarrow> (d, Inr 0))
      | Some NotRegular \<Rightarrow>
          (case flt BlobUnlink of
             Some e \<Rightarrow> (d, if e = IoNotFound then Inr 0 else Inl e)
           | None \<Rightarrow> (d, Inl IoOther))
      | Some (BlobFile b) \<Rightarrow>
          (case flt BlobUnlink of
             Some e \<Rightarrow> (d, if e = IoNotFound then Inr 0 else Inl e)
           | None \<Rightarrow> (unlink d p, Inr (of_nat (length b)))))"

section \<open>The abstract store\<close>

text \<open>The blobs of a disk as a map, and the invariant of the store's directory.\<close>

definition blobs_of :: "blake3_lib \<Rightarrow> disk \<Rightarrow> hash \<Rightarrow> bytes option" where
  "blobs_of B d h = (case entry_at d (blob_path B h) of Some (BlobFile b) \<Rightarrow> Some b | _ \<Rightarrow> None)"

definition entry_ok :: "blake3_lib \<Rightarrow> string \<Rightarrow> string \<times> shard_entry \<Rightarrow> bool" where
  "entry_ok B s ne \<longleftrightarrow>
     (case snd ne of
        NotRegular \<Rightarrow> False
      | BlobFile b \<Rightarrow> fst ne = to_hex B (hash_of B b) \<and> s = take 2 (fst ne))"

definition disk_ok :: "blake3_lib \<Rightarrow> disk \<Rightarrow> bool" where
  "disk_ok B d \<longleftrightarrow> distinct (map fst d) \<and>
     (\<forall>s es. (s, ShardDir es) \<in> set d \<longrightarrow> distinct (map fst es) \<and> list_all (entry_ok B s) es)"

section \<open>Lemmas on the directory\<close>

lemma blob_path_inject: "blake3_ok B \<Longrightarrow> blob_path B h = blob_path B h' \<longleftrightarrow> h = h'"
  by (auto simp: blob_path_def Let_def to_hex_inject)

lemma shard_of_update [simp]:
  "shard_of (AList.update s (ShardDir es) d) s' = (if s' = s then es else shard_of d s')"
  by (simp add: shard_of_def update_conv')

lemma entry_at_persist [simp]:
  "entry_at (persist d p data) q = (if q = p then Some (BlobFile data) else entry_at d q)"
  by (cases p; cases q) (auto simp: entry_at_def persist_def update_conv')

lemma entry_at_unlink [simp]:
  "entry_at (unlink d p) q = (if q = p then None else entry_at d q)"
  by (cases p; cases q) (auto simp: entry_at_def unlink_def delete_conv')

lemma create_shard_shards: "create_shard d s = Some d' \<Longrightarrow> shard_of d' s' = shard_of d s'"
proof (cases "map_of d s")
  case None
  moreover assume "create_shard d s = Some d'"
  ultimately have "d' = AList.update s (ShardDir []) d" and "shard_of d s = []"
    by (simp_all add: create_shard_def shard_of_def)
  then show ?thesis by simp
next
  case (Some e)
  moreover assume "create_shard d s = Some d'"
  ultimately show ?thesis by (simp add: create_shard_def split: root_entry.splits)
qed

lemma create_shard_entries: "create_shard d s = Some d' \<Longrightarrow> entry_at d' q = entry_at d q"
  by (simp add: entry_at_def create_shard_shards)

lemma shard_of_mem: "distinct (map fst d) \<Longrightarrow> (s, ShardDir es) \<in> set d \<Longrightarrow> shard_of d s = es"
  by (simp add: shard_of_def)

text \<open>The invariant, read through \<^const>\<open>shard_of\<close>.\<close>

lemma disk_ok_iff:
  "disk_ok B d \<longleftrightarrow> distinct (map fst d) \<and>
     (\<forall>s. distinct (map fst (shard_of d s)) \<and> list_all (entry_ok B s) (shard_of d s))"
proof
  assume ok: "disk_ok B d"
  then have dist: "distinct (map fst d)" by (simp add: disk_ok_def)
  have "distinct (map fst (shard_of d s)) \<and> list_all (entry_ok B s) (shard_of d s)" for s
    using ok by (auto simp: disk_ok_def shard_of_def dest!: map_of_SomeD
        split: option.splits root_entry.splits)
  with dist show "distinct (map fst d) \<and>
     (\<forall>s. distinct (map fst (shard_of d s)) \<and> list_all (entry_ok B s) (shard_of d s))" by blast
next
  assume "distinct (map fst d) \<and>
     (\<forall>s. distinct (map fst (shard_of d s)) \<and> list_all (entry_ok B s) (shard_of d s))"
  then show "disk_ok B d" using shard_of_mem by (fastforce simp: disk_ok_def)
qed

lemma disk_ok_empty [simp]: "disk_ok B []"
  by (simp add: disk_ok_def)

lemma disk_ok_update:
  assumes "disk_ok B d" and "distinct (map fst es)" and "list_all (entry_ok B s) es"
  shows "disk_ok B (AList.update s (ShardDir es) d)"
  using assms by (auto simp: disk_ok_iff distinct_update)

lemma disk_ok_create_shard: "disk_ok B d \<Longrightarrow> create_shard d s = Some d' \<Longrightarrow> disk_ok B d'"
  by (auto simp: create_shard_def intro!: disk_ok_update split: option.splits root_entry.splits)

lemma entry_ok_update:
  assumes "list_all (entry_ok B s) es" and "entry_ok B s (n, e)"
  shows "list_all (entry_ok B s) (AList.update n e es)"
  using assms by (induction es) auto

lemma disk_ok_persist:
  assumes "disk_ok B d"
  shows "disk_ok B (persist d (blob_path B (hash_of B data)) data)"
  unfolding persist_def
proof (rule disk_ok_update [OF assms])
  let ?p = "blob_path B (hash_of B data)"
  show "distinct (map fst (AList.update (snd ?p) (BlobFile data) (shard_of d (fst ?p))))"
    using assms by (simp add: disk_ok_iff distinct_update)
  show "list_all (entry_ok B (fst ?p)) (AList.update (snd ?p) (BlobFile data) (shard_of d (fst ?p)))"
    using assms by (intro entry_ok_update) (auto simp: disk_ok_iff entry_ok_def blob_path_def Let_def)
qed

lemma disk_ok_unlink: "disk_ok B d \<Longrightarrow> disk_ok B (unlink d p)"
  unfolding unlink_def
  by (rule disk_ok_update)
    (auto simp: disk_ok_iff distinct_map_filterI list_all_iff AList.delete_eq)

lemma entry_at_ok:
  assumes "disk_ok B d" and "entry_at d (s, n) = Some e"
  shows "\<exists>b. e = BlobFile b \<and> n = to_hex B (hash_of B b) \<and> s = take 2 n"
proof -
  have "(n, e) \<in> set (shard_of d s)" using assms(2) by (auto simp: entry_at_def dest: map_of_SomeD)
  then have "entry_ok B s (n, e)" using assms(1) by (auto simp: disk_ok_iff list_all_iff)
  then show ?thesis by (auto simp: entry_ok_def split: shard_entry.splits)
qed

lemma blobs_of_Some: "blobs_of B d h = Some b \<longleftrightarrow> entry_at d (blob_path B h) = Some (BlobFile b)"
  by (auto simp: blobs_of_def split: option.splits shard_entry.splits)

lemma blobs_of_named:
  assumes "blake3_ok B" and "disk_ok B d" and "blobs_of B d h = Some b"
  shows "hash_of B b = h"
proof -
  have "entry_at d (take 2 (to_hex B h), to_hex B h) = Some (BlobFile b)"
    using assms(3) by (simp add: blobs_of_Some blob_path_def Let_def)
  then have "to_hex B h = to_hex B (hash_of B b)" using entry_at_ok [OF assms(2)] by fastforce
  then show ?thesis using to_hex_inject [OF assms(1)] by metis
qed

lemma path_exists_blob:
  assumes "disk_ok B d"
  shows "path_exists d (blob_path B h) \<longleftrightarrow> blobs_of B d h \<noteq> None"
  using entry_at_ok [OF assms, of "fst (blob_path B h)" "snd (blob_path B h)"]
  by (auto simp: path_exists_def blobs_of_def split: option.splits shard_entry.splits)

lemma blobs_of_persist:
  "blake3_ok B \<Longrightarrow> blobs_of B (persist d (blob_path B h) data) = (blobs_of B d)(h \<mapsto> data)"
  by (auto simp: fun_eq_iff blobs_of_def blob_path_inject)

lemma blobs_of_unlink:
  "blake3_ok B \<Longrightarrow> blobs_of B (unlink d (blob_path B h)) = (blobs_of B d)(h := None)"
  by (auto simp: fun_eq_iff blobs_of_def blob_path_inject)

lemma blobs_of_create_shard: "create_shard d s = Some d' \<Longrightarrow> blobs_of B d' = blobs_of B d"
  by (auto simp: fun_eq_iff blobs_of_def create_shard_entries)

lemma path_exists_create_shard:
  "create_shard d s = Some d' \<Longrightarrow> path_exists d' p = path_exists d p"
  by (simp add: path_exists_def create_shard_entries)

section \<open>Storing keeps the store's contract\<close>

text \<open>
  \<open>commit\<close> on every branch: the disk stays well-formed, an error leaves the blobs as
  they were, and success adds the blob if no blob of that name was there.
\<close>

lemma commit_cases:
  assumes B: "blake3_ok B" and ok: "disk_ok B d"
    and run: "commit B flt d data (hash_of B data) = (d', r)"
  shows "disk_ok B d'"
    and "r = Inl e \<Longrightarrow> blobs_of B d' = blobs_of B d"
    and "r = Inr h \<Longrightarrow> h = hash_of B data \<and>
      blobs_of B d' = (if blobs_of B d h = None then (blobs_of B d)(h \<mapsto> data) else blobs_of B d)"
  using run ok
  by (auto simp: commit_def Let_def path_exists_blob path_exists_create_shard
      blobs_of_create_shard blobs_of_persist [OF B]
      intro: disk_ok_create_shard disk_ok_persist
      split: if_splits option.splits)

lemma put_cases:
  assumes B: "blake3_ok B" and ok: "disk_ok B d" and run: "put B flt d data = (d', r)"
  shows "disk_ok B d'"
    and "r = Inl e \<Longrightarrow> blobs_of B d' = blobs_of B d"
    and "r = Inr h \<Longrightarrow> h = hash_of B data \<and>
      blobs_of B d' = (if blobs_of B d h = None then (blobs_of B d)(h \<mapsto> data) else blobs_of B d)"
  using run ok
  by (auto simp: put_def Let_def has_def path_exists_blob
      dest: commit_cases(1) [OF B] commit_cases(2) [OF B _ _ refl] commit_cases(3) [OF B _ _ refl]
      split: if_splits option.splits)

lemma put_disk_ok: "blake3_ok B \<Longrightarrow> disk_ok B d \<Longrightarrow> put B flt d data = (d', r) \<Longrightarrow> disk_ok B d'"
  by (rule put_cases(1))

text \<open>The disk implements the interface of a content-addressed store.\<close>

interpretation bs: content_store "put B flt" "blobs_of B" "\<lambda>d. blake3_ok B \<and> disk_ok B d" "hash_of B"
  for B :: blake3_lib and flt :: faults
proof unfold_locales
  fix d d' h e r data
  { assume "blake3_ok B \<and> disk_ok B d" and "put B flt d data = (d', Inr h)"
    then show "h = hash_of B data" using put_cases(3) by blast }
  { assume "blake3_ok B \<and> disk_ok B d" and "put B flt d data = (d', Inr h)"
    then show "blobs_of B d' = (if blobs_of B d (hash_of B data) = None
        then (blobs_of B d)(hash_of B data \<mapsto> data) else blobs_of B d)"
      using put_cases(3) by blast }
  { assume "blake3_ok B \<and> disk_ok B d" and "put B flt d data = (d', Inl e)"
    then show "blobs_of B d' = blobs_of B d" using put_cases(2) by blast }
  { assume "blake3_ok B \<and> disk_ok B d" and "put B flt d data = (d', r)"
    then show "blake3_ok B \<and> disk_ok B d'" using put_cases(1) by blast }
  { assume "blake3_ok B \<and> disk_ok B d" and "blobs_of B d h = Some data"
    then show "hash_of B data = h" using blobs_of_named by blast }
qed

section \<open>The other operations\<close>

lemma get_eq:
  assumes "flt BlobRead = None"
  shows "get B flt d h = Inr b \<longleftrightarrow> blobs_of B d h = Some b"
  using assms by (auto simp: get_def blobs_of_def split: option.splits shard_entry.splits root_entry.splits)

lemma get_Inr: "get B flt d h = Inr b \<Longrightarrow> blobs_of B d h = Some b"
  by (auto simp: get_def blobs_of_def split: option.splits shard_entry.splits root_entry.splits)

lemma remove_cases:
  assumes B: "blake3_ok B" and ok: "disk_ok B d" and run: "remove B flt d h = (d', r)"
  shows "disk_ok B d'"
    and "blobs_of B d' = blobs_of B d \<or> blobs_of B d' = (blobs_of B d)(h := None)"
    and "r = Inl e \<Longrightarrow> d' = d"
  using run ok
  by (auto simp: remove_def Let_def blobs_of_unlink [OF B] intro: disk_ok_unlink
      split: option.splits shard_entry.splits root_entry.splits if_splits)

lemma remove_no_faults:
  assumes "blake3_ok B" and "disk_ok B d" and "blobs_of B d h = Some b"
  shows "remove B no_faults d h = (unlink d (blob_path B h), Inr (of_nat (length b)))"
  using assms(3) by (simp add: remove_def no_faults_def blobs_of_Some Let_def)

lemma pump_concat:
  "pump flt evs bufs = Inr bufs' \<Longrightarrow>
     \<exists>more. bufs' = bufs @ more \<and> [] \<notin> set more"
proof (induction flt evs bufs arbitrary: bufs' rule: pump.induct)
  case (2 flt b evs bufs)
  then show ?case by (cases "b = []"; cases "flt TempWrite") fastforce+
next
  case (3 flt e evs bufs)
  then show ?case by (auto split: if_splits)
qed auto

lemma set_scan_shard:
  "h \<in> set (scan_shard B bad es) \<longleftrightarrow>
     (\<exists>n b. (n, BlobFile b) \<in> set es \<and> \<not> bad n \<and> from_str B n = Inr h)"
proof (induction B bad es rule: scan_shard.induct)
  case (2 B bad n e es)
  then show ?case by (cases e; cases "from_str B n") auto
qed simp

lemma set_scan_root:
  "h \<in> set (scan_root B sf d) \<longleftrightarrow>
     (\<exists>s es. (s, ShardDir es) \<in> set d \<and> \<not> bad_shard sf s \<and> h \<in> set (scan_shard B (bad_blob sf s) es))"
proof (induction B sf d rule: scan_root.induct)
  case (2 B sf s e d)
  then show ?case by (cases e) auto
qed simp

lemma scan_shard_ok:
  assumes "blake3_ok B" and "list_all (entry_ok B s) es" and "distinct (map fst es)"
  shows "distinct (scan_shard B bad es)
    \<and> (\<forall>h \<in> set (scan_shard B bad es). take 2 (to_hex B h) = s \<and> to_hex B h \<in> fst ` set es)"
  using assms(2,3)
proof (induction es)
  case (Cons ne es)
  obtain n e where ne: "ne = (n, e)" by fastforce
  obtain b where b: "e = BlobFile b" "n = to_hex B (hash_of B b)" "s = take 2 n"
    using Cons.prems ne by (auto simp: entry_ok_def split: shard_entry.splits)
  have IH: "distinct (scan_shard B bad es)
      \<and> (\<forall>h \<in> set (scan_shard B bad es). take 2 (to_hex B h) = s \<and> to_hex B h \<in> fst ` set es)"
    using Cons by simp
  moreover have "n \<notin> fst ` set es" using Cons.prems ne by simp
  ultimately show ?case using assms(1) ne b by auto
qed simp

lemma scan_root_distinct:
  assumes "blake3_ok B" and "disk_ok B d"
  shows "distinct (scan_root B sf d)"
  using assms(2)
proof (induction d)
  case (Cons se d)
  obtain s e where se: "se = (s, e)" by fastforce
  have ok: "disk_ok B d" and fresh: "s \<notin> fst ` set d"
    using Cons.prems se by (auto simp: disk_ok_def)
  show ?case
  proof (cases e)
    case (RootFile x)
    then show ?thesis using Cons.IH ok se by simp
  next
    case (ShardDir es)
    have shard: "distinct (map fst es)" "list_all (entry_ok B s) es"
      using Cons.prems se ShardDir by (auto simp: disk_ok_def)
    have "set (scan_shard B (bad_blob sf s) es) \<inter> set (scan_root B sf d) = {}"
    proof (rule ccontr)
      assume "\<not> ?thesis"
      then obtain h s' es' where "h \<in> set (scan_shard B (bad_blob sf s) es)"
        and "(s', ShardDir es') \<in> set d" and "h \<in> set (scan_shard B (bad_blob sf s') es')"
        by (auto simp: set_scan_root)
      moreover from this ok have "take 2 (to_hex B h) = s'"
        using scan_shard_ok [OF assms(1), of s' es'] by (auto simp: disk_ok_def)
      moreover have "take 2 (to_hex B h) = s"
        using scan_shard_ok [OF assms(1) shard(2,1)] calculation(1) by blast
      ultimately show False using fresh by force
    qed
    then show ?thesis using Cons.IH [OF ok] scan_shard_ok [OF assms(1) shard(2,1)] se ShardDir by auto
  qed
qed simp

text \<open>The scan reports committed blobs only, and all of them when every entry is readable.\<close>

lemma scan_root_blobs:
  assumes "blake3_ok B" and "disk_ok B d"
  shows "set (scan_root B sf d) \<subseteq> dom (blobs_of B d)"
    and "set (scan_root B no_scan_faults d) = dom (blobs_of B d)"
proof -
  have sub: "set (scan_root B sf' d) \<subseteq> dom (blobs_of B d)" for sf'
  proof
    fix h assume "h \<in> set (scan_root B sf' d)"
    then obtain s es n b where 1: "(s, ShardDir es) \<in> set d" "(n, BlobFile b) \<in> set es"
      and n: "from_str B n = Inr h"
      by (auto simp: set_scan_root set_scan_shard)
    with assms(2) have e: "entry_ok B s (n, BlobFile b)" "distinct (map fst es)" "distinct (map fst d)"
      by (auto simp: disk_ok_def list_all_iff)
    then have "n = to_hex B h" and "s = take 2 n"
      using n assms(1) by (auto simp: entry_ok_def)
    moreover have "entry_at d (s, n) = Some (BlobFile b)"
      using 1 e by (simp add: entry_at_def shard_of_mem)
    ultimately show "h \<in> dom (blobs_of B d)" by (auto simp: blobs_of_Some blob_path_def Let_def)
  qed
  show "set (scan_root B sf d) \<subseteq> dom (blobs_of B d)" by (rule sub)
  have "h \<in> set (scan_root B no_scan_faults d)" if "blobs_of B d h = Some b" for h b
  proof -
    let ?n = "to_hex B h" and ?s = "take 2 (to_hex B h)"
    have "map_of (shard_of d ?s) ?n = Some (BlobFile b)"
      using that by (simp add: blobs_of_Some blob_path_def Let_def entry_at_def)
    moreover from this obtain es where "map_of d ?s = Some (ShardDir es)" "shard_of d ?s = es"
      by (auto simp: shard_of_def split: option.splits root_entry.splits)
    ultimately have "(?s, ShardDir es) \<in> set d" and "(?n, BlobFile b) \<in> set es"
      by (auto dest: map_of_SomeD)
    moreover from this have "h \<in> set (scan_shard B (bad_blob no_scan_faults ?s) es)"
      using from_str_to_hex [OF assms(1), of h] by (auto simp: set_scan_shard no_scan_faults_def)
    ultimately show ?thesis by (auto simp: set_scan_root no_scan_faults_def)
  qed
  then show "set (scan_root B no_scan_faults d) = dom (blobs_of B d)" using sub by blast
qed

section \<open>Storing a whole file\<close>

lemma store_file_disk:
  assumes "blake3_ok B" and "disk_ok B d" and "store_file B F flt d r cfg = (d', res)"
  shows "disk_ok B d'" and "blobs_of B d \<subseteq>\<^sub>m blobs_of B d'"
  using bs.store_loop_inv_mono [of B d flt] assms by (auto simp: store_file_def)

text \<open>
  A stored file's manifest stands for the file's bytes, provided none of the byte strings
  involved collide.
\<close>

lemma store_file_content:
  assumes B: "blake3_ok B" and ok: "disk_ok B d" and F: "fastcdc_ok F" and cfg: "valid_config F cfg"
    and run: "store_file B F flt d (reader_of data) cfg = (d', Inr m)"
    and small: "length data < 2 ^ 64"
    and coll: "collision_free B (ran (blobs_of B d) \<union> {x. \<exists>i n. x = take n (drop i data)})"
  shows "manifest_content (blobs_of B d') m = Some data" and "unat (total_size m) = length data"
proof -
  obtain cs where items: "chunk_reader F (reader_of data) cfg = map (\<lambda>c. Inr (chunk_of_cdc c)) cs"
    and cut: "cdc_cut (max_size cfg) 0 data cs"
    using chunk_reader_ok [OF F cfg] .
  have inj: "inj_on (hash_of B) (ran (blobs_of B d) \<union> cd_data ` set cs)"
    using coll cdc_cut_slices [OF cut] by (auto simp: collision_free_def intro: inj_on_subset)
  have loop: "store_loop (put B flt) d (map (\<lambda>c. Inr (chunk_of_cdc c)) cs) manifest_default = (d', Inr m)"
    using run items by (simp add: store_file_def)
  show "manifest_content (blobs_of B d') m = Some data" and "unat (total_size m) = length data"
    using bs.store_loop_content [OF _ loop cut small inj] B ok by simp_all
qed

end
