(* ===== verification/Manifest_Reader.thy ===== *)
theory Manifest_Reader
  imports Blob_Store
begin

text \<open>
  \<open>ManifestReader\<close> and \<open>ChunkStream\<close> of \<open>crates/blobstore/src/manifest.rs\<close>, and
  \<open>Read::read_to_end\<close> of the standard library as a client of the \<open>Read\<close> interface.

  A reader borrows the store; here each call takes the store's \<open>get\<close> as the argument
  \<open>gt\<close>, so the disk may change between two calls. A call returns the reader's new state
  in the error case too, since \<open>read\<close> may have skipped empty chunks before it failed.
\<close>

section \<open>The reader\<close>

record mreader =
  mr_manifest :: manifest
  next_index :: nat
  current :: cursor
  base :: u64

definition mr_new :: "manifest \<Rightarrow> mreader" where
  "mr_new m = \<lparr>mr_manifest = m, next_index = 0, current = cursor_new [], base = 0\<rparr>"

definition mr_position :: "mreader \<Rightarrow> u64" where
  "mr_position r = base r + cur_pos (current r)"

function mr_read_loop ::
  "(hash \<Rightarrow> io_error + bytes) \<Rightarrow> nat \<Rightarrow> mreader \<Rightarrow> mreader \<times> (io_error + bytes)"
where
  "mr_read_loop gt n r =
     (let (got, c) = cursor_read n (current r); r1 = r\<lparr>current := c\<rparr> in
      if got \<noteq> [] then (r1, Inr got)
      else if next_index r < length (chunks (mr_manifest r)) then
        (let ck = chunks (mr_manifest r) ! next_index r in
         case gt (cr_hash ck) of
           Inl e \<Rightarrow> (r1, Inl e)
         | Inr b \<Rightarrow> mr_read_loop gt n
             (r\<lparr>current := cursor_new b, base := cr_offset ck, next_index := next_index r + 1\<rparr>))
      else (r1, Inr []))"
  by pat_completeness auto
termination
  by (relation "measure (\<lambda>(gt, n, r). length (chunks (mr_manifest r)) - next_index r)") auto

declare mr_read_loop.simps [simp del]

definition mr_read ::
  "(hash \<Rightarrow> io_error + bytes) \<Rightarrow> nat \<Rightarrow> mreader \<Rightarrow> mreader \<times> (io_error + bytes)"
where
  "mr_read gt n r = (if n = 0 then (r, Inr []) else mr_read_loop gt n r)"

text \<open>The comparison both the reader and the open file handle search chunks with.\<close>

definition chunk_cmp :: "u64 \<Rightarrow> chunk_ref \<Rightarrow> ordering" where
  "chunk_cmp target c =
     (if cr_offset c + ucast (cr_length c) \<le> target then Less
      else if cr_offset c > target then Greater
      else Equal)"

definition mr_seek ::
  "(hash \<Rightarrow> io_error + bytes) \<Rightarrow> mreader \<Rightarrow> seek_from \<Rightarrow> mreader \<times> (io_error + u64)"
where
  "mr_seek gt r pos =
     (let target = (case pos of
          SeekStart n \<Rightarrow> uint n
        | SeekCurrent k \<Rightarrow> uint (mr_position r) + k
        | SeekEnd k \<Rightarrow> uint (total_size (mr_manifest r)) + k)
      in if target < 0 then (r, Inl IoInvalidInput)
      else let target = as_u64 target in
      if target \<ge> total_size (mr_manifest r) then
        (r\<lparr>next_index := length (chunks (mr_manifest r)), current := cursor_new [], base := target\<rparr>,
         Inr target)
      else case binary_search_by (chunk_cmp target) (chunks (mr_manifest r)) of
        Inl _ \<Rightarrow> (r, Inl IoInvalidData)
      | Inr idx \<Rightarrow>
          (let ck = chunks (mr_manifest r) ! idx in
           case gt (cr_hash ck) of
             Inl e \<Rightarrow> (r, Inl e)
           | Inr b \<Rightarrow>
               (r\<lparr>current := \<lparr>cur_data = b, cur_pos = target - cr_offset ck\<rparr>,
                  base := cr_offset ck, next_index := idx + 1\<rparr>, Inr target)))"

section \<open>The forward-only stream\<close>

record chunk_stream =
  cs_manifest :: manifest
  cs_next :: nat

definition stream_new :: "manifest \<Rightarrow> chunk_stream" where
  "stream_new m = \<lparr>cs_manifest = m, cs_next = 0\<rparr>"

definition stream_total_size :: "chunk_stream \<Rightarrow> u64" where
  "stream_total_size s = total_size (cs_manifest s)"

definition next_chunk ::
  "(hash \<Rightarrow> io_error + bytes) \<Rightarrow> chunk_stream \<Rightarrow> chunk_stream \<times> (io_error + bytes) option"
where
  "next_chunk gt s =
     (if cs_next s < length (chunks (cs_manifest s))
      then (s\<lparr>cs_next := cs_next s + 1\<rparr>, Some (gt (cr_hash (chunks (cs_manifest s) ! cs_next s))))
      else (s, None))"

section \<open>Reading to the end\<close>

text \<open>
  \<open>Read::read_to_end\<close>: reads into buffers of the sizes \<open>Suc (bs i)\<close> the standard library
  picks until a read returns nothing, retrying an interrupted read. It returns \<^const>\<open>None\<close>
  if it never ends.
\<close>

partial_function (option) read_to_end ::
  "(nat \<Rightarrow> 's \<Rightarrow> 's \<times> (io_error + bytes)) \<Rightarrow> (nat \<Rightarrow> nat) \<Rightarrow> nat \<Rightarrow> 's \<Rightarrow> bytes
     \<Rightarrow> ('s \<times> (io_error + bytes)) option"
where
  "read_to_end rd bs i s acc =
     (case rd (Suc (bs i)) s of (s', res) \<Rightarrow>
      case res of
        Inl e \<Rightarrow> (if e = IoInterrupted then read_to_end rd bs (Suc i) s' acc else Some (s', Inl e))
      | Inr got \<Rightarrow> (if got = [] then Some (s', Inr acc)
                   else read_to_end rd bs (Suc i) s' (acc @ got)))"

text \<open>
  The contract of \<open>Read\<close> over a file of bytes \<open>d\<close>, at position \<open>p\<close>: a read returns
  the next bytes, at most as many as asked for, and nothing only at the end.
\<close>

locale byte_reader =
  fixes rd :: "nat \<Rightarrow> 's \<Rightarrow> 's \<times> (io_error + bytes)"
    and at :: "bytes \<Rightarrow> nat \<Rightarrow> 's \<Rightarrow> bool"
  assumes read_next: "at d p s \<Longrightarrow> 0 < n \<Longrightarrow>
      \<exists>s' got. rd n s = (s', Inr got) \<and> at d (p + length got) s' \<and> length got \<le> n
        \<and> got = take (length got) (drop p d) \<and> (got = [] \<longleftrightarrow> length d \<le> p)"
begin

lemma read_to_end_total:
  "at d p s \<Longrightarrow> \<exists>s'. read_to_end rd bs i s acc = Some (s', Inr (acc @ drop p d)) \<and> at d (max p (length d)) s'"
proof (induction "length d - p" arbitrary: p s i acc rule: less_induct)
  case less
  obtain s' got where r: "rd (Suc (bs i)) s = (s', Inr got)" and at': "at d (p + length got) s'"
    and got: "got = take (length got) (drop p d)" "got = [] \<longleftrightarrow> length d \<le> p"
    using read_next [OF less.prems, of "Suc (bs i)"] by blast
  show ?case
  proof (cases "got = []")
    case True
    then have "read_to_end rd bs i s acc = Some (s', Inr acc)"
      using r by (subst read_to_end.simps) simp
    then show ?thesis using True got at' by simp
  next
    case False
    then have p: "p < length d" using got(2) by simp
    have len: "length got \<le> length d - p" using arg_cong [OF got(1), of length] by simp
    have "read_to_end rd bs i s acc = read_to_end rd bs (Suc i) s' (acc @ got)"
      using False r by (subst read_to_end.simps) simp
    moreover have "length d - (p + length got) < length d - p" using False p by (cases got) auto
    then have "\<exists>s''. read_to_end rd bs (Suc i) s' (acc @ got)
        = Some (s'', Inr ((acc @ got) @ drop (p + length got) d)) \<and> at d (max (p + length got) (length d)) s''"
      using less.hyps at' by blast
    moreover have "got @ drop (p + length got) d = drop p d"
      by (subst got(1)) (rule take_drop_split)
    moreover have "max (p + length got) (length d) = max p (length d)" using len p by simp
    ultimately show ?thesis by auto
  qed
qed

end

section \<open>Layout lemmas\<close>

lemma layout_offset:
  "layout_from n cs \<Longrightarrow> i < length cs \<Longrightarrow> unat (cr_offset (cs ! i)) = n + refs_length (take i cs)"
proof (induction cs arbitrary: n i)
  case (Cons c cs)
  then show ?case by (cases i) auto
qed simp

lemma layout_nonempty: "layout_from n cs \<Longrightarrow> c \<in> set cs \<Longrightarrow> 0 < unat (cr_length c)"
  by (induction cs arbitrary: n) auto

lemma refs_length_take_Suc:
  "i < length cs \<Longrightarrow> refs_length (take (Suc i) cs) = refs_length (take i cs) + unat (cr_length (cs ! i))"
  by (simp add: take_Suc_conv_app_nth)

lemma refs_length_take_mono: "i \<le> j \<Longrightarrow> refs_length (take i cs) \<le> refs_length (take j cs)"
  by (metis le_add1 le_add_diff_inverse refs_length_simps(3) take_add)

lemma refs_length_split: "refs_length (take i cs) + refs_length (drop i cs) = refs_length cs"
  by (metis append_take_drop_id refs_length_simps(3))

text \<open>The word comparison of a chunk with a position, as an inequality of numbers.\<close>

lemma chunk_cmp_nat:
  assumes "wf_manifest m" and "i < length (chunks m)"
  shows "chunk_cmp t (chunks m ! i) =
    (if refs_length (take (Suc i) (chunks m)) \<le> unat t then Less
     else if unat t < refs_length (take i (chunks m)) then Greater else Equal)"
proof -
  let ?c = "chunks m ! i"
  have off: "unat (cr_offset ?c) = refs_length (take i (chunks m))"
    using layout_offset [of 0 "chunks m" i] assms by (simp add: wf_manifest_def)
  have "refs_length (take (Suc i) (chunks m)) \<le> refs_length (chunks m)"
    using refs_length_split [of "Suc i" "chunks m"] by simp
  also have "\<dots> = unat (total_size m)" using assms by (simp add: wf_manifest_def)
  also have "\<dots> < 2 ^ 64" by (rule u64_bound)
  finally have "unat (cr_offset ?c) + unat (cr_length ?c) < 2 ^ 64"
    using off assms(2) by (simp add: refs_length_take_Suc)
  then have "unat (cr_offset ?c + ucast (cr_length ?c)) = refs_length (take (Suc i) (chunks m))"
    using off assms(2) by (subst unat_add_no_wrap) (simp_all add: refs_length_take_Suc)
  then show ?thesis using off by (simp add: chunk_cmp_def word_le_nat_alt word_less_nat_alt)
qed

lemma chunk_cmp_sorted:
  assumes "wf_manifest m"
  shows "cmp_sorted (chunk_cmp t) (chunks m)"
proof -
  have "chunk_cmp t (chunks m ! i) \<le> chunk_cmp t (chunks m ! j)"
    if "i \<le> j" and "j < length (chunks m)" for i j
  proof -
    have "refs_length (take i (chunks m)) \<le> refs_length (take j (chunks m))"
      and "refs_length (take (Suc i) (chunks m)) \<le> refs_length (take (Suc j) (chunks m))"
      using that by (auto intro: refs_length_take_mono)
    then show ?thesis
      using that by (simp add: chunk_cmp_nat [OF assms])
  qed
  then show ?thesis by (simp add: cmp_sorted_def sorted_iff_nth_mono)
qed

lemma chunk_containing:
  "t < refs_length cs \<Longrightarrow> \<exists>i < length cs. refs_length (take i cs) \<le> t \<and> t < refs_length (take (Suc i) cs)"
proof (induction cs arbitrary: t)
  case (Cons c cs)
  show ?case
  proof (cases "t < unat (cr_length c)")
    case True
    then show ?thesis by (intro exI [of _ 0]) simp
  next
    case False
    then have "t - unat (cr_length c) < refs_length cs" using Cons.prems by simp
    then obtain i where "i < length cs" "refs_length (take i cs) \<le> t - unat (cr_length c)"
      "t - unat (cr_length c) < refs_length (take (Suc i) cs)"
      using Cons.IH by blast
    then show ?thesis using False by (intro exI [of _ "Suc i"]) auto
  qed
qed simp

text \<open>Every position inside the file is found, in the chunk that holds it.\<close>

lemma chunk_search:
  assumes wf: "wf_manifest m" and t: "t < total_size m"
  obtains i where "binary_search_by (chunk_cmp t) (chunks m) = Inr i" and "i < length (chunks m)"
    and "refs_length (take i (chunks m)) \<le> unat t" and "unat t < refs_length (take (Suc i) (chunks m))"
    and "unat (cr_offset (chunks m ! i)) = refs_length (take i (chunks m))"
proof -
  have "unat t < refs_length (chunks m)"
    using wf t by (simp add: wf_manifest_def word_less_nat_alt)
  then obtain k where k: "k < length (chunks m)" "refs_length (take k (chunks m)) \<le> unat t"
      "unat t < refs_length (take (Suc k) (chunks m))"
    using chunk_containing by blast
  then have "chunk_cmp t (chunks m ! k) = Equal" by (simp add: chunk_cmp_nat [OF wf])
  then obtain i where i: "binary_search_by (chunk_cmp t) (chunks m) = Inr i"
    using binary_search_by_finds [OF chunk_cmp_sorted [OF wf] k(1)] by blast
  then have len: "i < length (chunks m)" and eq: "chunk_cmp t (chunks m ! i) = Equal"
    using binary_search_by_Ok by blast+
  have "unat (cr_offset (chunks m ! i)) = refs_length (take i (chunks m))"
    using layout_offset [of 0 "chunks m" i] wf len by (simp add: wf_manifest_def)
  with i len eq show thesis
    by (intro that) (auto simp: chunk_cmp_nat [OF wf] split: if_splits)
qed

section \<open>The reader refines a position in the file's bytes\<close>

definition view_of :: "(hash \<Rightarrow> io_error + bytes) \<Rightarrow> hash \<Rightarrow> bytes option" where
  "view_of gt h = (case gt h of Inl _ \<Rightarrow> None | Inr b \<Rightarrow> Some b)"

lemma view_of_get: "flt BlobRead = None \<Longrightarrow> view_of (get B flt d) = blobs_of B d"
  by (auto simp: fun_eq_iff view_of_def get_eq split: sum.splits)
    (metis (no_types, lifting) get_eq Inl_Inr_False not_None_eq)+

lemma view_of_Some: "view_of gt h = Some b \<longleftrightarrow> gt h = Inr b"
  by (auto simp: view_of_def split: sum.splits)

text \<open>
  \<open>mr_at gt d p r\<close>: the reader's manifest stands for \<open>d\<close>, the reader is at \<open>p\<close>, and
  what is left of its chunk followed by the chunks not yet loaded is \<open>d\<close> from \<open>p\<close> on.
\<close>

definition mr_at :: "(hash \<Rightarrow> io_error + bytes) \<Rightarrow> bytes \<Rightarrow> nat \<Rightarrow> mreader \<Rightarrow> bool" where
  "mr_at gt d p r \<longleftrightarrow>
     manifest_content (view_of gt) (mr_manifest r) = Some d \<and>
     next_index r \<le> length (chunks (mr_manifest r)) \<and>
     unat (base r) + unat (cur_pos (current r)) = p \<and> p < 2 ^ 64 \<and>
     (\<exists>rest. content_of (view_of gt) (drop (next_index r) (chunks (mr_manifest r))) = Some rest \<and>
        drop (unat (cur_pos (current r))) (cur_data (current r)) @ rest = drop p d)"

lemma mr_at_new:
  "manifest_content (view_of gt) m = Some d \<Longrightarrow> mr_at gt d 0 (mr_new m)"
  by (auto simp: mr_at_def mr_new_def cursor_new_def manifest_content_def split: if_splits)

lemma content_wf: "manifest_content v m = Some d \<Longrightarrow> wf_manifest m \<and> content_of v (chunks m) = Some d"
  by (auto simp: manifest_content_def split: if_splits)

lemma content_small: "manifest_content v m = Some d \<Longrightarrow> length d < 2 ^ 64"
  using manifest_content_length u64_bound by metis

lemma content_of_take_drop:
  assumes "content_of v cs = Some d"
  shows "content_of v (take i cs) = Some (take (refs_length (take i cs)) d)"
    and "content_of v (drop i cs) = Some (drop (refs_length (take i cs)) d)"
proof -
  obtain a b where ab: "content_of v (take i cs) = Some a" "content_of v (drop i cs) = Some b" "d = a @ b"
    using content_of_append [of v "take i cs" "drop i cs"] assms
    by (cases "content_of v (take i cs)"; cases "content_of v (drop i cs)") auto
  moreover have "length a = refs_length (take i cs)" using content_of_length [OF ab(1)] .
  ultimately show "content_of v (take i cs) = Some (take (refs_length (take i cs)) d)"
    and "content_of v (drop i cs) = Some (drop (refs_length (take i cs)) d)" by auto
qed

text \<open>The chunk at index \<open>i\<close>: its blob is the slice of \<open>d\<close> its reference names.\<close>

lemma content_chunk:
  assumes "manifest_content (view_of gt) m = Some d" and "i < length (chunks m)"
  obtains b where "gt (cr_hash (chunks m ! i)) = Inr b" and "length b = unat (cr_length (chunks m ! i))"
    and "b @ drop (refs_length (take (Suc i) (chunks m))) d = drop (refs_length (take i (chunks m))) d"
    and "0 < length b"
    and "unat (cr_offset (chunks m ! i)) = refs_length (take i (chunks m))"
    and "content_of (view_of gt) (drop (Suc i) (chunks m)) = Some (drop (refs_length (take (Suc i) (chunks m))) d)"
proof -
  have wf: "wf_manifest m" and c: "content_of (view_of gt) (chunks m) = Some d"
    using content_wf [OF assms(1)] by auto
  have nxt: "content_of (view_of gt) (drop (Suc i) (chunks m)) = Some (drop (refs_length (take (Suc i) (chunks m))) d)"
    by (rule content_of_take_drop(2) [OF c])
  have "content_of (view_of gt) (chunks m ! i # drop (Suc i) (chunks m))
      = Some (drop (refs_length (take i (chunks m))) d)"
    using content_of_take_drop(2) [OF c, of i] assms(2) by (simp add: Cons_nth_drop_Suc)
  then obtain b where "view_of gt (cr_hash (chunks m ! i)) = Some b"
      and len: "length b = unat (cr_length (chunks m ! i))"
      and "b @ drop (refs_length (take (Suc i) (chunks m))) d = drop (refs_length (take i (chunks m))) d"
    using nxt by (auto split: option.splits if_splits)
  moreover have "0 < length b"
    using len layout_nonempty [of 0 "chunks m" "chunks m ! i"] wf assms(2) by (simp add: wf_manifest_def)
  moreover have "unat (cr_offset (chunks m ! i)) = refs_length (take i (chunks m))"
    using layout_offset [of 0 "chunks m" i] wf assms(2) by (simp add: wf_manifest_def)
  ultimately show thesis using that nxt by (simp add: view_of_Some)
qed

text \<open>One \<open>read\<close>: the cursor's bytes if it has any, else those of the next chunk.\<close>

lemma cursor_read_eq:
  "cursor_read n c = (take n (drop (unat (cur_pos c)) (cur_data c)),
     c\<lparr>cur_pos := cur_pos c + of_nat (length (take n (drop (unat (cur_pos c)) (cur_data c))))\<rparr>)"
  by (simp add: cursor_read_def Let_def)

lemma mr_at_advance:
  assumes at: "mr_at gt d p r" and k: "k \<le> length (drop (unat (cur_pos (current r))) (cur_data (current r)))"
  shows "mr_at gt d (p + k) (r\<lparr>current := (current r)\<lparr>cur_pos := cur_pos (current r) + of_nat k\<rparr>\<rparr>)"
    and "take k (drop (unat (cur_pos (current r))) (cur_data (current r))) = take k (drop p d)"
    and "k \<le> length (drop p d)"
proof -
  let ?c = "current r"
  let ?left = "drop (unat (cur_pos ?c)) (cur_data ?c)"
  obtain rest where rest: "content_of (view_of gt) (drop (next_index r) (chunks (mr_manifest r))) = Some rest"
    and eq: "?left @ rest = drop p d"
    using at by (auto simp: mr_at_def)
  have "length ?left + length rest = length d - p" using arg_cong [OF eq, of length] by simp
  then have klen: "k \<le> length d - p" using k by linarith
  then show "k \<le> length (drop p d)" by simp
  show "take k ?left = take k (drop p d)" using k by (simp flip: eq)
  show "mr_at gt d (p + k) (r\<lparr>current := ?c\<lparr>cur_pos := cur_pos ?c + of_nat k\<rparr>\<rparr>)"
  proof (cases "k = 0")
    case True
    then show ?thesis using at by (simp add: mr_at_def)
  next
    case False
    have "p + k \<le> length d" using klen False by linarith
    also have "length d < 2 ^ 64" using at content_small by (auto simp: mr_at_def)
    finally have small: "p + k < 2 ^ 64" .
    have pos: "unat (base r) + unat (cur_pos ?c) = p" using at by (simp add: mr_at_def)
    have "k < 2 ^ 64" using small by simp
    then have kk: "unat (of_nat k :: u64) = k" by (simp add: unat_of_nat_small)
    then have pos': "unat (cur_pos ?c + of_nat k) = unat (cur_pos ?c) + k"
      using small pos by (subst unat_add_no_wrap) simp_all
    have "drop k ?left @ rest = drop (p + k) d"
      using k arg_cong [OF eq, of "drop k"] by (simp add: add.commute)
    then show ?thesis using at rest pos pos' small by (simp add: mr_at_def add.commute add.left_commute)
  qed
qed

lemma drop_eq_pos: "drop a d = drop p d \<Longrightarrow> drop a d \<noteq> [] \<Longrightarrow> a = p"
proof -
  assume same: "drop a d = drop p d" and ne: "drop a d \<noteq> []"
  from ne have "a < length d" by simp
  moreover have "length d - a = length d - p"
    using arg_cong [OF same, of length] by (simp only: length_drop)
  ultimately show "a = p" by arith
qed

lemma mr_at_load:
  assumes at: "mr_at gt d p r" and i: "next_index r < length (chunks (mr_manifest r))"
    and empty: "drop (unat (cur_pos (current r))) (cur_data (current r)) = []"
  obtains b where "gt (cr_hash (chunks (mr_manifest r) ! next_index r)) = Inr b" and "b \<noteq> []"
    and "mr_at gt d p (r\<lparr>current := cursor_new b,
      base := cr_offset (chunks (mr_manifest r) ! next_index r), next_index := next_index r + 1\<rparr>)"
proof -
  let ?m = "mr_manifest r" and ?i = "next_index r"
  have c: "manifest_content (view_of gt) ?m = Some d" and "p < 2 ^ 64"
    using at by (simp_all add: mr_at_def)
  obtain b where b: "gt (cr_hash (chunks ?m ! ?i)) = Inr b" "0 < length b"
    and join: "b @ drop (refs_length (take (Suc ?i) (chunks ?m))) d = drop (refs_length (take ?i (chunks ?m))) d"
    and off: "unat (cr_offset (chunks ?m ! ?i)) = refs_length (take ?i (chunks ?m))"
    and nxt: "content_of (view_of gt) (drop (Suc ?i) (chunks ?m)) = Some (drop (refs_length (take (Suc ?i) (chunks ?m))) d)"
    using content_chunk [OF c i] by metis
  have "content_of (view_of gt) (drop ?i (chunks ?m)) = Some (drop (refs_length (take ?i (chunks ?m))) d)"
    using content_wf [OF c] content_of_take_drop(2) by blast
  then have same: "drop (refs_length (take ?i (chunks ?m))) d = drop p d"
    using at empty by (auto simp: mr_at_def)
  moreover have "drop (refs_length (take ?i (chunks ?m))) d \<noteq> []" using join b(2) by (metis append_is_Nil_conv length_greater_0_conv)
  ultimately have "refs_length (take ?i (chunks ?m)) = p"
    using drop_eq_pos by blast
  then have "mr_at gt d p (r\<lparr>current := cursor_new b, base := cr_offset (chunks ?m ! ?i), next_index := ?i + 1\<rparr>)"
    using c i join nxt off \<open>p < 2 ^ 64\<close> by (simp add: mr_at_def cursor_new_def)
  then show thesis using that b by simp
qed

lemma mr_read_loop_at:
  assumes "mr_at gt d p r" and "0 < n"
  shows "\<exists>r' got. mr_read_loop gt n r = (r', Inr got) \<and> mr_at gt d (p + length got) r' \<and> length got \<le> n
        \<and> got = take (length got) (drop p d) \<and> (got = [] \<longleftrightarrow> length d \<le> p)"
  using assms
proof (induction gt n r rule: mr_read_loop.induct)
  case (1 gt n r)
  let ?left = "drop (unat (cur_pos (current r))) (cur_data (current r))"
  obtain got where got_def: "got = take n ?left" by blast
  let ?c = "(current r)\<lparr>cur_pos := cur_pos (current r) + of_nat (length got)\<rparr>"
  have rd: "cursor_read n (current r) = (got, ?c)" by (simp add: cursor_read_eq got_def)
  have n: "length got \<le> n" by (simp add: got_def)
  have fits: "length got \<le> length ?left" by (simp add: got_def)
  have tk: "take (length got) ?left = got" unfolding got_def by (rule take_length_take)
  note adv = mr_at_advance [OF "1.prems"(1) fits]
  have got: "got = take (length got) (drop p d)" using adv(2) tk by simp
  show ?case
  proof (cases "got = []")
    case False
    then have "\<not> length d \<le> p" using adv(3) by (cases got) auto
    moreover have "mr_read_loop gt n r = (r\<lparr>current := ?c\<rparr>, Inr got)"
      using False by (subst mr_read_loop.simps) (simp add: rd)
    ultimately show ?thesis using False adv(1) got n by blast
  next
    case True
    then have empty: "?left = []" using "1.prems"(2) by (simp add: got_def)
    show ?thesis
    proof (cases "next_index r < length (chunks (mr_manifest r))")
      case more: True
      obtain b where b: "gt (cr_hash (chunks (mr_manifest r) ! next_index r)) = Inr b"
        and at': "mr_at gt d p (r\<lparr>current := cursor_new b,
          base := cr_offset (chunks (mr_manifest r) ! next_index r), next_index := next_index r + 1\<rparr>)"
        using mr_at_load [OF "1.prems"(1) more empty] by blast
      have "mr_read_loop gt n r = mr_read_loop gt n (r\<lparr>current := cursor_new b,
          base := cr_offset (chunks (mr_manifest r) ! next_index r), next_index := next_index r + 1\<rparr>)"
        using True more b by (subst mr_read_loop.simps) (simp add: rd)
      then show ?thesis
        using "1.IH" [OF rd [symmetric] refl refl _ more refl b at' "1.prems"(2)] True by simp
    next
      case False
      then have "drop p d = []" using "1.prems"(1) empty by (auto simp: mr_at_def)
      moreover have "mr_read_loop gt n r = (r\<lparr>current := ?c\<rparr>, Inr [])"
        using True False by (subst mr_read_loop.simps) (simp add: rd)
      ultimately show ?thesis using True adv(1) by simp
    qed
  qed
qed

lemma mr_read_at:
  assumes "mr_at gt d p r" and "0 < n"
  shows "\<exists>r' got. mr_read gt n r = (r', Inr got) \<and> mr_at gt d (p + length got) r' \<and> length got \<le> n
        \<and> got = take (length got) (drop p d) \<and> (got = [] \<longleftrightarrow> length d \<le> p)"
  using mr_read_loop_at [OF assms] assms(2) by (simp add: mr_read_def)

interpretation mr: byte_reader "mr_read gt" "mr_at gt" for gt :: "hash \<Rightarrow> io_error + bytes"
  by unfold_locales (rule mr_read_at)

text \<open>Reading a fresh reader to the end gives exactly the file's bytes.\<close>

lemma read_manifest_to_end:
  assumes "manifest_content (view_of gt) m = Some d"
  shows "\<exists>r'. read_to_end (mr_read gt) bs i (mr_new m) [] = Some (r', Inr d)"
  using mr.read_to_end_total [OF mr_at_new [OF assms], of bs i "[]"] by auto

section \<open>Seeking\<close>

definition seek_target :: "mreader \<Rightarrow> seek_from \<Rightarrow> int" where
  "seek_target r pos =
     (case pos of SeekStart n \<Rightarrow> uint n
      | SeekCurrent k \<Rightarrow> uint (mr_position r) + k
      | SeekEnd k \<Rightarrow> uint (total_size (mr_manifest r)) + k)"

lemma mr_seek_negative: "seek_target r pos < 0 \<Longrightarrow> mr_seek gt r pos = (r, Inl IoInvalidInput)"
  by (simp add: mr_seek_def seek_target_def)

text \<open>
  Any other seek succeeds on a readable file, at the low 64 bits of the target: the cast
  \<open>target as u64\<close> wraps a target of \<open>2^64\<close> or more.
\<close>

lemma mr_seek_at:
  assumes at: "mr_at gt d p r" and pos: "0 \<le> seek_target r pos"
  shows "\<exists>r'. mr_seek gt r pos = (r', Inr (as_u64 (seek_target r pos)))
    \<and> mr_at gt d (unat (as_u64 (seek_target r pos))) r'"
proof -
  let ?m = "mr_manifest r" and ?t = "as_u64 (seek_target r pos)"
  have c: "manifest_content (view_of gt) ?m = Some d" using at by (simp add: mr_at_def)
  have wf: "wf_manifest ?m" using content_wf [OF c] by blast
  have len: "length d = unat (total_size ?m)" by (rule manifest_content_length [OF c])
  show ?thesis
  proof (cases "total_size ?m \<le> ?t")
    case True
    then have "length d \<le> unat ?t" using len by (simp add: word_le_nat_alt)
    then have "mr_at gt d (unat ?t)
        (r\<lparr>next_index := length (chunks ?m), current := cursor_new [], base := ?t\<rparr>)"
      using c u64_bound [of ?t] by (simp add: mr_at_def cursor_new_def)
    then show ?thesis using True pos by (simp add: mr_seek_def Let_def flip: seek_target_def)
  next
    case False
    then have t: "?t < total_size ?m" by simp
    obtain i where i: "binary_search_by (chunk_cmp ?t) (chunks ?m) = Inr i" "i < length (chunks ?m)"
      and lo: "refs_length (take i (chunks ?m)) \<le> unat ?t"
      and hi: "unat ?t < refs_length (take (Suc i) (chunks ?m))"
      and off: "unat (cr_offset (chunks ?m ! i)) = refs_length (take i (chunks ?m))"
      using chunk_search [OF wf t] .
    obtain b where b: "gt (cr_hash (chunks ?m ! i)) = Inr b"
      and blen: "length b = unat (cr_length (chunks ?m ! i))"
      and join: "b @ drop (refs_length (take (Suc i) (chunks ?m))) d = drop (refs_length (take i (chunks ?m))) d"
      and nxt: "content_of (view_of gt) (drop (Suc i) (chunks ?m)) = Some (drop (refs_length (take (Suc i) (chunks ?m))) d)"
      using content_chunk [OF c i(2)] by metis
    have cp: "unat (?t - cr_offset (chunks ?m ! i)) = unat ?t - refs_length (take i (chunks ?m))"
      using lo off by (subst unat_sub) (simp_all add: word_le_nat_alt)
    let ?k = "unat ?t - refs_length (take i (chunks ?m))"
    have "?k \<le> length b" using hi i(2) blen by (simp add: refs_length_take_Suc)
    then have "drop ?k b @ drop (refs_length (take (Suc i) (chunks ?m))) d = drop (unat ?t) d"
      using arg_cong [OF join, of "drop ?k"] lo by simp
    then have "mr_at gt d (unat ?t) (r\<lparr>current := \<lparr>cur_data = b, cur_pos = ?t - cr_offset (chunks ?m ! i)\<rparr>,
        base := cr_offset (chunks ?m ! i), next_index := i + 1\<rparr>)"
      using c i(2) off lo cp nxt u64_bound [of ?t] by (simp add: mr_at_def)
    then show ?thesis using False pos i b by (simp add: mr_seek_def Let_def flip: seek_target_def)
  qed
qed

text \<open>The position a seek names, in terms of the file's bytes \<open>d\<close> and the position \<open>p\<close>.\<close>

fun seek_goal :: "bytes \<Rightarrow> nat \<Rightarrow> seek_from \<Rightarrow> int" where
  "seek_goal d p (SeekStart n) = uint n"
| "seek_goal d p (SeekCurrent k) = int p + k"
| "seek_goal d p (SeekEnd k) = int (length d) + k"

lemma seek_target_goal:
  assumes "mr_at gt d p r"
  shows "seek_target r pos = seek_goal d p pos"
proof -
  have sum: "unat (base r) + unat (cur_pos (current r)) = p" and small: "p < 2 ^ 64"
    and c: "manifest_content (view_of gt) (mr_manifest r) = Some d"
    using assms by (simp_all add: mr_at_def)
  have "unat (mr_position r) = p"
    unfolding mr_position_def using sum small by (subst unat_add_no_wrap) simp_all
  then have "uint (mr_position r) = int p" by (simp only: uint_nat)
  moreover have "uint (total_size (mr_manifest r)) = int (length d)"
    using manifest_content_length [OF c] by (simp only: uint_nat)
  ultimately show ?thesis by (cases pos) (simp_all add: seek_target_def)
qed

section \<open>The stream yields the file chunk by chunk\<close>

fun stream_run :: "(hash \<Rightarrow> io_error + bytes) \<Rightarrow> nat \<Rightarrow> chunk_stream \<Rightarrow> (io_error + bytes) list" where
  "stream_run gt 0 s = []"
| "stream_run gt (Suc n) s =
     (case next_chunk gt s of (s', None) \<Rightarrow> [] | (s', Some r) \<Rightarrow> r # stream_run gt n s')"

lemma stream_run_eq:
  assumes "length (chunks m) - i < n"
  shows "stream_run gt n \<lparr>cs_manifest = m, cs_next = i\<rparr> = map (\<lambda>c. gt (cr_hash c)) (drop i (chunks m))"
  using assms
proof (induction n arbitrary: i)
  case (Suc n)
  then show ?case
    by (cases "i < length (chunks m)")
      (simp_all add: next_chunk_def Cons_nth_drop_Suc [symmetric])
qed simp

lemma content_of_chunks:
  "content_of (view_of gt) cs = Some d \<Longrightarrow>
     \<exists>bs. map (\<lambda>c. gt (cr_hash c)) cs = map Inr bs \<and> concat bs = d"
proof (induction cs arbitrary: d)
  case (Cons c cs)
  then obtain b d' where "gt (cr_hash c) = Inr b" "content_of (view_of gt) cs = Some d'" "d = b @ d'"
    by (auto simp: view_of_Some split: option.splits if_splits)
  moreover from this Cons.IH obtain bs where "map (\<lambda>c. gt (cr_hash c)) cs = map Inr bs" "concat bs = d'"
    by blast
  ultimately show ?case by (intro exI [of _ "b # bs"]) simp
qed simp

end
