(* ===== verification/Sample_Env.thy ===== *)
theory Sample_Env
  imports Chunker Blob_Hash
begin

text \<open>
  Concrete instances of the third-party crates, on which the properties' hypotheses are
  shown to hold: a hex codec of 256-bit words, a hash that is injective on short byte
  strings, and a fixed-size chunker. They stand for nothing in the repository; they show
  that \<open>blake3_ok\<close> and \<open>fastcdc_ok\<close> can be met and let the witnesses compute.
\<close>

section \<open>A hex codec\<close>

definition hex_alphabet :: string where
  "hex_alphabet = ''0123456789abcdef''"

fun hex_digits :: "nat \<Rightarrow> nat \<Rightarrow> string" where
  "hex_digits 0 n = []"
| "hex_digits (Suc k) n = hex_digits k (n div 16) @ [hex_alphabet ! (n mod 16)]"

fun index_of :: "'a \<Rightarrow> 'a list \<Rightarrow> nat option" where
  "index_of x [] = None"
| "index_of x (y # ys) = (if x = y then Some 0 else map_option Suc (index_of x ys))"

definition hex_value :: "string \<Rightarrow> nat option" where
  "hex_value s = foldl (\<lambda>acc c. case acc of None \<Rightarrow> None | Some a \<Rightarrow>
     map_option (\<lambda>v. a * 16 + v) (index_of c hex_alphabet)) (Some 0) s"

lemma length_hex_digits [simp]: "length (hex_digits k n) = k"
  by (induction k arbitrary: n) simp_all

lemma index_of_nth: "distinct xs \<Longrightarrow> i < length xs \<Longrightarrow> index_of (xs ! i) xs = Some i"
  by (induction xs arbitrary: i) (auto simp: nth_Cons split: nat.splits)

lemma hex_alphabet_props: "distinct hex_alphabet" "length hex_alphabet = 16"
  by (simp_all add: hex_alphabet_def)

lemma index_of_digit: "v < 16 \<Longrightarrow> index_of (hex_alphabet ! v) hex_alphabet = Some v"
  by (intro index_of_nth) (simp_all add: hex_alphabet_props)

lemma hex_value_snoc:
  "hex_value (s @ [c]) = (case hex_value s of None \<Rightarrow> None | Some a \<Rightarrow>
     map_option (\<lambda>v. a * 16 + v) (index_of c hex_alphabet))"
  by (simp add: hex_value_def)

lemma hex_value_digits: "hex_value (hex_digits k n) = Some (n mod 16 ^ k)"
proof (induction k arbitrary: n)
  case 0
  then show ?case by (simp add: hex_value_def)
next
  case (Suc k)
  have "n div 16 mod 16 ^ k * 16 + n mod 16 = n mod 16 ^ Suc k"
    by (simp add: mod_mult2_eq)
  then show ?case using Suc by (simp add: hex_value_snoc index_of_digit)
qed

lemma hex_digits_lower: "list_all is_hex_digit (hex_digits k n)"
proof (induction k arbitrary: n)
  case (Suc k)
  have "hex_alphabet ! (n mod 16) \<in> set hex_alphabet"
    by (rule nth_mem) (simp add: hex_alphabet_props)
  then show ?case using Suc by (simp add: is_hex_digit_def hex_alphabet_def)
qed simp

definition sample_number :: "bytes \<Rightarrow> nat" where
  "sample_number d = foldl (\<lambda>a c. a * 256 + of_char c) 1 d"

definition sample_hash :: "bytes \<Rightarrow> 256 word" where
  "sample_hash d = of_nat (sample_number d)"

definition sample_blake3 :: blake3_lib where
  "sample_blake3 =
     \<lparr>b3_hash = sample_hash,
      b3_hash_updates = (\<lambda>ds. sample_hash (concat ds)),
      b3_to_hex = (\<lambda>w. hex_digits 64 (unat w)),
      b3_from_hex = (\<lambda>s. map_option of_nat (hex_value s))\<rparr>"

lemma sample_blake3_ok: "blake3_ok sample_blake3"
proof -
  have "hex_value (hex_digits 64 (unat w)) = Some (unat w)" for w :: "256 word"
    using unat_bound [of w] by (simp add: hex_value_digits)
  then show ?thesis
    by (simp add: blake3_ok_def sample_blake3_def hex_digits_lower)
qed

text \<open>On byte strings of at most 31 bytes the sample hash is injective.\<close>

lemma sample_number_simps [simp]:
  "sample_number [] = 1"
  "sample_number (d @ [c]) = sample_number d * 256 + of_char c"
  by (simp_all add: sample_number_def)

lemma sample_number_pos: "0 < sample_number d"
  by (induction d rule: rev_induct) auto

lemma sample_number_inj: "sample_number d = sample_number e \<Longrightarrow> d = e"
proof (induction d arbitrary: e rule: rev_induct)
  case Nil
  have "sample_number (e' @ [c]) \<noteq> 1" for e' c
    using sample_number_pos [of e'] by simp
  then show ?case using Nil by (metis rev_exhaust sample_number_simps(1))
next
  case (snoc c d)
  show ?case
  proof (cases e rule: rev_exhaust)
    case Nil
    then show ?thesis using snoc.prems sample_number_pos [of d] by simp
  next
    case (snoc e' c')
    have eq: "sample_number d * 256 + of_char c = sample_number e' * 256 + of_char c'"
      using snoc.prems snoc by simp
    have lt: "of_char c < (256::nat)" "of_char c' < (256::nat)" by simp_all
    have "sample_number d = sample_number e'" using arg_cong [OF eq, of "\<lambda>x. x div 256"] lt by simp
    moreover have "of_char c = (of_char c' :: nat)"
      using arg_cong [OF eq, of "\<lambda>x. x mod 256"] lt by simp
    ultimately show ?thesis using snoc.IH snoc by simp
  qed
qed

lemma sample_number_bound: "sample_number d < 2 * 256 ^ length d"
proof (induction d rule: rev_induct)
  case (snoc c d)
  have "Suc (sample_number d) \<le> 2 * 256 ^ length d" using snoc by simp
  then have le: "Suc (sample_number d) * 256 \<le> 2 * 256 ^ length d * 256" by (rule mult_le_mono1)
  have "sample_number (d @ [c]) < Suc (sample_number d) * 256" by simp
  also note le
  finally show ?case by simp
qed simp

lemma sample_collision_free:
  assumes "\<And>d. d \<in> D \<Longrightarrow> length d \<le> 31"
  shows "collision_free sample_blake3 D"
  unfolding collision_free_def
proof (rule inj_onI)
  fix d e assume de: "d \<in> D" "e \<in> D" and eq: "hash_of sample_blake3 d = hash_of sample_blake3 e"
  have small: "sample_number x < 2 ^ 256" if "x \<in> D" for x
  proof -
    have "(256::nat) ^ length x \<le> 256 ^ 31" using assms [OF that] by (intro power_increasing) simp_all
    then have "2 * (256::nat) ^ length x < 2 ^ 256" by simp
    then show ?thesis using sample_number_bound [of x] by simp
  qed
  have unat: "unat (sample_hash x) = sample_number x" if "x \<in> D" for x
    using small [OF that] unat_of_nat_small [of "sample_number x", where 'a = 256]
    by (simp add: sample_hash_def)
  have "sample_hash d = sample_hash e"
    using eq by (simp add: hash_of_def sample_blake3_def)
  then have "sample_number d = sample_number e" using unat de by metis
  then show "d = e" by (rule sample_number_inj)
qed

section \<open>A fixed-size chunker\<close>

function cut_every :: "nat \<Rightarrow> nat \<Rightarrow> bytes \<Rightarrow> cdc_data list" where
  "cut_every k n d =
     (if d = [] \<or> k = 0 then []
      else let b = take k d
           in \<lparr>cd_offset = of_nat n, cd_length = length b, cd_data = b\<rparr> # cut_every k (n + length b) (drop k d))"
  by pat_completeness auto
termination
  by (relation "measure (\<lambda>(k, n, d). length d)") auto

declare cut_every.simps [simp del]

definition sample_fastcdc :: fastcdc_lib where
  "sample_fastcdc =
     \<lparr>minimum_min = 1, minimum_max = 1048576, average_min = 1, average_max = 4194304,
      maximum_min = 1, maximum_max = 16777216,
      stream_cdc = (\<lambda>mn av mx r. map Inr (cut_every (unat av) 0 (rd_bytes r))
        @ (case rd_err r of None \<Rightarrow> [] | Some e \<Rightarrow> [Inl e]))\<rparr>"

lemma cut_every_cut:
  "0 < k \<Longrightarrow> k \<le> unat mx \<Longrightarrow> cdc_cut mx n d (cut_every k n d)"
proof (induction k n d rule: cut_every.induct)
  case (1 k n d)
  show ?case
  proof (cases "d = []")
    case True
    then show ?thesis by (simp add: cut_every.simps [of k n "[]"])
  next
    case False
    then have IH: "cdc_cut mx (n + length (take k d)) (drop k d) (cut_every k (n + length (take k d)) (drop k d))"
      using "1.IH" "1.prems" by simp
    have "drop (min (length d) k) d = drop k d" "take (min (length d) k) d = take k d"
      by (simp_all add: min_def)
    moreover have "min (length d) k \<le> unat mx" using "1.prems" by simp
    ultimately show ?thesis using False IH "1.prems"
      by (simp add: cut_every.simps [of k n d] Let_def)
  qed
qed

lemma sample_fastcdc_ok: "fastcdc_ok sample_fastcdc"
proof -
  have "cdc_cut mx 0 d (cut_every (unat av) 0 d)"
    if "config_new sample_fastcdc mn av mx = Inr cfg" for mn av mx cfg d
  proof (rule cut_every_cut)
    have "1 \<le> av" "av \<le> mx" using that by (auto simp: config_new_eq_Inr sample_fastcdc_def)
    then show "0 < unat av" "unat av \<le> unat mx" by (simp_all add: word_le_nat_alt)
  qed
  then show ?thesis
    by (auto simp: fastcdc_ok_def sample_fastcdc_def reader_of_def)
qed

lemma sample_fastcdc_limits: "fastcdc_limits_ok sample_fastcdc"
  by (simp add: fastcdc_limits_ok_def sample_fastcdc_def DEFAULT_MIN_SIZE_def DEFAULT_AVG_SIZE_def
      DEFAULT_MAX_SIZE_def MEDIA_MIN_SIZE_def MEDIA_AVG_SIZE_def MEDIA_MAX_SIZE_def)

text \<open>A configuration that cuts every two bytes.\<close>

definition sample_config :: chunker_config where
  "sample_config = \<lparr>min_size = 1, avg_size = 2, max_size = 4\<rparr>"

lemma sample_config_valid: "valid_config sample_fastcdc sample_config"
  by (simp add: valid_config_def sample_config_def config_new_eq_Inr sample_fastcdc_def)

end
