(* ===== verification/Storage_Properties.thy ===== *)
theory Storage_Properties
  imports Manifest_Reader Sample_Env
begin

text \<open>
  The properties of the storage crates (\<open>chunker\<close> and \<open>blobstore\<close>): the laws of the
  blob store's operations on every branch, and the round trip of a file through chunking,
  storage and the readers. Each has a witness on the instances of theory \<open>Sample_Env\<close>.
\<close>

section \<open>Lemmas the properties share\<close>

text \<open>What a sequence of \<open>read\<close> results delivers up to its end of file or first error.\<close>

fun delivered :: "read_event list \<Rightarrow> io_error + bytes" where
  "delivered [] = Inr []"
| "delivered (ReadOk b # evs) = (if b = [] then Inr [] else and_then (delivered evs) (\<lambda>d. Inr (b @ d)))"
| "delivered (ReadErr e # evs) = (if e = IoInterrupted then delivered evs else Inl e)"

lemma pump_delivered:
  "(case pump no_faults evs bufs of Inl e \<Rightarrow> Inl e | Inr bs \<Rightarrow> Inr (concat bs)) =
     and_then (delivered evs) (\<lambda>d. Inr (concat bufs @ d))"
proof (induction evs arbitrary: bufs)
  case (Cons ev evs)
  show ?case
  proof (cases ev)
    case (ReadOk b)
    then show ?thesis using Cons [of "bufs @ [b]"]
      by (cases "delivered evs") (simp_all add: no_faults_def)
  next
    case (ReadErr e)
    then show ?thesis using Cons [of bufs] by simp
  qed
qed simp

lemma commit_put:
  "commit B no_faults d data (hash_of B data) = put B no_faults d data"
  by (auto simp: put_def commit_def has_def no_faults_def Let_def)

lemma put_no_faults:
  assumes "\<And>x. map_of d (take 2 (to_hex B (hash_of B data))) \<noteq> Some (RootFile x)"
  shows "\<exists>d'. put B no_faults d data = (d', Inr (hash_of B data))"
proof -
  have "create_shard d (take 2 (to_hex B (hash_of B data))) \<noteq> None"
    using assms by (auto simp: create_shard_def split: option.splits root_entry.splits)
  then show ?thesis
    by (auto simp: put_def commit_def no_faults_def Let_def blob_path_def)
qed

lemma remove_absent:
  assumes "disk_ok B d" and "blobs_of B d h = None"
    and "\<And>x. map_of d (take 2 (to_hex B h)) \<noteq> Some (RootFile x)"
  shows "remove B no_faults d h = (d, Inr 0)"
proof -
  have "entry_at d (blob_path B h) = None"
    using path_exists_blob [OF assms(1), of h] assms(2) by (simp add: path_exists_def)
  moreover have "fst (blob_path B h) = take 2 (to_hex B h)" by (simp add: blob_path_def Let_def)
  ultimately show ?thesis using assms(3)
    by (auto simp: remove_def no_faults_def Let_def split: option.splits root_entry.splits)
qed

text \<open>No regular file of the root has the name of a shard (uploads in progress never do).\<close>

definition shards_free :: "blake3_lib \<Rightarrow> disk \<Rightarrow> bool" where
  "shards_free B d \<longleftrightarrow> (\<forall>h x. map_of d (take 2 (to_hex B h)) \<noteq> Some (RootFile x))"

lemma shards_free_update: "shards_free B d \<Longrightarrow> shards_free B (AList.update s (ShardDir es) d)"
  by (auto simp: shards_free_def update_conv')

lemma shards_free_put: "shards_free B d \<Longrightarrow> put B flt d data = (d', r) \<Longrightarrow> shards_free B d'"
  by (auto simp: put_def commit_def create_shard_def persist_def Let_def shards_free_update
      split: if_splits option.splits root_entry.splits)

lemma put_succeeds: "shards_free B d \<Longrightarrow> \<exists>d'. put B no_faults d data = (d', Inr (hash_of B data))"
  by (rule put_no_faults) (simp add: shards_free_def)

lemma store_loop_succeeds:
  "shards_free B d \<Longrightarrow> \<exists>d' m'. store_loop (put B no_faults) d (map Inr cks) m = (d', Inr m')"
proof (induction cks arbitrary: d m)
  case (Cons ck cks)
  obtain d1 where p: "put B no_faults d (ck_data ck) = (d1, Inr (hash_of B (ck_data ck)))"
    using put_succeeds Cons.prems by blast
  then show ?case using Cons.IH [OF shards_free_put [OF Cons.prems p]] by simp
qed simp

lemma store_file_succeeds:
  assumes "shards_free B d" and "fastcdc_ok F" and "valid_config F cfg"
  shows "\<exists>d' m. store_file B F no_faults d (reader_of data) cfg = (d', Inr m)"
proof -
  obtain cs where "chunk_reader F (reader_of data) cfg = map (\<lambda>c. Inr (chunk_of_cdc c)) cs"
    using chunk_reader_ok [OF assms(2,3)] by metis
  then have "chunk_reader F (reader_of data) cfg = map Inr (map chunk_of_cdc cs)" by (simp add: comp_def)
  then show ?thesis using store_loop_succeeds [OF assms(1)] by (simp only: store_file_def)
qed

text \<open>The byte strings that storing \<open>data\<close> may put beside the blobs of the disk.\<close>

definition slices :: "bytes \<Rightarrow> bytes set" where
  "slices data = {x. \<exists>i n. x = take n (drop i data)}"

lemma length_slices: "x \<in> slices data \<Longrightarrow> length x \<le> length data"
  by (auto simp: slices_def)

text \<open>The disk of the witnesses: one blob, the bytes \<open>hi\<close>.\<close>

definition sample_disk :: disk where
  "sample_disk = persist [] (blob_path sample_blake3 (hash_of sample_blake3 ''hi'')) ''hi''"

lemma sample_disk_ok: "disk_ok sample_blake3 sample_disk"
  by (simp add: sample_disk_def disk_ok_persist)

lemma sample_disk_blobs: "blobs_of sample_blake3 sample_disk = [hash_of sample_blake3 ''hi'' \<mapsto> ''hi'']"
proof -
  have "blobs_of sample_blake3 [] = Map.empty"
    by (simp add: fun_eq_iff blobs_of_def entry_at_def shard_of_def)
  then show ?thesis by (simp add: sample_disk_def blobs_of_persist [OF sample_blake3_ok])
qed

lemma sample_disk_free: "shards_free sample_blake3 sample_disk"
  by (simp add: sample_disk_def persist_def shards_free_update) (simp add: shards_free_def)

lemma sample_disk_ran: "ran (blobs_of sample_blake3 sample_disk) = {''hi''}"
  by (simp add: sample_disk_blobs)

lemma sample_hello_free:
  "collision_free sample_blake3 (ran (blobs_of sample_blake3 sample_disk) \<union> slices ''hello'')"
proof (rule sample_collision_free)
  fix d assume "d \<in> ran (blobs_of sample_blake3 sample_disk) \<union> slices ''hello''"
  then consider "d = ''hi''" | "length d \<le> length ''hello''"
    using length_slices [of d "''hello''"] by (auto simp: sample_disk_ran)
  then show "length d \<le> 31" by cases simp_all
qed

section \<open>The blob store\<close>

text \<open>
  C28. \<open>BlobStore::put\<close>, whatever system call fails: the store stays content-addressed
  (every blob under the path of its own hash). On success the answer is the content's hash
  and at most that blob is added; on failure no blob appears, vanishes or changes.
\<close>

theorem put_contract:
  assumes "blake3_ok B" and "disk_ok B d"
  shows "case put B flt d data of
      (d', Inl e) \<Rightarrow> disk_ok B d' \<and> blobs_of B d' = blobs_of B d
    | (d', Inr h) \<Rightarrow> disk_ok B d' \<and> h = hash_of B data \<and>
        blobs_of B d' = (if blobs_of B d h = None then (blobs_of B d)(h \<mapsto> data) else blobs_of B d)"
proof -
  obtain d' r where run: "put B flt d data = (d', r)" by fastforce
  then show ?thesis using put_cases [OF assms run] by (cases r) simp_all
qed

lemma put_contract_witness:
  "case put sample_blake3 (\<lambda>s. if s = TempPersist then Some IoOther else None) sample_disk ''yo'' of
      (d', Inl e) \<Rightarrow> disk_ok sample_blake3 d' \<and> blobs_of sample_blake3 d' = blobs_of sample_blake3 sample_disk
    | (d', Inr h) \<Rightarrow> disk_ok sample_blake3 d' \<and> h = hash_of sample_blake3 ''yo'' \<and>
        blobs_of sample_blake3 d' = (if blobs_of sample_blake3 sample_disk h = None
          then (blobs_of sample_blake3 sample_disk)(h \<mapsto> ''yo'') else blobs_of sample_blake3 sample_disk)"
  by (rule put_contract [OF sample_blake3_ok sample_disk_ok])

text \<open>
  Storing and reading back: when no regular file of the root occupies the shard's name,
  \<open>put\<close> without I/O faults succeeds; \<open>get\<close> of the answered hash then returns exactly the
  stored bytes (no byte string of the store collides with them), \<open>has\<close> is true, and
  storing the same bytes again changes nothing on the disk, even if every system call failed.
\<close>

theorem put_get_roundtrip:
  assumes B: "blake3_ok B" and ok: "disk_ok B d"
    and coll: "collision_free B (insert data (ran (blobs_of B d)))"
    and free: "shards_free B d"
  shows "\<exists>d'. put B no_faults d data = (d', Inr (hash_of B data))
    \<and> get B no_faults d' (hash_of B data) = Inr data \<and> has B d' (hash_of B data)
    \<and> (\<forall>flt. put B flt d' data = (d', Inr (hash_of B data)))"
proof -
  obtain d' where run: "put B no_faults d data = (d', Inr (hash_of B data))"
    using put_succeeds [OF free] by blast
  have ok': "disk_ok B d'" by (rule put_disk_ok [OF B ok run])
  have view: "blobs_of B d' (hash_of B data) = Some data"
    using bs.put_stored [OF _ run] B ok coll by (simp add: collision_free_def)
  then have "get B no_faults d' (hash_of B data) = Inr data" by (simp add: get_eq no_faults_def)
  moreover have h: "has B d' (hash_of B data)"
    using view ok' by (simp add: has_def path_exists_blob)
  moreover have "\<forall>flt. put B flt d' data = (d', Inr (hash_of B data))"
    using h by (simp add: put_def Let_def)
  ultimately show ?thesis using run by blast
qed

lemma put_get_roundtrip_witness:
  "\<exists>d'. put sample_blake3 no_faults sample_disk ''yo'' = (d', Inr (hash_of sample_blake3 ''yo''))
    \<and> get sample_blake3 no_faults d' (hash_of sample_blake3 ''yo'') = Inr ''yo''
    \<and> has sample_blake3 d' (hash_of sample_blake3 ''yo'')
    \<and> (\<forall>flt. put sample_blake3 flt d' ''yo'' = (d', Inr (hash_of sample_blake3 ''yo'')))"
  by (rule put_get_roundtrip [OF sample_blake3_ok sample_disk_ok _ sample_disk_free])
    (auto simp: sample_disk_ran intro!: sample_collision_free)

text \<open>
  Streaming upload: \<open>put_reader\<close> without I/O faults is \<open>put\<close> of the bytes its reader
  delivers up to the first empty read, whatever the sizes of the buffers and however often
  a read is interrupted; an error of the reader is returned and leaves the disk untouched.
\<close>

theorem put_reader_is_put:
  assumes "blake3_ok B"
  shows "put_reader B no_faults d evs =
    (case delivered evs of Inl e \<Rightarrow> (d, Inl e) | Inr data \<Rightarrow> put B no_faults d data)"
proof -
  have "put_reader B no_faults d evs =
      (case pump no_faults evs [] of Inl e \<Rightarrow> (d, Inl e)
       | Inr bufs \<Rightarrow> commit B no_faults d (concat bufs) (hash_of B (concat bufs)))"
    using assms by (cases "pump no_faults evs []")
      (simp_all add: put_reader_def no_faults_step [of TempCreate] blake3_okD(1) from_bytes_def hash_of_def)
  also have "\<dots> = (case delivered evs of Inl e \<Rightarrow> (d, Inl e) | Inr data \<Rightarrow> put B no_faults d data)"
    using pump_delivered [of evs "[]"]
    by (cases "pump no_faults evs []"; cases "delivered evs") (simp_all add: commit_put)
  finally show ?thesis .
qed

lemma put_reader_is_put_witness:
  "put_reader sample_blake3 no_faults sample_disk [ReadOk ''y'', ReadErr IoInterrupted, ReadOk ''o'', ReadOk [], ReadErr IoOther]
    = put sample_blake3 no_faults sample_disk ''yo''"
  using put_reader_is_put [OF sample_blake3_ok, of sample_disk
      "[ReadOk ''y'', ReadErr IoInterrupted, ReadOk ''o'', ReadOk [], ReadErr IoOther]"] by simp

text \<open>
  \<open>list_hashes\<close> lists every committed blob exactly once: on a readable directory the
  answer is precisely the set of stored hashes; entries that cannot be read are skipped, so
  with faults it is still a repetition-free list of stored hashes.
\<close>

theorem list_hashes_exact:
  assumes "blake3_ok B" and "disk_ok B d" and "flt RootScan = None"
  shows "\<exists>hs. list_hashes B flt sf d = Inr hs \<and> distinct hs \<and> set hs \<subseteq> dom (blobs_of B d)
    \<and> (sf = no_scan_faults \<longrightarrow> set hs = dom (blobs_of B d))"
  using scan_root_distinct [OF assms(1,2)] scan_root_blobs [OF assms(1,2)] assms(3)
  by (auto simp: list_hashes_def)

lemma list_hashes_exact_witness:
  "\<exists>hs. list_hashes sample_blake3 no_faults no_scan_faults sample_disk = Inr hs \<and> distinct hs
    \<and> set hs = {hash_of sample_blake3 ''hi''}"
  using list_hashes_exact [OF sample_blake3_ok sample_disk_ok, of no_faults no_scan_faults]
  by (auto simp: no_faults_def sample_disk_blobs)

text \<open>
  \<open>remove\<close> without I/O faults frees exactly the named blob and reports its size (as a
  \<open>u64\<close>); removing it again frees nothing and reports 0. Whatever fails, the store stays
  content-addressed and no other blob is touched.
\<close>

theorem remove_contract:
  assumes B: "blake3_ok B" and ok: "disk_ok B d" and blob: "blobs_of B d h = Some b"
  shows "(\<exists>d'. remove B no_faults d h = (d', Inr (of_nat (length b)))
      \<and> blobs_of B d' = (blobs_of B d)(h := None) \<and> disk_ok B d'
      \<and> remove B no_faults d' h = (d', Inr 0))
    \<and> disk_ok B (fst (remove B flt d h))
    \<and> (\<forall>k. blobs_of B (fst (remove B flt d h)) k = blobs_of B d k \<or> k = h)"
proof -
  let ?d = "unlink d (blob_path B h)"
  have view: "blobs_of B ?d = (blobs_of B d)(h := None)" by (rule blobs_of_unlink [OF B])
  have ok': "disk_ok B ?d" by (rule disk_ok_unlink [OF ok])
  have "map_of ?d (take 2 (to_hex B h)) \<noteq> Some (RootFile x)" for x
    by (simp add: unlink_def blob_path_def Let_def update_conv')
  then have "remove B no_faults ?d h = (?d, Inr 0)"
    using remove_absent [OF ok', of h] view by simp
  then have "\<exists>d'. remove B no_faults d h = (d', Inr (of_nat (length b)))
      \<and> blobs_of B d' = (blobs_of B d)(h := None) \<and> disk_ok B d' \<and> remove B no_faults d' h = (d', Inr 0)"
    using remove_no_faults [OF B ok blob] view ok' by blast
  moreover obtain d2 r2 where run: "remove B flt d h = (d2, r2)" by fastforce
  then have "disk_ok B d2" and "blobs_of B d2 k = blobs_of B d k \<or> k = h" for k
    using remove_cases(1,2) [OF B ok run] by auto
  ultimately show ?thesis using run by simp
qed

lemma remove_contract_witness:
  "\<exists>d'. remove sample_blake3 no_faults sample_disk (hash_of sample_blake3 ''hi'') = (d', Inr 2)
      \<and> blobs_of sample_blake3 d' = Map.empty \<and> disk_ok sample_blake3 d'
      \<and> remove sample_blake3 no_faults d' (hash_of sample_blake3 ''hi'') = (d', Inr 0)"
  using remove_contract [OF sample_blake3_ok sample_disk_ok, of "hash_of sample_blake3 ''hi''" "''hi''"]
  by (simp add: sample_disk_blobs)

section \<open>Files through the store\<close>

text \<open>
  C27. A file through the blob store: \<open>store_file\<close> without I/O faults succeeds, its manifest
  covers the file without gap or overlap and has its size, every earlier blob is still
  there, and both readers give back exactly the file's bytes: \<open>ManifestReader\<close> through
  \<open>read_to_end\<close> (for any buffer sizes; it always ends) and \<open>ChunkStream\<close> chunk by chunk.
\<close>

theorem store_file_roundtrip:
  assumes B: "blake3_ok B" and ok: "disk_ok B d" and free: "shards_free B d"
    and F: "fastcdc_ok F" and cfg: "valid_config F cfg" and small: "length data < 2 ^ 64"
    and coll: "collision_free B (ran (blobs_of B d) \<union> slices data)"
  shows "\<exists>d' m r bufs. store_file B F no_faults d (reader_of data) cfg = (d', Inr m)
    \<and> disk_ok B d' \<and> blobs_of B d \<subseteq>\<^sub>m blobs_of B d'
    \<and> wf_manifest m \<and> unat (total_size m) = length data
    \<and> read_to_end (mr_read (get B no_faults d')) bs i (mr_new m) [] = Some (r, Inr data)
    \<and> stream_run (get B no_faults d') (Suc (length (chunks m))) (stream_new m) = map Inr bufs
    \<and> concat bufs = data"
proof -
  obtain d' m where run: "store_file B F no_faults d (reader_of data) cfg = (d', Inr m)"
    using store_file_succeeds [OF free F cfg] by blast
  note content = store_file_content [OF B ok F cfg run small coll [unfolded slices_def]]
  have view: "manifest_content (view_of (get B no_faults d')) m = Some data"
    using content(1) by (simp add: view_of_get no_faults_step)
  obtain r where r: "read_to_end (mr_read (get B no_faults d')) bs i (mr_new m) [] = Some (r, Inr data)"
    using read_manifest_to_end [OF view] by blast
  obtain bufs where "map (\<lambda>c. get B no_faults d' (cr_hash c)) (chunks m) = map Inr bufs" "concat bufs = data"
    using content_of_chunks content_wf [OF view] by blast
  then have "stream_run (get B no_faults d') (Suc (length (chunks m))) (stream_new m) = map Inr bufs"
    using stream_run_eq [of m 0 "Suc (length (chunks m))"]
    by (simp add: stream_new_def del: stream_run.simps)
  then show ?thesis
    using run r content(2) content_wf [OF view] store_file_disk [OF B ok run] \<open>concat bufs = data\<close> by blast
qed

lemma store_file_roundtrip_witness:
  "\<exists>d' m r bufs. store_file sample_blake3 sample_fastcdc no_faults sample_disk (reader_of ''hello'') sample_config = (d', Inr m)
    \<and> disk_ok sample_blake3 d' \<and> blobs_of sample_blake3 sample_disk \<subseteq>\<^sub>m blobs_of sample_blake3 d'
    \<and> wf_manifest m \<and> unat (total_size m) = length ''hello''
    \<and> read_to_end (mr_read (get sample_blake3 no_faults d')) (\<lambda>_. 2) 0 (mr_new m) [] = Some (r, Inr ''hello'')
    \<and> stream_run (get sample_blake3 no_faults d') (Suc (length (chunks m))) (stream_new m) = map Inr bufs
    \<and> concat bufs = ''hello''"
  by (rule store_file_roundtrip [OF sample_blake3_ok sample_disk_ok sample_disk_free
        sample_fastcdc_ok sample_config_valid _ sample_hello_free]) simp

text \<open>
  A failing source: when the reader reports an error after some bytes, \<open>store_file\<close>
  returns an error (the reader's own, if no system call failed), whatever was already
  stored; the store stays content-addressed and keeps every blob it had.
\<close>

theorem store_file_reader_error:
  assumes B: "blake3_ok B" and ok: "disk_ok B d" and F: "fastcdc_ok F" and cfg: "valid_config F cfg"
    and err: "rd_err r = Some e"
  shows "\<exists>d' e'. store_file B F flt d r cfg = (d', Inl e') \<and> disk_ok B d'
    \<and> blobs_of B d \<subseteq>\<^sub>m blobs_of B d' \<and> (flt = no_faults \<and> shards_free B d \<longrightarrow> e' = e)"
proof -
  obtain cs0 where "chunk_reader F r cfg = map (\<lambda>c. Inr (chunk_of_cdc c)) cs0 @ [Inl e]"
    using chunk_reader_err [OF F cfg err] by blast
  then have items: "chunk_reader F r cfg = map Inr (map chunk_of_cdc cs0) @ [Inl e]"
    by (simp add: comp_def)
  have loop: "\<exists>d' e'. store_loop (put B flt) d (map Inr cs @ [Inl e]) m = (d', Inl e')
      \<and> (flt = no_faults \<and> shards_free B d \<longrightarrow> e' = e)" for cs m
  proof (induction cs arbitrary: d m)
    case (Cons ck cs)
    obtain d1 r1 where p: "put B flt d (ck_data ck) = (d1, r1)" by fastforce
    show ?case
    proof (cases r1)
      case (Inl e1)
      then show ?thesis using p put_succeeds [of B d "ck_data ck"] by auto
    next
      case (Inr h)
      then show ?thesis using p Cons.IH [of d1 "push_chunk m h ck"] shards_free_put [OF _ p] by auto
    qed
  qed simp
  have "store_file B F flt d r cfg = store_loop (put B flt) d (map Inr (map chunk_of_cdc cs0) @ [Inl e]) manifest_default"
    by (simp only: store_file_def items)
  then show ?thesis
    using loop [of "map chunk_of_cdc cs0" manifest_default] store_file_disk [OF B ok] by metis
qed

lemma store_file_reader_error_witness:
  "\<exists>d' e'. store_file sample_blake3 sample_fastcdc no_faults sample_disk
      \<lparr>rd_bytes = ''hel'', rd_err = Some IoUnexpectedEof\<rparr> sample_config = (d', Inl e') \<and> disk_ok sample_blake3 d'
    \<and> blobs_of sample_blake3 sample_disk \<subseteq>\<^sub>m blobs_of sample_blake3 d' \<and> e' = IoUnexpectedEof"
  using store_file_reader_error [OF sample_blake3_ok sample_disk_ok sample_fastcdc_ok sample_config_valid,
      of "\<lparr>rd_bytes = ''hel'', rd_err = Some IoUnexpectedEof\<rparr>" IoUnexpectedEof no_faults]
    sample_disk_free by auto

section \<open>The readers\<close>

text \<open>A readable file for the witnesses: two chunks served from a fixed map.\<close>

definition sample_get :: "hash \<Rightarrow> io_error + bytes" where
  "sample_get h = (if h = Hash 1 then Inr ''he'' else if h = Hash 2 then Inr ''llo'' else Inl IoNotFound)"

definition sample_manifest :: manifest where
  "sample_manifest = \<lparr>total_size = 5, chunks =
     [\<lparr>cr_hash = Hash 1, cr_offset = 0, cr_length = 2\<rparr>, \<lparr>cr_hash = Hash 2, cr_offset = 2, cr_length = 3\<rparr>]\<rparr>"

lemma sample_manifest_content: "manifest_content (view_of sample_get) sample_manifest = Some ''hello''"
  by (simp add: manifest_content_def wf_manifest_def sample_manifest_def view_of_def sample_get_def)

lemma sample_reader_at: "mr_at sample_get ''hello'' 0 (mr_new sample_manifest)"
  by (rule mr_at_new [OF sample_manifest_content])

lemma mr_position_at: "mr_at gt d p r \<Longrightarrow> unat (mr_position r) = p"
  by (simp add: mr_at_def mr_position_def unat_add_no_wrap)

text \<open>
  \<open>ManifestReader::read\<close> refines a position in the file's bytes: at position \<open>p\<close> a read of
  \<open>n\<close> bytes never fails, returns a prefix of what follows \<open>p\<close> of at most \<open>n\<close> bytes, empty
  only for \<open>n = 0\<close> or at the end of the file, and moves the position by as much; chunk
  boundaries are invisible.
\<close>

theorem reader_read_refines:
  assumes "mr_at gt d p r"
  shows "\<exists>r' got. mr_read gt n r = (r', Inr got) \<and> mr_at gt d (p + length got) r'
    \<and> unat (mr_position r') = p + length got \<and> length got \<le> n
    \<and> got = take (length got) (drop p d) \<and> (got = [] \<longleftrightarrow> n = 0 \<or> length d \<le> p)"
proof (cases "n = 0")
  case True
  then show ?thesis using assms mr_position_at by (simp add: mr_read_def)
next
  case False
  then show ?thesis using mr_read_at [OF assms, of n] mr_position_at by blast
qed

lemma reader_read_refines_witness:
  "\<exists>r' got. mr_read sample_get 4 (mr_new sample_manifest) = (r', Inr got) \<and> mr_at sample_get ''hello'' (length got) r'
    \<and> unat (mr_position r') = length got \<and> length got \<le> 4 \<and> got = take (length got) ''hello'' \<and> got \<noteq> []"
  using reader_read_refines [OF sample_reader_at, of 4] by simp

text \<open>
  \<open>ManifestReader::seek\<close> on a readable file: a target before the start is refused and leaves
  the reader alone; every other seek succeeds, also past the end, answers the target's low
  64 bits and leaves the reader at that position, so the next read continues there.
\<close>

theorem reader_seek_refines:
  assumes "mr_at gt d p r"
  shows "if seek_goal d p pos < 0 then mr_seek gt r pos = (r, Inl IoInvalidInput)
    else \<exists>r'. mr_seek gt r pos = (r', Inr (as_u64 (seek_goal d p pos)))
      \<and> mr_at gt d (nat (seek_goal d p pos mod 2 ^ 64)) r'"
  using mr_seek_at [OF assms, of pos] mr_seek_negative [of r pos gt] seek_target_goal [OF assms, of pos]
  by (simp add: unat_as_u64)

lemma reader_seek_refines_witness:
  "\<exists>r'. mr_seek sample_get (mr_new sample_manifest) (SeekEnd (-2)) = (r', Inr 3) \<and> mr_at sample_get ''hello'' 3 r'"
  using reader_seek_refines [OF sample_reader_at, of "SeekEnd (-2)"] by (simp add: as_u64_def)

text \<open>
  C30. The cast \<open>target as u64\<close> in \<open>seek\<close> is unchecked: a relative seek whose target is
  \<open>2^64\<close> or more is not refused; it wraps around and lands near the start of the file
  (\<open>std::io::Cursor\<close> reports an overflowing seek as invalid input).
\<close>

theorem reader_seek_wraps:
  assumes "mr_at gt d p r" and "2 ^ 64 \<le> int p + k" and "k < 2 ^ 63"
  shows "\<exists>r'. mr_seek gt r (SeekCurrent k) = (r', Inr (as_u64 (int p + k - 2 ^ 64)))
    \<and> mr_at gt d (nat (int p + k - 2 ^ 64)) r'"
proof -
  have "p < 2 ^ 64" using assms(1) by (simp add: mr_at_def)
  then have lt: "int p + k - 2 ^ 64 < 2 ^ 64" using assms(3) by simp
  have "(int p + k) mod 2 ^ 64 = (int p + k - 2 ^ 64) mod 2 ^ 64" by (simp add: mod_diff_right_eq [symmetric])
  also have "\<dots> = int p + k - 2 ^ 64" using assms(2) lt by (intro mod_pos_pos_trivial) simp_all
  finally have m: "(int p + k) mod 2 ^ 64 = int p + k - 2 ^ 64" .
  have "as_u64 (int p + k) = as_u64 (int p + k - 2 ^ 64)" by (subst as_u64_mod [symmetric]) (simp only: m)
  moreover have "\<not> seek_target r (SeekCurrent k) < 0"
    using seek_target_goal [OF assms(1), of "SeekCurrent k"] assms(2) by simp
  ultimately show ?thesis
    using mr_seek_at [OF assms(1), of "SeekCurrent k"] seek_target_goal [OF assms(1), of "SeekCurrent k"] m
    by (simp add: unat_as_u64)
qed

lemma sample_reader_far:
  "mr_at sample_get ''hello'' 18446744073709551615
     \<lparr>mr_manifest = sample_manifest, next_index = 2, current = cursor_new [], base = 18446744073709551615\<rparr>"
  using sample_manifest_content
  by (simp add: mr_at_def cursor_new_def) (simp add: sample_manifest_def)

lemma reader_seek_wraps_witness:
  "\<exists>r'. mr_seek sample_get \<lparr>mr_manifest = sample_manifest, next_index = 2, current = cursor_new [], base = 18446744073709551615\<rparr>
      (SeekCurrent 2) = (r', Inr 1) \<and> mr_at sample_get ''hello'' 1 r'"
  using reader_seek_wraps [OF sample_reader_far, of 2] by (simp add: as_u64_def)

end
