(* ===== verification/Meta_Db.thy ===== *)
theory Meta_Db
  imports Manifest
begin

text \<open>
  The SQLite database of \<open>crates/vfs/src/meta.rs\<close>: the three tables of \<open>migrate\<close> as lists
  of rows and the statements the store runs on them, with their constraints (unique
  indexes, foreign keys, cascading deletes). A statement is atomic; a row id is one more
  than the largest in use, as for an INTEGER PRIMARY KEY without AUTOINCREMENT (row ids
  are unbounded integers here: the model leaves out the 2^63rd row).

  A statement can fail for reasons of its own (I/O, a busy database); the argument
  \<open>sf\<close> of an operation says which statements fail, and how.
\<close>

section \<open>Rows\<close>

record node_row =
  n_id :: i64
  n_parent :: "i64 option"
  n_name :: bytes
  n_is_dir :: i64
  n_size :: i64
  n_created :: i64
  n_modified :: i64
  n_current :: "i64 option"

record version_row =
  v_id :: i64
  v_node :: i64
  v_number :: i64
  v_size :: i64
  v_created :: i64

record chunk_row =
  c_version :: i64
  c_seq :: i64
  c_hash :: string
  c_offset :: i64
  c_length :: i64

record db =
  nodes :: "node_row list"
  versions :: "version_row list"
  vchunks :: "chunk_row list"

section \<open>Errors\<close>

text \<open>What the code tells apart in a \<open>rusqlite::Error\<close>.\<close>

datatype sqlite_error =
    ConstraintUnique
  | ConstraintPrimaryKey
  | ConstraintForeignKey
  | ConstraintOther
  | SqliteOther

datatype meta_error =
    MetaSqlite sqlite_error
  | MetaNotFound
  | MetaExists
  | MetaNotEmpty
  | MetaNotADirectory
  | MetaIsADirectory
  | MetaCurrentVersion
  | MetaCorrupt

fun constraint_error :: "sqlite_error \<Rightarrow> meta_error" where
  "constraint_error ConstraintUnique = MetaExists"
| "constraint_error ConstraintPrimaryKey = MetaExists"
| "constraint_error ConstraintForeignKey = MetaNotFound"
| "constraint_error e = MetaSqlite e"

datatype sql_stmt =
    SelectNode | SelectChild | SelectChildren | InsertNode | SelectCurrent | SelectChunks
  | SelectMaxNumber | InsertVersion | InsertChunk | UpdateCurrent | CommitTx | BeginTx
  | SelectCurrentJoin | SelectVersions | SelectVersion | SelectVersionJoin | DeleteVersion
  | DeleteNode | UpdateParent | SelectHashes | UpdateModified

type_synonym sql_faults = "sql_stmt \<Rightarrow> sqlite_error option"

definition no_sql_faults :: sql_faults where
  "no_sql_faults = (\<lambda>_. None)"

text \<open>A statement with its own failure first; \<open>sql\<close> is the \<open>?\<close> on a \<open>rusqlite\<close> call.\<close>

definition run_stmt :: "sql_faults \<Rightarrow> sql_stmt \<Rightarrow> sqlite_error + 'a \<Rightarrow> sqlite_error + 'a" where
  "run_stmt sf st r = (case sf st of Some e \<Rightarrow> Inl e | None \<Rightarrow> r)"

definition sql :: "sql_faults \<Rightarrow> sql_stmt \<Rightarrow> sqlite_error + 'a \<Rightarrow> meta_error + 'a" where
  "sql sf st r = map_err MetaSqlite (run_stmt sf st r)"

definition sql_constrained :: "sql_faults \<Rightarrow> sql_stmt \<Rightarrow> sqlite_error + 'a \<Rightarrow> meta_error + 'a" where
  "sql_constrained sf st r = map_err constraint_error (run_stmt sf st r)"

lemma run_stmt_no_faults [simp]: "run_stmt no_sql_faults st r = r"
  by (simp add: run_stmt_def no_sql_faults_def)

lemma run_stmt_Inr [simp]: "run_stmt sf st r = Inr a \<longleftrightarrow> sf st = None \<and> r = Inr a"
  by (simp add: run_stmt_def split: option.splits)

lemma sql_no_faults [simp]: "sql no_sql_faults st r = map_err MetaSqlite r"
  by (simp add: sql_def)

lemma sql_Inr [simp]: "sql sf st r = Inr a \<longleftrightarrow> sf st = None \<and> r = Inr a"
  by (simp add: sql_def)

lemma sql_constrained_no_faults [simp]:
  "sql_constrained no_sql_faults st r = map_err constraint_error r"
  by (simp add: sql_constrained_def)

lemma sql_constrained_Inr [simp]: "sql_constrained sf st r = Inr a \<longleftrightarrow> sf st = None \<and> r = Inr a"
  by (simp add: sql_constrained_def)

section \<open>Statements\<close>

definition next_rowid :: "i64 list \<Rightarrow> i64" where
  "next_rowid ids = (if ids = [] then 1 else Max (set ids) + 1)"

definition find_node :: "db \<Rightarrow> i64 \<Rightarrow> node_row option" where
  "find_node d i = find (\<lambda>r. n_id r = i) (nodes d)"

definition find_child :: "db \<Rightarrow> i64 \<Rightarrow> bytes \<Rightarrow> node_row option" where
  "find_child d p name = find (\<lambda>r. n_parent r = Some p \<and> n_name r = name) (nodes d)"

definition find_version :: "db \<Rightarrow> i64 \<Rightarrow> version_row option" where
  "find_version d v = find (\<lambda>r. v_id r = v) (versions d)"

definition find_number :: "db \<Rightarrow> i64 \<Rightarrow> i64 \<Rightarrow> version_row option" where
  "find_number d i k = find (\<lambda>r. v_node r = i \<and> v_number r = k) (versions d)"

definition chunk_rows :: "db \<Rightarrow> i64 \<Rightarrow> chunk_row list" where
  "chunk_rows d v = sort_key c_seq (filter (\<lambda>r. c_version r = v) (vchunks d))"

definition versions_of :: "db \<Rightarrow> i64 \<Rightarrow> version_row list" where
  "versions_of d i = sort_key v_number (filter (\<lambda>r. v_node r = i) (versions d))"

text \<open>\<open>INSERT INTO nodes\<close>: the unique index, then the foreign key at the statement's end.\<close>

definition insert_node_row :: "db \<Rightarrow> i64 \<Rightarrow> bytes \<Rightarrow> i64 \<Rightarrow> i64 \<Rightarrow> sqlite_error + db \<times> i64" where
  "insert_node_row d p name is_dir now =
     (if find_child d p name \<noteq> None then Inl ConstraintUnique
      else if find_node d p = None then Inl ConstraintForeignKey
      else let i = next_rowid (map n_id (nodes d)) in
        Inr (d\<lparr>nodes := nodes d @ [\<lparr>n_id = i, n_parent = Some p, n_name = name, n_is_dir = is_dir,
               n_size = 0, n_created = now, n_modified = now, n_current = None\<rparr>]\<rparr>, i))"

definition insert_version_row :: "db \<Rightarrow> i64 \<Rightarrow> i64 \<Rightarrow> i64 \<Rightarrow> i64 \<Rightarrow> sqlite_error + db \<times> i64" where
  "insert_version_row d i number sz now =
     (if find_number d i number \<noteq> None then Inl ConstraintUnique
      else if find_node d i = None then Inl ConstraintForeignKey
      else let v = next_rowid (map v_id (versions d)) in
        Inr (d\<lparr>versions := versions d @
               [\<lparr>v_id = v, v_node = i, v_number = number, v_size = sz, v_created = now\<rparr>]\<rparr>, v))"

definition insert_chunk_row :: "db \<Rightarrow> chunk_row \<Rightarrow> sqlite_error + db" where
  "insert_chunk_row d r =
     (if (\<exists>q \<in> set (vchunks d). c_version q = c_version r \<and> c_seq q = c_seq r) then Inl ConstraintPrimaryKey
      else if find_version d (c_version r) = None then Inl ConstraintForeignKey
      else Inr (d\<lparr>vchunks := vchunks d @ [r]\<rparr>))"

text \<open>
  \<open>UPDATE nodes SET ... WHERE id = i\<close>: the rows it hits (none or one, ids being unique)
  and the table after it.
\<close>

definition update_node :: "i64 \<Rightarrow> (node_row \<Rightarrow> node_row) \<Rightarrow> db \<Rightarrow> db" where
  "update_node i f d = d\<lparr>nodes := map (\<lambda>r. if n_id r = i then f r else r) (nodes d)\<rparr>"

definition update_parent_row :: "db \<Rightarrow> i64 \<Rightarrow> i64 \<Rightarrow> bytes \<Rightarrow> sqlite_error + db \<times> nat" where
  "update_parent_row d i p name =
     (if find_node d i = None then Inr (d, 0)
      else if (\<exists>r \<in> set (nodes d). n_id r \<noteq> i \<and> n_parent r = Some p \<and> n_name r = name)
        then Inl ConstraintUnique
      else if find_node d p = None then Inl ConstraintForeignKey
      else Inr (update_node i (\<lambda>r. r\<lparr>n_parent := Some p, n_name := name\<rparr>) d, 1))"

text \<open>
  The cascade of \<open>parent_id REFERENCES nodes(id) ON DELETE CASCADE\<close>: \<open>del\<close> are the ids just
  deleted, \<open>rows\<close> the rows still there.
\<close>

function cascade_nodes :: "node_row list \<Rightarrow> i64 list \<Rightarrow> node_row list" where
  "cascade_nodes rows del =
     (let kids = filter (\<lambda>r. n_parent r \<in> Some ` set del) rows in
      if kids = [] then rows
      else cascade_nodes (filter (\<lambda>r. n_parent r \<notin> Some ` set del) rows) (map n_id kids))"
  by pat_completeness auto
termination
proof (relation "measure (\<lambda>(rows, del). length rows)")
  fix rows :: "node_row list" and del kids
  assume "kids = filter (\<lambda>r. n_parent r \<in> Some ` set del) rows" and "kids \<noteq> []"
  then obtain r where "r \<in> set rows" and "n_parent r \<in> Some ` set del"
    by (metis (mono_tags, lifting) filter_False)
  then show "((filter (\<lambda>r. n_parent r \<notin> Some ` set del) rows, map n_id kids), rows, del)
      \<in> measure (\<lambda>(rows, del). length rows)"
    by (auto intro: length_filter_less)
qed simp

declare cascade_nodes.simps [simp del]

definition delete_version_rows :: "(version_row \<Rightarrow> bool) \<Rightarrow> db \<Rightarrow> db" where
  "delete_version_rows gone d =
     (let vs = map v_id (filter gone (versions d)) in
      d\<lparr>versions := filter (\<lambda>r. \<not> gone r) (versions d),
        vchunks := filter (\<lambda>r. c_version r \<notin> set vs) (vchunks d)\<rparr>)"

text \<open>\<open>DELETE FROM nodes WHERE id = i\<close> with everything that hangs on the deleted rows.\<close>

definition delete_node_row :: "i64 \<Rightarrow> db \<Rightarrow> db" where
  "delete_node_row i d =
     (let rest = cascade_nodes (filter (\<lambda>r. n_id r \<noteq> i) (nodes d)) [i] in
      delete_version_rows (\<lambda>v. v_node v \<in> n_id ` set (nodes d) \<and> v_node v \<notin> n_id ` set rest) (d\<lparr>nodes := rest\<rparr>))"

end
