(* ===== verification/Meta_Store.thy ===== *)
theory Meta_Store
  imports Meta_Db
begin

text \<open>
  \<open>MetaStore\<close> of \<open>crates/vfs/src/meta.rs\<close>: every operation over the database of theory
  \<open>Meta_Db\<close>. A \<open>SystemTime\<close> is the number of nanoseconds since the epoch; the operations
  that read the clock take the time \<open>now\<close>. An operation that changes the database returns
  the new one, which is the old one whenever it fails: a statement is atomic and an
  unfinished transaction is rolled back when its handle is dropped.
\<close>

section \<open>Time\<close>

type_synonym system_time = int

text \<open>\<open>as i64\<close> of a wider integer.\<close>

definition as_i64 :: "int \<Rightarrow> i64" where
  "as_i64 x = u64_as_i64 (as_u64 x)"

definition time_to_millis :: "system_time \<Rightarrow> i64" where
  "time_to_millis t = (if 0 \<le> t then as_i64 (t div 1000000) else - as_i64 (- t div 1000000))"

definition millis_to_time :: "i64 \<Rightarrow> system_time" where
  "millis_to_time ms = ms * 1000000"

section \<open>Values handed to the client\<close>

record node =
  node_id :: i64
  parent_id :: "i64 option"
  node_name :: bytes
  is_dir :: bool
  node_size :: u64
  created :: system_time
  modified :: system_time
  current_version_id :: "i64 option"

record version =
  version_id :: i64
  number :: u64
  version_size :: u64
  version_created :: system_time

definition ROOT_ID :: i64 where "ROOT_ID = 1"

definition row_to_node :: "node_row \<Rightarrow> node" where
  "row_to_node r =
     \<lparr>node_id = n_id r, parent_id = n_parent r, node_name = n_name r, is_dir = (n_is_dir r \<noteq> 0),
      node_size = as_u64 (n_size r), created = millis_to_time (n_created r),
      modified = millis_to_time (n_modified r), current_version_id = n_current r\<rparr>"

definition row_to_version :: "version_row \<Rightarrow> version" where
  "row_to_version r =
     \<lparr>version_id = v_id r, number = as_u64 (v_number r), version_size = as_u64 (v_size r),
      version_created = millis_to_time (v_created r)\<rparr>"

section \<open>Opening\<close>

text \<open>\<open>migrate\<close> on a database with its tables in place: the root, unless a row has its id.\<close>

definition migrate :: "system_time \<Rightarrow> db \<Rightarrow> db" where
  "migrate now d =
     (if find_node d ROOT_ID = None
      then d\<lparr>nodes := nodes d @ [\<lparr>n_id = ROOT_ID, n_parent = None, n_name = [], n_is_dir = 1, n_size = 0,
             n_created = time_to_millis now, n_modified = time_to_millis now, n_current = None\<rparr>]\<rparr>
      else d)"

definition open_in_memory :: "system_time \<Rightarrow> db" where
  "open_in_memory now = migrate now \<lparr>nodes = [], versions = [], vchunks = []\<rparr>"

section \<open>Looking up\<close>

definition get_node :: "sql_faults \<Rightarrow> db \<Rightarrow> i64 \<Rightarrow> meta_error + node" where
  "get_node sf d i =
     and_then (sql sf SelectNode (Inr (find_node d i))) (\<lambda>r.
     ok_or MetaNotFound (map_option row_to_node r))"

definition lookup_child :: "sql_faults \<Rightarrow> db \<Rightarrow> i64 \<Rightarrow> bytes \<Rightarrow> meta_error + node option" where
  "lookup_child sf d p nm =
     and_then (sql sf SelectChild (Inr (find_child d p nm))) (\<lambda>r. Inr (map_option row_to_node r))"

fun lookup_from :: "sql_faults \<Rightarrow> db \<Rightarrow> node \<Rightarrow> bytes list \<Rightarrow> meta_error + node" where
  "lookup_from sf d cur [] = Inr cur"
| "lookup_from sf d cur (seg # segs) =
     and_then (lookup_child sf d (node_id cur) seg) (\<lambda>child.
     and_then (ok_or MetaNotFound child) (\<lambda>n. lookup_from sf d n segs))"

definition lookup_path :: "sql_faults \<Rightarrow> db \<Rightarrow> bytes list \<Rightarrow> meta_error + node" where
  "lookup_path sf d segs = and_then (get_node sf d ROOT_ID) (\<lambda>root. lookup_from sf d root segs)"

definition children :: "sql_faults \<Rightarrow> db \<Rightarrow> i64 \<Rightarrow> meta_error + node list" where
  "children sf d p =
     sql sf SelectChildren
       (Inr (map row_to_node (sort_key n_name (filter (\<lambda>r. n_parent r = Some p) (nodes d)))))"

section \<open>Creating\<close>

definition insert_node ::
  "sql_faults \<Rightarrow> system_time \<Rightarrow> db \<Rightarrow> i64 \<Rightarrow> bytes \<Rightarrow> bool \<Rightarrow> db \<times> (meta_error + node)"
where
  "insert_node sf now d p nm dir =
     (let ms = time_to_millis now in
      case sql_constrained sf InsertNode (insert_node_row d p nm (if dir then 1 else 0) ms) of
        Inl e \<Rightarrow> (d, Inl e)
      | Inr (d', i) \<Rightarrow> (d', Inr
          \<lparr>node_id = i, parent_id = Some p, node_name = nm, is_dir = dir, node_size = 0,
           created = millis_to_time ms, modified = millis_to_time ms, current_version_id = None\<rparr>))"

definition create_dir :: "sql_faults \<Rightarrow> system_time \<Rightarrow> db \<Rightarrow> i64 \<Rightarrow> bytes \<Rightarrow> db \<times> (meta_error + node)" where
  "create_dir sf now d p nm = insert_node sf now d p nm True"

definition create_file :: "sql_faults \<Rightarrow> system_time \<Rightarrow> db \<Rightarrow> i64 \<Rightarrow> bytes \<Rightarrow> db \<times> (meta_error + node)" where
  "create_file sf now d p nm = insert_node sf now d p nm False"

section \<open>Content and versions\<close>

text \<open>The rows of one version, decoded: a malformed hash is corruption.\<close>

fun decode_chunks :: "blake3_lib \<Rightarrow> chunk_row list \<Rightarrow> manifest \<Rightarrow> meta_error + manifest" where
  "decode_chunks B [] m = Inr m"
| "decode_chunks B (r # rs) m =
     and_then (map_err (\<lambda>_. MetaCorrupt) (from_str B (c_hash r))) (\<lambda>h.
     let off = as_u64 (c_offset r); len = word_of_int (c_length r) :: u32 in
     decode_chunks B rs
       \<lparr>total_size = max (total_size m) (off + ucast len),
        chunks = chunks m @ [\<lparr>cr_hash = h, cr_offset = off, cr_length = len\<rparr>]\<rparr>)"

definition read_manifest :: "blake3_lib \<Rightarrow> sql_faults \<Rightarrow> db \<Rightarrow> i64 \<Rightarrow> meta_error + manifest" where
  "read_manifest B sf d v =
     and_then (sql sf SelectChunks (Inr (chunk_rows d v))) (\<lambda>rs. decode_chunks B rs manifest_default)"

definition encode_chunk :: "blake3_lib \<Rightarrow> i64 \<Rightarrow> nat \<Rightarrow> chunk_ref \<Rightarrow> chunk_row" where
  "encode_chunk B v seq c =
     \<lparr>c_version = v, c_seq = int seq, c_hash = to_hex B (cr_hash c),
      c_offset = u64_as_i64 (cr_offset c), c_length = uint (cr_length c)\<rparr>"

fun insert_chunks ::
  "blake3_lib \<Rightarrow> sql_faults \<Rightarrow> i64 \<Rightarrow> nat \<Rightarrow> chunk_ref list \<Rightarrow> db \<Rightarrow> meta_error + db"
where
  "insert_chunks B sf v seq [] d = Inr d"
| "insert_chunks B sf v seq (c # cs) d =
     and_then (sql sf InsertChunk (insert_chunk_row d (encode_chunk B v seq c)))
       (insert_chunks B sf v (Suc seq) cs)"

definition max_number :: "db \<Rightarrow> i64 \<Rightarrow> i64" where
  "max_number d i = (let ks = map v_number (filter (\<lambda>r. v_node r = i) (versions d)) in
     if ks = [] then 0 else Max (set ks))"

text \<open>The statements of the transaction that appends a version.\<close>

definition append_version ::
  "blake3_lib \<Rightarrow> sql_faults \<Rightarrow> i64 \<Rightarrow> db \<Rightarrow> i64 \<Rightarrow> manifest \<Rightarrow> meta_error + db"
where
  "append_version B sf now d i m =
     and_then (sql sf SelectMaxNumber (Inr (max_number d i + 1))) (\<lambda>number.
     and_then (sql_constrained sf InsertVersion
       (insert_version_row d i number (u64_as_i64 (total_size m)) now)) (\<lambda>(d1, v).
     and_then (insert_chunks B sf v 0 (chunks m) d1) (\<lambda>d2.
     and_then (sql sf UpdateCurrent (Inr (update_node i (\<lambda>r. r\<lparr>n_current := Some v,
       n_size := u64_as_i64 (total_size m), n_modified := now\<rparr>) d2))) (\<lambda>d3.
     sql sf CommitTx (Inr d3)))))"

definition set_file_content ::
  "blake3_lib \<Rightarrow> sql_faults \<Rightarrow> system_time \<Rightarrow> db \<Rightarrow> i64 \<Rightarrow> manifest \<Rightarrow> db \<times> (meta_error + system_time)"
where
  "set_file_content B sf now d i m =
     (let unchanged =
        and_then (sql sf BeginTx (Inr ())) (\<lambda>_.
        and_then (sql sf SelectCurrent (Inr (find_node d i))) (\<lambda>row.
        and_then (ok_or MetaNotFound row) (\<lambda>r.
        case n_current r of
          None \<Rightarrow> Inr None
        | Some v \<Rightarrow> and_then (read_manifest B sf d v) (\<lambda>m'.
            Inr (if m' = m then Some (millis_to_time (n_modified r)) else None)))))
      in case unchanged of
        Inl e \<Rightarrow> (d, Inl e)
      | Inr (Some t) \<Rightarrow> (d, Inr t)
      | Inr None \<Rightarrow>
          (let ms = time_to_millis now in
           case append_version B sf ms d i m of
             Inl e \<Rightarrow> (d, Inl e)
           | Inr d' \<Rightarrow> (d', Inr (millis_to_time ms))))"

definition load_manifest :: "blake3_lib \<Rightarrow> sql_faults \<Rightarrow> db \<Rightarrow> i64 \<Rightarrow> meta_error + manifest" where
  "load_manifest B sf d i =
     and_then (sql sf SelectCurrentJoin (Inr (map_option (\<lambda>r.
         (n_current r, case n_current r of None \<Rightarrow> None | Some v \<Rightarrow> map_option v_id (find_version d v)))
       (find_node d i)))) (\<lambda>row.
     case row of
       None \<Rightarrow> Inl MetaNotFound
     | Some (None, _) \<Rightarrow> Inr manifest_default
     | Some (Some _, None) \<Rightarrow> Inl MetaCorrupt
     | Some (Some v, Some _) \<Rightarrow> read_manifest B sf d v)"

definition load_version_manifest :: "blake3_lib \<Rightarrow> sql_faults \<Rightarrow> db \<Rightarrow> i64 \<Rightarrow> meta_error + manifest" where
  "load_version_manifest B sf d v = read_manifest B sf d v"

definition list_versions :: "sql_faults \<Rightarrow> db \<Rightarrow> i64 \<Rightarrow> meta_error + version list" where
  "list_versions sf d i = sql sf SelectVersions (Inr (map row_to_version (versions_of d i)))"

definition version_by_number :: "sql_faults \<Rightarrow> db \<Rightarrow> i64 \<Rightarrow> u64 \<Rightarrow> meta_error + version" where
  "version_by_number sf d i k =
     and_then (sql sf SelectVersion (Inr (find_number d i (u64_as_i64 k)))) (\<lambda>r.
     ok_or MetaNotFound (map_option row_to_version r))"

definition delete_version :: "sql_faults \<Rightarrow> db \<Rightarrow> i64 \<Rightarrow> u64 \<Rightarrow> db \<times> (meta_error + unit)" where
  "delete_version sf d i k =
     (let row = and_then (sql sf SelectVersionJoin
          (Inr (case (find_number d i (u64_as_i64 k), find_node d i) of
             (Some v, Some n) \<Rightarrow> Some (v_id v, n_current n) | _ \<Rightarrow> None))) (ok_or MetaNotFound)
      in case row of
        Inl e \<Rightarrow> (d, Inl e)
      | Inr (v, cur) \<Rightarrow>
          if cur = Some v then (d, Inl MetaCurrentVersion)
          else case sql sf DeleteVersion (Inr (delete_version_rows (\<lambda>r. v_id r = v) d)) of
            Inl e \<Rightarrow> (d, Inl e)
          | Inr d' \<Rightarrow> (d', Inr ()))"

section \<open>Removing\<close>

definition delete_node :: "sql_faults \<Rightarrow> db \<Rightarrow> i64 \<Rightarrow> db \<times> (meta_error + unit)" where
  "delete_node sf d i =
     (case sql sf DeleteNode (Inr (if find_node d i = None then (d, 0::nat) else (delete_node_row i d, 1))) of
        Inl e \<Rightarrow> (d, Inl e)
      | Inr (d', removed) \<Rightarrow> if removed = 0 then (d', Inl MetaNotFound) else (d', Inr ()))"

definition remove_file :: "sql_faults \<Rightarrow> db \<Rightarrow> i64 \<Rightarrow> db \<times> (meta_error + unit)" where
  "remove_file sf d i =
     (case get_node sf d i of
        Inl e \<Rightarrow> (d, Inl e)
      | Inr n \<Rightarrow> if is_dir n then (d, Inl MetaIsADirectory) else delete_node sf d i)"

definition remove_dir :: "sql_faults \<Rightarrow> db \<Rightarrow> i64 \<Rightarrow> db \<times> (meta_error + unit)" where
  "remove_dir sf d i =
     (case get_node sf d i of
        Inl e \<Rightarrow> (d, Inl e)
      | Inr n \<Rightarrow>
          if \<not> is_dir n then (d, Inl MetaNotADirectory)
          else case sql sf DeleteNode (Inr (
              if find_node d i = None \<or> (\<exists>r \<in> set (nodes d). n_parent r = Some i) then (d, 0::nat)
              else (delete_node_row i d, 1))) of
            Inl e \<Rightarrow> (d, Inl e)
          | Inr (d', removed) \<Rightarrow> if removed = 0 then (d', Inl MetaNotEmpty) else (d', Inr ()))"

section \<open>The tree\<close>

definition MAX_DEPTH :: nat where "MAX_DEPTH = 10000"

text \<open>\<open>path_of\<close>: the bounded walk to the root; \<open>names\<close> are in the order they are pushed.\<close>

definition join_names :: "bytes list \<Rightarrow> bytes" where
  "join_names names =
     (let path = concat (map (\<lambda>n. CHR ''/'' # n) names) in if path = [] then ''/'' else path)"

fun path_walk :: "sql_faults \<Rightarrow> db \<Rightarrow> nat \<Rightarrow> i64 \<Rightarrow> bytes list \<Rightarrow> meta_error + bytes option" where
  "path_walk sf d 0 cur names = Inl MetaCorrupt"
| "path_walk sf d (Suc fuel) cur names =
     (case get_node sf d cur of
        Inl e \<Rightarrow> if e = MetaNotFound then Inr None else Inl e
      | Inr n \<Rightarrow>
          (case parent_id n of
             Some p \<Rightarrow> path_walk sf d fuel p (names @ [node_name n])
           | None \<Rightarrow> Inr (Some (join_names (rev names)))))"

definition path_of :: "sql_faults \<Rightarrow> db \<Rightarrow> i64 \<Rightarrow> meta_error + bytes option" where
  "path_of sf d i = path_walk sf d MAX_DEPTH i []"

fun ancestor_walk :: "sql_faults \<Rightarrow> db \<Rightarrow> nat \<Rightarrow> i64 \<Rightarrow> i64 \<Rightarrow> meta_error + bool" where
  "ancestor_walk sf d 0 anc cur = Inl MetaCorrupt"
| "ancestor_walk sf d (Suc fuel) anc cur =
     (if cur = anc then Inr True
      else and_then (get_node sf d cur) (\<lambda>n.
        case parent_id n of Some p \<Rightarrow> ancestor_walk sf d fuel anc p | None \<Rightarrow> Inr False))"

definition is_ancestor_or_self :: "sql_faults \<Rightarrow> db \<Rightarrow> i64 \<Rightarrow> i64 \<Rightarrow> meta_error + bool" where
  "is_ancestor_or_self sf d anc i = ancestor_walk sf d MAX_DEPTH anc i"

definition rename :: "sql_faults \<Rightarrow> db \<Rightarrow> i64 \<Rightarrow> i64 \<Rightarrow> bytes \<Rightarrow> db \<times> (meta_error + unit)" where
  "rename sf d i p nm =
     (case sql_constrained sf UpdateParent (update_parent_row d i p nm) of
        Inl e \<Rightarrow> (d, Inl e)
      | Inr (d', updated) \<Rightarrow> if updated = 0 then (d', Inl MetaNotFound) else (d', Inr ()))"

fun parse_hashes :: "blake3_lib \<Rightarrow> string list \<Rightarrow> hash set \<Rightarrow> meta_error + hash set" where
  "parse_hashes B [] acc = Inr acc"
| "parse_hashes B (s # ss) acc =
     and_then (map_err (\<lambda>_. MetaCorrupt) (from_str B s)) (\<lambda>h. parse_hashes B ss (insert h acc))"

definition referenced_chunk_hashes :: "blake3_lib \<Rightarrow> sql_faults \<Rightarrow> db \<Rightarrow> meta_error + hash set" where
  "referenced_chunk_hashes B sf d =
     and_then (sql sf SelectHashes (Inr (remdups (map c_hash (vchunks d))))) (\<lambda>ss. parse_hashes B ss {})"

definition set_modified :: "sql_faults \<Rightarrow> db \<Rightarrow> i64 \<Rightarrow> system_time \<Rightarrow> db \<times> (meta_error + unit)" where
  "set_modified sf d i tm =
     (case sql sf UpdateModified (Inr (
          update_node i (\<lambda>r. r\<lparr>n_modified := time_to_millis tm\<rparr>) d,
          length (filter (\<lambda>r. n_id r = i) (nodes d)))) of
        Inl e \<Rightarrow> (d, Inl e)
      | Inr (d', updated) \<Rightarrow> if updated = 0 then (d', Inl MetaNotFound) else (d', Inr ()))"

end
