(* ===== verification/Meta_Inv.thy ===== *)
theory Meta_Inv
  imports Meta_Store
begin

text \<open>
  The invariant of the metadata database. \<open>sql_ok\<close> is what the schema's constraints
  enforce; \<open>tree_ok\<close> and \<open>history_ok\<close> are what the code relies on beyond them: the
  nodes form a tree under the root, only collections have children, and every file's
  current version is its newest, with its size cached in the node. Every operation keeps
  all three.
\<close>

section \<open>The invariant\<close>

definition node_ids :: "db \<Rightarrow> i64 set" where
  "node_ids d = n_id ` set (nodes d)"

definition version_ids :: "db \<Rightarrow> i64 set" where
  "version_ids d = v_id ` set (versions d)"

text \<open>The keys of the unique index on \<open>(parent_id, name)\<close>, where NULLs never collide.\<close>

definition child_keys :: "node_row list \<Rightarrow> (i64 option \<times> bytes) list" where
  "child_keys rows = map (\<lambda>r. (n_parent r, n_name r)) (filter (\<lambda>r. n_parent r \<noteq> None) rows)"

definition sql_ok :: "db \<Rightarrow> bool" where
  "sql_ok d \<longleftrightarrow>
     distinct (map n_id (nodes d)) \<and>
     distinct (child_keys (nodes d)) \<and>
     (\<forall>r \<in> set (nodes d). \<forall>p. n_parent r = Some p \<longrightarrow> p \<in> node_ids d) \<and>
     distinct (map v_id (versions d)) \<and>
     distinct (map (\<lambda>v. (v_node v, v_number v)) (versions d)) \<and>
     v_node ` set (versions d) \<subseteq> node_ids d \<and>
     distinct (map (\<lambda>c. (c_version c, c_seq c)) (vchunks d)) \<and>
     c_version ` set (vchunks d) \<subseteq> version_ids d"

text \<open>The names on the way from the root down to a node.\<close>

inductive path_to :: "db \<Rightarrow> i64 \<Rightarrow> bytes list \<Rightarrow> bool" for d :: db where
  path_root: "find_node d i = Some r \<Longrightarrow> n_parent r = None \<Longrightarrow> path_to d i []"
| path_step: "find_node d i = Some r \<Longrightarrow> n_parent r = Some p \<Longrightarrow> path_to d p segs
    \<Longrightarrow> path_to d i (segs @ [n_name r])"

inductive_cases path_to_cases: "path_to d i segs"

definition tree_ok :: "db \<Rightarrow> bool" where
  "tree_ok d \<longleftrightarrow>
     (\<exists>r. find_node d ROOT_ID = Some r \<and> n_parent r = None \<and> n_is_dir r \<noteq> 0 \<and> n_name r = []) \<and>
     (\<forall>i r. find_node d i = Some r \<longrightarrow>
        (n_parent r = None \<longrightarrow> i = ROOT_ID) \<and>
        (\<forall>p q. n_parent r = Some p \<and> find_node d p = Some q \<longrightarrow> n_is_dir q \<noteq> 0) \<and>
        (\<exists>segs. path_to d i segs))"

lemma tree_okD:
  assumes "tree_ok d"
  shows "find_node d i = Some r \<Longrightarrow> n_parent r = None \<Longrightarrow> i = ROOT_ID"
    and "find_node d i = Some r \<Longrightarrow> n_parent r = Some p \<Longrightarrow> find_node d p = Some q \<Longrightarrow> n_is_dir q \<noteq> 0"
    and "find_node d i = Some r \<Longrightarrow> \<exists>segs. path_to d i segs"
  using assms unfolding tree_ok_def by blast+

lemma tree_ok_rootE:
  assumes "tree_ok d"
  obtains r where "find_node d ROOT_ID = Some r" and "n_parent r = None" and "n_is_dir r \<noteq> 0" and "n_name r = []"
  using assms unfolding tree_ok_def by blast

text \<open>The current version of a node: none and no history, or the newest of its history.\<close>

definition current_ok :: "db \<Rightarrow> node_row \<Rightarrow> bool" where
  "current_ok d r \<longleftrightarrow>
     (case n_current r of
        None \<Rightarrow> n_size r = 0 \<and> (\<forall>w \<in> set (versions d). v_node w \<noteq> n_id r)
      | Some v \<Rightarrow> n_is_dir r = 0 \<and>
          (\<exists>w \<in> set (versions d). v_id w = v \<and> v_node w = n_id r \<and> v_size w = n_size r \<and>
             (\<forall>w' \<in> set (versions d). v_node w' = n_id r \<longrightarrow> v_number w' \<le> v_number w)))"

definition history_ok :: "db \<Rightarrow> bool" where
  "history_ok d \<longleftrightarrow> (\<forall>r \<in> set (nodes d). current_ok d r) \<and> (\<forall>w \<in> set (versions d). 0 < v_number w)"

lemma current_okE:
  assumes "history_ok d" and "r \<in> set (nodes d)" and "n_current r = Some v"
  obtains w where "w \<in> set (versions d)" and "v_id w = v" and "v_node w = n_id r" and "v_size w = n_size r"
    and "n_is_dir r = 0" and "\<And>w'. w' \<in> set (versions d) \<Longrightarrow> v_node w' = n_id r \<Longrightarrow> v_number w' \<le> v_number w"
proof -
  have "current_ok d r" using assms(1,2) by (simp add: history_ok_def)
  then show thesis using that assms(3) unfolding current_ok_def by auto
qed

lemma current_ok_none:
  assumes "history_ok d" and "r \<in> set (nodes d)" and "n_current r = None"
  shows "n_size r = 0" and "w \<in> set (versions d) \<Longrightarrow> v_node w \<noteq> n_id r"
  using assms unfolding history_ok_def current_ok_def by auto

definition db_ok :: "db \<Rightarrow> bool" where
  "db_ok d \<longleftrightarrow> sql_ok d \<and> tree_ok d \<and> history_ok d"

lemma db_okD [dest]: "db_ok d \<Longrightarrow> sql_ok d" "db_ok d \<Longrightarrow> tree_ok d" "db_ok d \<Longrightarrow> history_ok d"
  by (simp_all add: db_ok_def)

section \<open>Lookups\<close>

lemma find_node_Some: "find_node d i = Some r \<Longrightarrow> r \<in> set (nodes d) \<and> n_id r = i"
  using find_Some_conv by (fastforce simp: find_node_def)

lemma find_node_iff: "sql_ok d \<Longrightarrow> find_node d i = Some r \<longleftrightarrow> r \<in> set (nodes d) \<and> n_id r = i"
  by (simp add: find_node_def sql_ok_def find_key_eq_Some)

lemma find_node_self: "sql_ok d \<Longrightarrow> r \<in> set (nodes d) \<Longrightarrow> find_node d (n_id r) = Some r"
  by (simp add: find_node_iff)

lemma find_node_None: "find_node d i = None \<longleftrightarrow> i \<notin> node_ids d"
  by (auto simp: find_node_def node_ids_def find_None_conv)

lemma find_child_Some:
  "find_child d p nm = Some r \<Longrightarrow> r \<in> set (nodes d) \<and> n_parent r = Some p \<and> n_name r = nm"
  using find_Some_conv by (fastforce simp: find_child_def)

lemma find_child_None:
  "find_child d p nm = None \<longleftrightarrow> (\<forall>r \<in> set (nodes d). \<not> (n_parent r = Some p \<and> n_name r = nm))"
  by (simp add: find_child_def find_None_conv)

lemma find_child_iff:
  assumes "sql_ok d"
  shows "find_child d p nm = Some r \<longleftrightarrow> r \<in> set (nodes d) \<and> n_parent r = Some p \<and> n_name r = nm"
proof
  assume r: "r \<in> set (nodes d) \<and> n_parent r = Some p \<and> n_name r = nm"
  then have "find_child d p nm \<noteq> None" by (auto simp: find_child_None)
  then obtain q where q: "find_child d p nm = Some q" by auto
  moreover have "q = r"
  proof (rule map_of_key_in_set [where k = "\<lambda>r. (n_parent r, n_name r)"])
    show "distinct (map (\<lambda>r. (n_parent r, n_name r)) (filter (\<lambda>r. n_parent r \<noteq> None) (nodes d)))"
      using assms by (simp add: sql_ok_def child_keys_def)
  qed (use r find_child_Some [OF q] in auto)
  ultimately show "find_child d p nm = Some r" by simp
qed (rule find_child_Some)

lemma find_version_Some: "find_version d v = Some w \<Longrightarrow> w \<in> set (versions d) \<and> v_id w = v"
  using find_Some_conv by (fastforce simp: find_version_def)

lemma find_version_None: "find_version d v = None \<longleftrightarrow> v \<notin> version_ids d"
  by (auto simp: find_version_def version_ids_def find_None_conv)

lemma find_version_iff: "sql_ok d \<Longrightarrow> find_version d v = Some w \<longleftrightarrow> w \<in> set (versions d) \<and> v_id w = v"
  by (simp add: find_version_def sql_ok_def find_key_eq_Some)

lemma find_number_None:
  "find_number d i k = None \<longleftrightarrow> (\<forall>w \<in> set (versions d). \<not> (v_node w = i \<and> v_number w = k))"
  by (simp add: find_number_def find_None_conv)

lemma find_number_iff:
  assumes "sql_ok d"
  shows "find_number d i k = Some w \<longleftrightarrow> w \<in> set (versions d) \<and> v_node w = i \<and> v_number w = k"
  using assms find_key_eq_Some [of "\<lambda>v. (v_node v, v_number v)" "versions d" "(i, k)" w]
  by (simp add: find_number_def sql_ok_def)

lemma next_rowid_fresh: "next_rowid ids \<notin> set ids"
proof
  assume in_ids: "next_rowid ids \<in> set ids"
  then have "next_rowid ids \<le> Max (set ids)" by (intro Max_ge) simp_all
  with in_ids show False by (cases ids) (simp_all add: next_rowid_def)
qed

lemma path_to_find: "path_to d i segs \<Longrightarrow> \<exists>r. find_node d i = Some r"
  by (erule path_to_cases) auto

lemma path_to_unique: "path_to d i segs \<Longrightarrow> path_to d i segs' \<Longrightarrow> segs = segs'"
proof (induction arbitrary: segs' rule: path_to.induct)
  case (path_root i r)
  then show ?case by (auto elim: path_to_cases)
next
  case (path_step i r p segs)
  from path_step.prems path_step.hyps(1,2) path_step.IH show ?case
    by (auto elim!: path_to_cases [of d i])
qed

section \<open>The tree and its walks\<close>

text \<open>\<open>anc d a i\<close>: \<open>a\<close> is \<open>i\<close> or above it.\<close>

inductive anc :: "db \<Rightarrow> i64 \<Rightarrow> i64 \<Rightarrow> bool" for d :: db and a :: i64 where
  anc_self: "anc d a a"
| anc_step: "find_node d i = Some r \<Longrightarrow> n_parent r = Some p \<Longrightarrow> anc d a p \<Longrightarrow> anc d a i"

inductive_simps anc_step_simp: "anc d a i"

lemma get_node_eq: "get_node no_sql_faults d i = ok_or MetaNotFound (map_option row_to_node (find_node d i))"
  by (simp add: get_node_def)

lemma get_node_Inr: "get_node sf d i = Inr n \<Longrightarrow> \<exists>r. find_node d i = Some r \<and> n = row_to_node r"
  by (auto simp: get_node_def)

lemma row_to_node_sel [simp]:
  "node_id (row_to_node r) = n_id r" "parent_id (row_to_node r) = n_parent r"
  "node_name (row_to_node r) = n_name r" "is_dir (row_to_node r) = (n_is_dir r \<noteq> 0)"
  "node_size (row_to_node r) = as_u64 (n_size r)" "current_version_id (row_to_node r) = n_current r"
  "modified (row_to_node r) = millis_to_time (n_modified r)"
  by (simp_all add: row_to_node_def)

text \<open>The walk of \<open>path_of\<close> pushes the names bottom up; with enough turns it ends at the root.\<close>

lemma path_walk_path:
  "path_to d i segs \<Longrightarrow>
     path_walk no_sql_faults d fuel i names =
       (if length segs < fuel then Inr (Some (join_names (segs @ rev names))) else Inl MetaCorrupt)"
proof (induction arbitrary: fuel names rule: path_to.induct)
  case (path_root i r)
  then show ?case by (cases fuel) (simp_all add: get_node_eq)
next
  case (path_step i r p segs)
  then show ?case by (cases fuel) (simp_all add: get_node_eq)
qed

lemma path_walk_missing: "find_node d i = None \<Longrightarrow> 0 < fuel \<Longrightarrow> path_walk no_sql_faults d fuel i names = Inr None"
  by (cases fuel) (simp_all add: get_node_eq)

lemma ancestor_walk_path:
  "path_to d i segs \<Longrightarrow> length segs < fuel \<Longrightarrow> ancestor_walk no_sql_faults d fuel a i = Inr (anc d a i)"
proof (induction arbitrary: fuel rule: path_to.induct)
  case (path_root i r)
  then show ?case by (cases fuel) (auto simp: get_node_eq anc_step_simp [of d a i])
next
  case (path_step i r p segs)
  then obtain fuel' where "fuel = Suc fuel'" "length segs < fuel'" by (cases fuel) auto
  then show ?case using path_step by (auto simp: get_node_eq anc_step_simp [of d a i])
qed

text \<open>Walking down: \<open>lookup_path\<close> of the names on the way to a node finds the node.\<close>

lemma lookup_from_append:
  "lookup_from sf d n (xs @ ys) = and_then (lookup_from sf d n xs) (\<lambda>m. lookup_from sf d m ys)"
  by (induction xs arbitrary: n) (auto simp: and_then_def split: sum.splits)

lemma lookup_path_to:
  assumes "sql_ok d" and "tree_ok d" and "path_to d i segs"
  shows "\<exists>r. find_node d i = Some r \<and> lookup_path no_sql_faults d segs = Inr (row_to_node r)"
  using assms(3)
proof (induction rule: path_to.induct)
  case (path_root i r)
  then have "i = ROOT_ID" using assms(2) by (auto simp: tree_ok_def)
  then show ?case using path_root by (simp add: lookup_path_def get_node_eq)
next
  case (path_step i r p segs)
  then obtain q where q: "find_node d p = Some q" "lookup_path no_sql_faults d segs = Inr (row_to_node q)"
    by blast
  have "find_child d p (n_name r) = Some r"
    using find_node_Some [OF path_step(1)] path_step(2) by (simp add: find_child_iff [OF assms(1)])
  then have "lookup_path no_sql_faults d (segs @ [n_name r]) = Inr (row_to_node r)"
    using q find_node_Some [OF q(1)]
    by (auto simp: lookup_path_def lookup_from_append lookup_child_def)
  then show ?case using path_step(1) by blast
qed

lemma lookup_from_path:
  assumes "sql_ok d" and "find_node d i = Some r" and "path_to d i segs"
    and "lookup_from sf d (row_to_node r) deeper = Inr n"
  shows "\<exists>q. n = row_to_node q \<and> q \<in> set (nodes d) \<and> path_to d (n_id q) (segs @ deeper)"
  using assms(2-)
proof (induction deeper arbitrary: i r segs)
  case Nil
  then show ?case using find_node_Some by fastforce
next
  case (Cons x deeper)
  obtain c where c: "find_child d i x = Some c" and rest: "lookup_from sf d (row_to_node c) deeper = Inr n"
    using Cons.prems(3) find_node_Some [OF Cons.prems(1)] by (auto simp: lookup_child_def)
  have "find_node d (n_id c) = Some c" using find_child_Some [OF c] assms(1) by (simp add: find_node_iff)
  moreover from this have "path_to d (n_id c) (segs @ [x])"
    using path_step [of d "n_id c" c i segs] find_child_Some [OF c] Cons.prems(2) by simp
  ultimately show ?case using Cons.IH [of "n_id c" c "segs @ [x]"] rest by simp
qed

lemma lookup_path_Inr:
  assumes "sql_ok d" and "tree_ok d" and "lookup_path sf d segs = Inr n"
  shows "\<exists>q. n = row_to_node q \<and> q \<in> set (nodes d) \<and> path_to d (n_id q) segs"
proof -
  obtain r where r: "find_node d ROOT_ID = Some r" and "lookup_from sf d (row_to_node r) segs = Inr n"
    using assms(3) get_node_Inr by (fastforce simp: lookup_path_def)
  moreover have "path_to d ROOT_ID []" using r assms(2) by (auto simp: tree_ok_def intro: path_root)
  ultimately show ?thesis using lookup_from_path [OF assms(1) r, of "[]" sf segs n] by simp
qed

end
