(* ===== verification/Meta_Keep.thy ===== *)
theory Meta_Keep
  imports Meta_Inv
begin

text \<open>
  The effect of each operation of the metadata store on the tables, and the preservation
  of the invariant of theory \<open>Meta_Inv\<close>, statement by statement.
\<close>

section \<open>Databases with the same tree\<close>

definition place :: "node_row \<Rightarrow> i64 option \<times> bytes \<times> i64" where
  "place r = (n_parent r, n_name r, n_is_dir r)"

definition same_tree :: "db \<Rightarrow> db \<Rightarrow> bool" where
  "same_tree d d' \<longleftrightarrow> (\<forall>i. map_option place (find_node d i) = map_option place (find_node d' i))"

lemma same_treeD:
  assumes "same_tree d d'" and "find_node d i = Some r"
  obtains r' where "find_node d' i = Some r'" and "n_parent r' = n_parent r" and "n_name r' = n_name r"
    and "n_is_dir r' = n_is_dir r"
proof -
  have "map_option place (find_node d' i) = Some (place r)"
    using assms unfolding same_tree_def by (metis option.simps(9))
  then show thesis using that by (auto simp: place_def)
qed

lemma same_tree_sym: "same_tree d d' \<Longrightarrow> same_tree d' d"
  by (simp add: same_tree_def)

lemma path_to_mono:
  assumes "\<And>i r. find_node d i = Some r \<Longrightarrow>
      \<exists>r'. find_node d' i = Some r' \<and> n_parent r' = n_parent r \<and> n_name r' = n_name r"
  shows "path_to d i segs \<Longrightarrow> path_to d' i segs"
proof (induction rule: path_to.induct)
  case (path_root i r)
  then show ?case using assms by (metis path_to.path_root)
next
  case (path_step i r p segs)
  then show ?case using assms by (metis path_to.path_step)
qed

lemma path_to_same_tree: "same_tree d d' \<Longrightarrow> path_to d i segs \<longleftrightarrow> path_to d' i segs"
proof -
  have mono: "path_to a i segs \<Longrightarrow> path_to b i segs" if "same_tree a b" for a b
  proof (rule path_to_mono)
    fix j r assume "find_node a j = Some r"
    from same_treeD [OF that this] show "\<exists>r'. find_node b j = Some r' \<and> n_parent r' = n_parent r \<and> n_name r' = n_name r"
      by blast
  qed
  assume "same_tree d d'"
  then show ?thesis using mono same_tree_sym by blast
qed

lemma tree_ok_same_tree:
  assumes same: "same_tree d d'" and ok: "tree_ok d"
  shows "tree_ok d'"
  unfolding tree_ok_def
proof (intro conjI allI impI)
  show "\<exists>r. find_node d' ROOT_ID = Some r \<and> n_parent r = None \<and> n_is_dir r \<noteq> 0 \<and> n_name r = []"
    using ok same_treeD [OF same] unfolding tree_ok_def by metis
next
  fix i r assume r: "find_node d' i = Some r"
  obtain q where q: "find_node d i = Some q" "n_parent q = n_parent r"
    using same_treeD [OF same_tree_sym [OF same] r] .
  show "n_parent r = None \<Longrightarrow> i = ROOT_ID" using ok q by (auto simp: tree_ok_def)
  show "\<exists>segs. path_to d' i segs"
    using ok q(1) path_to_same_tree [OF same] unfolding tree_ok_def by metis
  fix p q' assume p: "n_parent r = Some p \<and> find_node d' p = Some q'"
  then obtain q2 where "find_node d p = Some q2" "n_is_dir q2 = n_is_dir q'"
    using same_treeD [OF same_tree_sym [OF same]] by metis
  then show "n_is_dir q' \<noteq> 0" using ok q p unfolding tree_ok_def by metis
qed

section \<open>Updating one row\<close>

definition keeps_place :: "(node_row \<Rightarrow> node_row) \<Rightarrow> bool" where
  "keeps_place f \<longleftrightarrow> (\<forall>r. n_id (f r) = n_id r \<and> place (f r) = place r)"

lemma update_node_sel [simp]:
  "versions (update_node i f d) = versions d" "vchunks (update_node i f d) = vchunks d"
  "nodes (update_node i f d) = map (\<lambda>r. if n_id r = i then f r else r) (nodes d)"
  by (simp_all add: update_node_def)

lemma find_map_key:
  "(\<And>r. k (g r) = k r) \<Longrightarrow> find (\<lambda>r. k r = a) (map g xs) = map_option g (find (\<lambda>r. k r = a) xs)"
  by (induction xs) auto

lemma find_node_update:
  assumes "\<And>r. n_id (f r) = n_id r"
  shows "find_node (update_node i f d) j = (if j = i then map_option f (find_node d j) else find_node d j)"
proof -
  have "find_node (update_node i f d) j = map_option (\<lambda>r. if n_id r = i then f r else r) (find_node d j)"
    unfolding find_node_def by (simp add: assms find_map_key)
  also have "\<dots> = (if j = i then map_option f (find_node d j) else find_node d j)"
    using find_node_Some [of d j] by (cases "find_node d j") auto
  finally show ?thesis .
qed

lemma same_tree_update: "keeps_place f \<Longrightarrow> same_tree d (update_node i f d)"
  by (auto simp: same_tree_def keeps_place_def find_node_update option.map_comp comp_def)

lemma node_ids_update [simp]: "(\<And>r. n_id (f r) = n_id r) \<Longrightarrow> node_ids (update_node i f d) = node_ids d"
proof -
  assume f: "\<And>r. n_id (f r) = n_id r"
  have "n_id ` (\<lambda>r. if n_id r = i then f r else r) ` set (nodes d) = n_id ` set (nodes d)"
    unfolding image_image by (rule image_cong) (simp_all add: f)
  then show ?thesis by (simp add: node_ids_def)
qed

lemma child_keys_map:
  "(\<And>r. n_parent (g r) = n_parent r) \<Longrightarrow> (\<And>r. n_name (g r) = n_name r)
     \<Longrightarrow> child_keys (map g rows) = child_keys rows"
  by (induction rows) (simp_all add: child_keys_def)

lemma sql_ok_update:
  assumes "sql_ok d" and "keeps_place f"
  shows "sql_ok (update_node i f d)"
proof -
  let ?g = "\<lambda>r. if n_id r = i then f r else r"
  have f: "n_id (f r) = n_id r" "n_parent (f r) = n_parent r" "n_name (f r) = n_name r" for r
    using assms(2) by (auto simp: keeps_place_def place_def)
  have "map n_id (map ?g (nodes d)) = map n_id (nodes d)" by (simp add: f)
  moreover have "child_keys (map ?g (nodes d)) = child_keys (nodes d)"
    by (rule child_keys_map) (simp_all add: f)
  moreover have "\<forall>r \<in> set (map ?g (nodes d)). \<forall>p. n_parent r = Some p \<longrightarrow> p \<in> node_ids d"
    using assms(1) by (auto simp: sql_ok_def f)
  moreover have "version_ids (update_node i f d) = version_ids d" by (simp add: version_ids_def)
  ultimately show ?thesis using assms(1) unfolding sql_ok_def by (simp only: update_node_sel node_ids_update f)
qed

lemma current_ok_cong:
  "versions d = versions d' \<Longrightarrow> n_id r = n_id q \<Longrightarrow> n_size r = n_size q \<Longrightarrow> n_current r = n_current q
     \<Longrightarrow> n_is_dir r = n_is_dir q \<Longrightarrow> current_ok d r = current_ok d' q"
  unfolding current_ok_def by (simp only:)

lemma set_modified_keeps:
  assumes "set_modified sf d i tm = (d', r)" and "db_ok d"
  shows "db_ok d'"
proof -
  let ?f = "\<lambda>r. r\<lparr>n_modified := time_to_millis tm\<rparr>"
  have place: "keeps_place ?f" by (simp add: keeps_place_def place_def)
  have "current_ok (update_node i ?f d) (?f r) = current_ok d r" for r
    by (rule current_ok_cong) simp_all
  moreover have "current_ok (update_node i ?f d) r = current_ok d r" for r
    by (rule current_ok_cong) simp_all
  ultimately have "history_ok (update_node i ?f d)"
    using assms(2) by (auto simp: db_ok_def history_ok_def)
  then have "db_ok (update_node i ?f d)"
    using assms(2) sql_ok_update [OF _ place] tree_ok_same_tree [OF same_tree_update [OF place]]
    by (simp add: db_ok_def)
  then show ?thesis using assms by (auto simp: set_modified_def split: sum.splits if_splits)
qed

section \<open>Adding a node\<close>

definition add_node :: "node_row \<Rightarrow> db \<Rightarrow> db" where
  "add_node r d = d\<lparr>nodes := nodes d @ [r]\<rparr>"

lemma add_node_sel [simp]:
  "nodes (add_node r d) = nodes d @ [r]" "versions (add_node r d) = versions d" "vchunks (add_node r d) = vchunks d"
  "node_ids (add_node r d) = insert (n_id r) (node_ids d)" "version_ids (add_node r d) = version_ids d"
  by (simp_all add: add_node_def node_ids_def version_ids_def)

lemma find_append: "find P (xs @ ys) = (case find P xs of None \<Rightarrow> find P ys | Some x \<Rightarrow> Some x)"
  by (induction xs) auto

lemma find_node_add:
  assumes "n_id r \<notin> node_ids d"
  shows "find_node (add_node r d) j = (if j = n_id r then Some r else find_node d j)"
proof -
  have "find_node (add_node r d) j =
      (case find_node d j of None \<Rightarrow> if n_id r = j then Some r else None | Some x \<Rightarrow> Some x)"
    by (auto simp: find_node_def find_append split: option.splits)
  then show ?thesis using assms find_node_None [of d "n_id r"] by (auto split: option.splits)
qed

lemma insert_node_row_Inr:
  assumes "insert_node_row d p nm dir now = Inr (d', i)"
  shows "d' = add_node \<lparr>n_id = i, n_parent = Some p, n_name = nm, n_is_dir = dir, n_size = 0,
      n_created = now, n_modified = now, n_current = None\<rparr> d"
    and "i \<notin> node_ids d" and "find_child d p nm = None" and "p \<in> node_ids d"
  using assms next_rowid_fresh [of "map n_id (nodes d)"] find_node_None [of d p]
  by (auto simp: insert_node_row_def add_node_def node_ids_def Let_def split: if_splits)

text \<open>A new leaf under an existing collection keeps the invariant.\<close>

lemma add_leaf_keeps:
  assumes ok: "db_ok d" and fresh: "n_id r \<notin> node_ids d" and p: "n_parent r = Some p"
    and q: "find_node d p = Some q" "n_is_dir q \<noteq> 0" and free: "find_child d p (n_name r) = None"
    and new: "n_current r = None" "n_size r = 0"
  shows "db_ok (add_node r d)"
proof -
  have sql: "sql_ok d" and tree: "tree_ok d" and hist: "history_ok d" using ok by auto
  note find = find_node_add [OF fresh]
  have pin: "p \<in> node_ids d" using q(1) find_node_None [of d p] by auto
  have key: "(Some p, n_name r) \<notin> set (child_keys (nodes d))"
    using free by (auto simp: child_keys_def find_child_None)
  have "sql_ok (add_node r d)"
    using sql fresh p pin key by (auto simp: sql_ok_def child_keys_def node_ids_def)
  moreover have "tree_ok (add_node r d)"
  proof -
    have path: "path_to d i segs \<Longrightarrow> path_to (add_node r d) i segs" for i segs
    proof (rule path_to_mono)
      fix j s assume s: "find_node d j = Some s"
      then have "j \<noteq> n_id r" using fresh find_node_None [of d j] by auto
      then show "\<exists>s'. find_node (add_node r d) j = Some s' \<and> n_parent s' = n_parent s \<and> n_name s' = n_name s"
        using s by (simp add: find)
    qed
    have "find_node d ROOT_ID \<noteq> None" using tree by (auto simp: tree_ok_def)
    then have root: "find_node (add_node r d) ROOT_ID = find_node d ROOT_ID"
      using fresh find_node_None by (auto simp: find)
    obtain segs where "path_to d p segs" using tree_okD(3) [OF tree q(1)] by blast
    then have leaf: "path_to (add_node r d) (n_id r) (segs @ [n_name r])"
      using path_step [of "add_node r d" "n_id r" r p segs] path p by (simp add: find)
    have parent: "n_is_dir b \<noteq> 0"
      if "find_node (add_node r d) i = Some a" "n_parent a = Some j" "find_node (add_node r d) j = Some b" for i j a b
    proof (cases "i = n_id r")
      case True
      then have "j = p" using that p by (simp add: find)
      then show ?thesis using that q pin fresh by (auto simp: find split: if_splits)
    next
      case False
      then have a: "find_node d i = Some a" using that(1) by (simp add: find)
      then have "j \<in> node_ids d" using sql that(2) find_node_Some [OF a] by (auto simp: sql_ok_def)
      then have "find_node d j = Some b" using that(3) fresh by (auto simp: find split: if_splits)
      then show ?thesis using tree_okD(2) [OF tree a that(2)] by blast
    qed
    show ?thesis
      unfolding tree_ok_def
    proof (intro conjI allI impI)
      show "\<exists>r'. find_node (add_node r d) ROOT_ID = Some r' \<and> n_parent r' = None \<and> n_is_dir r' \<noteq> 0 \<and> n_name r' = []"
        using tree root by (simp add: tree_ok_def)
    next
      fix i a assume a: "find_node (add_node r d) i = Some a"
      show "n_parent a = None \<Longrightarrow> i = ROOT_ID" using a tree_okD(1) [OF tree] p by (auto simp: find split: if_splits)
      show "\<exists>segs. path_to (add_node r d) i segs"
        using a tree_okD(3) [OF tree, of i a] path leaf by (cases "i = n_id r") (auto simp: find)
      show "n_is_dir b \<noteq> 0" if "n_parent a = Some j \<and> find_node (add_node r d) j = Some b" for j b
        using parent a that by blast
    qed
  qed
  moreover have "history_ok (add_node r d)"
  proof -
    have "current_ok (add_node r d) a = current_ok d a" for a by (rule current_ok_cong) simp_all
    moreover have "current_ok d r" using new fresh sql by (auto simp: current_ok_def sql_ok_def)
    ultimately show ?thesis using hist by (auto simp: history_ok_def)
  qed
  ultimately show ?thesis by (simp add: db_ok_def)
qed

lemma insert_node_keeps:
  assumes "insert_node sf now d p nm dir = (d', res)" and "db_ok d"
    and "\<And>q. find_node d p = Some q \<Longrightarrow> n_is_dir q \<noteq> 0"
  shows "db_ok d'"
proof (cases res)
  case (Inl e)
  then show ?thesis using assms by (auto simp: insert_node_def Let_def split: sum.splits prod.splits)
next
  case (Inr n)
  then obtain i where row: "insert_node_row d p nm (if dir then 1 else 0) (time_to_millis now) = Inr (d', i)"
    using assms(1) by (auto simp: insert_node_def Let_def split: sum.splits prod.splits)
  note eff = insert_node_row_Inr [OF row]
  obtain q where "find_node d p = Some q" using eff(4) find_node_None [of d p] by auto
  then show ?thesis using add_leaf_keeps [OF assms(2), of _ p q] eff assms(3) by simp
qed

lemma migrate_keeps: "db_ok (open_in_memory now)"
proof -
  let ?r = "\<lparr>n_id = ROOT_ID, n_parent = None, n_name = [], n_is_dir = 1, n_size = 0,
      n_created = time_to_millis now, n_modified = time_to_millis now, n_current = None\<rparr>"
  let ?d = "open_in_memory now"
  have d: "?d = \<lparr>nodes = [?r], versions = [], vchunks = []\<rparr>"
    by (simp add: open_in_memory_def migrate_def find_node_def)
  have find: "find_node ?d i = (if i = ROOT_ID then Some ?r else None)" for i by (simp add: d find_node_def)
  then have "path_to ?d ROOT_ID []" by (intro path_root [of _ _ ?r]) simp_all
  then have "tree_ok ?d" by (auto simp: tree_ok_def find)
  moreover have "sql_ok ?d" by (simp add: d sql_ok_def child_keys_def node_ids_def version_ids_def)
  moreover have "history_ok ?d" by (simp add: d history_ok_def current_ok_def)
  ultimately show ?thesis by (simp add: db_ok_def)
qed

section \<open>Adding a version\<close>

fun encode_all :: "blake3_lib \<Rightarrow> i64 \<Rightarrow> nat \<Rightarrow> chunk_ref list \<Rightarrow> chunk_row list" where
  "encode_all B v k [] = []"
| "encode_all B v k (c # cs) = encode_chunk B v k c # encode_all B v (Suc k) cs"

lemma encode_chunk_sel [simp]:
  "c_version (encode_chunk B v k c) = v" "c_seq (encode_chunk B v k c) = int k"
  "c_hash (encode_chunk B v k c) = to_hex B (cr_hash c)"
  by (simp_all add: encode_chunk_def)

lemma encode_all_version: "r \<in> set (encode_all B v k cs) \<Longrightarrow> c_version r = v \<and> int k \<le> c_seq r"
  by (induction cs arbitrary: k) (auto, fastforce)

lemma filter_encode_all:
  "filter (\<lambda>r. c_version r = v') (encode_all B v k cs) = (if v' = v then encode_all B v k cs else [])"
  by (induction cs arbitrary: k) auto

lemma sorted_encode_all: "sorted (map c_seq (encode_all B v k cs))"
proof (induction cs arbitrary: k)
  case (Cons c cs)
  then show ?case using encode_all_version [of _ B v "Suc k" cs] by fastforce
qed simp

lemma distinct_encode_all: "distinct (map (\<lambda>c. (c_version c, c_seq c)) (encode_all B v k cs))"
proof (induction cs arbitrary: k)
  case (Cons c cs)
  have "(v, int k) \<notin> (\<lambda>c. (c_version c, c_seq c)) ` set (encode_all B v (Suc k) cs)"
  proof
    assume "(v, int k) \<in> (\<lambda>c. (c_version c, c_seq c)) ` set (encode_all B v (Suc k) cs)"
    then obtain r where "r \<in> set (encode_all B v (Suc k) cs)" and "c_seq r = int k" by auto
    then show False using encode_all_version [of r B v "Suc k" cs] by simp
  qed
  then show ?case using Cons by simp
qed simp

lemma insert_chunks_Inr:
  "insert_chunks B sf v k cs d = Inr d' \<Longrightarrow> d' = d\<lparr>vchunks := vchunks d @ encode_all B v k cs\<rparr>"
proof (induction cs arbitrary: k d)
  case (Cons c cs)
  let ?d = "d\<lparr>vchunks := vchunks d @ [encode_chunk B v k c]\<rparr>"
  have "insert_chunk_row d (encode_chunk B v k c) = Inr d1 \<Longrightarrow> d1 = ?d" for d1
    by (simp add: insert_chunk_row_def split: if_splits)
  then have "insert_chunks B sf v (Suc k) cs ?d = Inr d'" using Cons.prems by auto
  then show ?case using Cons.IH [of "Suc k" ?d] by simp
qed simp

lemma insert_chunks_succeeds:
  assumes "v \<in> version_ids d" and "\<And>q. q \<in> set (vchunks d) \<Longrightarrow> c_version q = v \<Longrightarrow> c_seq q < int k"
  shows "insert_chunks B no_sql_faults v k cs d = Inr (d\<lparr>vchunks := vchunks d @ encode_all B v k cs\<rparr>)"
  using assms
proof (induction cs arbitrary: k d)
  case (Cons c cs)
  let ?d = "d\<lparr>vchunks := vchunks d @ [encode_chunk B v k c]\<rparr>"
  have "\<not> (\<exists>q \<in> set (vchunks d). c_version q = v \<and> c_seq q = int k)" using Cons.prems(2) by fastforce
  moreover have "find_version d v \<noteq> None" using Cons.prems(1) find_version_None [of d v] by auto
  ultimately have "insert_chunk_row d (encode_chunk B v k c) = Inr ?d"
    by (auto simp: insert_chunk_row_def)
  moreover have "insert_chunks B no_sql_faults v (Suc k) cs ?d
      = Inr (?d\<lparr>vchunks := vchunks ?d @ encode_all B v (Suc k) cs\<rparr>)"
    using Cons.prems by (intro Cons.IH) (force simp: version_ids_def)+
  ultimately show ?case by simp
qed simp

text \<open>The database after the transaction that appends version \<open>w\<close> with content \<open>m\<close>.\<close>

definition add_version :: "blake3_lib \<Rightarrow> version_row \<Rightarrow> manifest \<Rightarrow> db \<Rightarrow> db" where
  "add_version B w m d =
     update_node (v_node w) (\<lambda>r. r\<lparr>n_current := Some (v_id w), n_size := v_size w, n_modified := v_created w\<rparr>)
       (d\<lparr>versions := versions d @ [w], vchunks := vchunks d @ encode_all B (v_id w) 0 (chunks m)\<rparr>)"

definition new_version :: "db \<Rightarrow> i64 \<Rightarrow> manifest \<Rightarrow> i64 \<Rightarrow> version_row" where
  "new_version d i m now =
     \<lparr>v_id = next_rowid (map v_id (versions d)), v_node = i, v_number = max_number d i + 1,
      v_size = u64_as_i64 (total_size m), v_created = now\<rparr>"

lemma new_version_sel [simp]:
  "v_node (new_version d i m now) = i" "v_size (new_version d i m now) = u64_as_i64 (total_size m)"
  "v_created (new_version d i m now) = now" "v_number (new_version d i m now) = max_number d i + 1"
  by (simp_all add: new_version_def)

lemma new_version_fresh: "v_id (new_version d i m now) \<notin> version_ids d"
  using next_rowid_fresh [of "map v_id (versions d)"] by (simp add: new_version_def version_ids_def)

lemma max_number_ge: "w \<in> set (versions d) \<Longrightarrow> v_node w = i \<Longrightarrow> v_number w \<le> max_number d i"
proof -
  let ?ks = "map v_number (filter (\<lambda>r. v_node r = i) (versions d))"
  assume "w \<in> set (versions d)" and "v_node w = i"
  then have w: "v_number w \<in> set ?ks" by auto
  then have "?ks \<noteq> []" by force
  moreover have "v_number w \<le> Max (set ?ks)" using w by (intro Max_ge) simp_all
  ultimately show ?thesis by (simp only: max_number_def Let_def if_False)
qed

lemma append_version_Inr:
  "append_version B sf now d i m = Inr d' \<Longrightarrow> d' = add_version B (new_version d i m now) m d \<and> i \<in> node_ids d"
  using find_node_None [of d i]
  by (auto simp: append_version_def insert_version_row_def new_version_def add_version_def Let_def
      split: if_splits dest!: insert_chunks_Inr)

lemma append_version_succeeds:
  assumes ok: "sql_ok d" and i: "i \<in> node_ids d"
  shows "append_version B no_sql_faults now d i m = Inr (add_version B (new_version d i m now) m d)"
proof -
  let ?w = "new_version d i m now"
  let ?d = "d\<lparr>versions := versions d @ [?w]\<rparr>"
  have "find_number d i (max_number d i + 1) = None"
    using max_number_ge [of _ d i] by (fastforce simp: find_number_None)
  moreover have "find_node d i \<noteq> None" using i find_node_None [of d i] by simp
  ultimately have row: "insert_version_row d i (max_number d i + 1) (u64_as_i64 (total_size m)) now = Inr (?d, v_id ?w)"
    by (auto simp: insert_version_row_def new_version_def Let_def)
  have "insert_chunks B no_sql_faults (v_id ?w) 0 (chunks m) ?d
      = Inr (?d\<lparr>vchunks := vchunks ?d @ encode_all B (v_id ?w) 0 (chunks m)\<rparr>)"
  proof (rule insert_chunks_succeeds)
    show "v_id ?w \<in> version_ids ?d" by (simp add: version_ids_def)
    fix q assume "q \<in> set (vchunks ?d)" and "c_version q = v_id ?w"
    then have "v_id ?w \<in> version_ids d" using ok by (auto simp: sql_ok_def)
    then show "c_seq q < int 0" using new_version_fresh by blast
  qed
  then show ?thesis using row by (simp add: append_version_def add_version_def)
qed

end
