(* ===== verification/Meta_History.thy ===== *)
theory Meta_History
  imports Meta_Keep
begin

text \<open>
  Version history: what an appended version does to the database and to what can be read
  from it, and what deleting a version takes away.
\<close>

section \<open>Appending keeps the invariant\<close>

lemma add_version_sel [simp]:
  "versions (add_version B w m d) = versions d @ [w]"
  "vchunks (add_version B w m d) = vchunks d @ encode_all B (v_id w) 0 (chunks m)"
  "version_ids (add_version B w m d) = insert (v_id w) (version_ids d)"
  by (simp_all add: add_version_def version_ids_def)

lemma find_node_add_version:
  "find_node (add_version B w m d) j =
     (if j = v_node w
      then map_option (\<lambda>r. r\<lparr>n_current := Some (v_id w), n_size := v_size w, n_modified := v_created w\<rparr>) (find_node d j)
      else find_node d j)"
  by (simp add: add_version_def find_node_update) (simp add: find_node_def)

lemma same_tree_add_version: "same_tree d (add_version B w m d)"
proof -
  have "place (r\<lparr>n_current := a, n_size := b, n_modified := c\<rparr>) = place r" for r :: node_row and a b c
    by (simp add: place_def)
  then show ?thesis by (simp add: same_tree_def find_node_add_version option.map_comp comp_def)
qed

lemma node_ids_add_version [simp]: "node_ids (add_version B w m d) = node_ids d"
  by (simp add: add_version_def) (simp add: node_ids_def)

lemma add_version_sql_ok:
  assumes ok: "sql_ok d" and i: "v_node w \<in> node_ids d" and fresh: "v_id w \<notin> version_ids d"
    and num: "\<And>w'. w' \<in> set (versions d) \<Longrightarrow> v_node w' = v_node w \<Longrightarrow> v_number w' < v_number w"
  shows "sql_ok (add_version B w m d)"
proof -
  let ?d = "d\<lparr>versions := versions d @ [w], vchunks := vchunks d @ encode_all B (v_id w) 0 (chunks m)\<rparr>"
  have ids: "node_ids ?d = node_ids d" "version_ids ?d = insert (v_id w) (version_ids d)"
    by (auto simp: node_ids_def version_ids_def)
  have keys: "(v_node w, v_number w) \<notin> (\<lambda>v. (v_node v, v_number v)) ` set (versions d)"
    using num by force
  have chunks: "(\<lambda>c. (c_version c, c_seq c)) ` set (vchunks d)
      \<inter> (\<lambda>c. (c_version c, c_seq c)) ` set (encode_all B (v_id w) 0 (chunks m)) = {}"
  proof -
    have "c_version c \<noteq> v_id w" if "c \<in> set (vchunks d)" for c
      using that ok fresh by (auto simp: sql_ok_def)
    then show ?thesis using encode_all_version [of _ B "v_id w" 0 "chunks m"] by fastforce
  qed
  have vers: "c_version ` set (encode_all B (v_id w) 0 (chunks m)) \<subseteq> {v_id w}"
    using encode_all_version [of _ B "v_id w" 0 "chunks m"] by auto
  have "sql_ok ?d"
    using ok i fresh keys chunks vers distinct_encode_all [of B "v_id w" 0 "chunks m"]
    unfolding sql_ok_def ids by (auto simp: version_ids_def)
  then show ?thesis
    unfolding add_version_def by (rule sql_ok_update) (simp add: keeps_place_def place_def)
qed

lemma add_version_keeps:
  assumes ok: "db_ok d" and r: "find_node d (v_node w) = Some r" "n_is_dir r = 0"
    and fresh: "v_id w \<notin> version_ids d"
    and num: "\<And>w'. w' \<in> set (versions d) \<Longrightarrow> v_node w' = v_node w \<Longrightarrow> v_number w' < v_number w"
    and pos: "0 < v_number w"
  shows "db_ok (add_version B w m d)"
proof -
  have sql: "sql_ok d" and tree: "tree_ok d" and hist: "history_ok d" using ok by auto
  let ?f = "\<lambda>r. r\<lparr>n_current := Some (v_id w), n_size := v_size w, n_modified := v_created w\<rparr>"
  let ?d = "add_version B w m d"
  have "v_node w \<in> node_ids d" using find_node_None [of d "v_node w"] r by auto
  then have "sql_ok ?d" using add_version_sql_ok [OF sql _ fresh num] by blast
  moreover have "tree_ok ?d" by (rule tree_ok_same_tree [OF same_tree_add_version tree])
  moreover have "current_ok ?d q" if q: "q \<in> set (nodes ?d)" for q
  proof (cases "n_id q = v_node w")
    case True
    obtain q0 where "q0 \<in> set (nodes d)" "n_id q0 = v_node w" "q = ?f q0"
      using q True by (auto simp: add_version_def split: if_splits)
    moreover from this have "q0 = r" using find_node_self [OF sql, of q0] r(1) by simp
    ultimately have "n_is_dir q = 0" "n_id q = v_node w" "n_current q = Some (v_id w)" "n_size q = v_size w"
      using r(2) by simp_all
    then show ?thesis using num by (auto simp: current_ok_def less_imp_le)
  next
    case False
    then have q0: "q \<in> set (nodes d)" using q by (auto simp: add_version_def split: if_splits)
    then have "current_ok d q" using hist by (simp add: history_ok_def)
    then show ?thesis using False by (force simp: current_ok_def split: option.splits)
  qed
  moreover have "\<forall>w' \<in> set (versions ?d). 0 < v_number w'" using hist pos by (auto simp: history_ok_def)
  ultimately show ?thesis by (simp add: db_ok_def history_ok_def)
qed

text \<open>A successful \<open>set_file_content\<close>: nothing if the content is unchanged, else a new version.\<close>

lemma set_file_content_cases:
  assumes run: "set_file_content B sf now d i m = (d', Inr t)"
  obtains (unchanged) r v where "d' = d" and "find_node d i = Some r" and "n_current r = Some v"
      and "read_manifest B sf d v = Inr m" and "t = millis_to_time (n_modified r)"
  | (appended) r where "find_node d i = Some r"
      and "d' = add_version B (new_version d i m (time_to_millis now)) m d"
      and "t = millis_to_time (time_to_millis now)"
proof -
  obtain r where r: "find_node d i = Some r"
    using run by (auto simp: set_file_content_def Let_def split: sum.splits option.splits)
  let ?ms = "time_to_millis now"
  show thesis
  proof (cases "\<exists>v. n_current r = Some v \<and> read_manifest B sf d v = Inr m")
    case True
    then obtain v where "n_current r = Some v" "read_manifest B sf d v = Inr m" by blast
    moreover from this have "d' = d \<and> t = millis_to_time (n_modified r)"
      using run r by (auto simp: set_file_content_def Let_def split: sum.splits option.splits)
    ultimately show thesis using unchanged r by blast
  next
    case False
    then have "append_version B sf ?ms d i m = Inr d' \<and> t = millis_to_time ?ms"
      using run r by (auto simp: set_file_content_def Let_def split: sum.splits option.splits if_splits)
    then show thesis using append_version_Inr appended r by metis
  qed
qed

lemma max_number_nonneg: "history_ok d \<Longrightarrow> 0 \<le> max_number d i"
proof -
  assume ok: "history_ok d"
  let ?ks = "map v_number (filter (\<lambda>r. v_node r = i) (versions d))"
  show ?thesis
  proof (cases "?ks = []")
    case True
    then show ?thesis by (simp add: max_number_def)
  next
    case False
    then have "Max (set ?ks) \<in> set ?ks" by (metis Max_in List.finite_set set_empty)
    then have "0 < Max (set ?ks)" using ok by (auto simp: history_ok_def)
    then show ?thesis using False by (simp only: max_number_def Let_def if_False)
  qed
qed

lemma new_version_keeps:
  assumes "db_ok d" and "find_node d i = Some r" and "n_is_dir r = 0"
  shows "db_ok (add_version B (new_version d i m now) m d)"
proof (rule add_version_keeps [OF assms(1)])
  show "v_id (new_version d i m now) \<notin> version_ids d" by (rule new_version_fresh)
  show "0 < v_number (new_version d i m now)" using max_number_nonneg [of d i] assms(1) by auto
  fix w' assume "w' \<in> set (versions d)" "v_node w' = v_node (new_version d i m now)"
  then have "v_number w' \<le> max_number d i" by (intro max_number_ge) simp_all
  then show "v_number w' < v_number (new_version d i m now)" by simp
qed (use assms in simp_all)

lemma set_file_content_keeps:
  assumes run: "set_file_content B sf now d i m = (d', res)" and ok: "db_ok d"
    and is_file: "\<And>r. find_node d i = Some r \<Longrightarrow> n_is_dir r = 0"
  shows "db_ok d'"
proof (cases res)
  case (Inl e)
  then show ?thesis using run ok
    by (auto simp: set_file_content_def Let_def split: sum.splits option.splits)
next
  case (Inr t)
  then have "set_file_content B sf now d i m = (d', Inr t)" using run by simp
  then show ?thesis using ok is_file new_version_keeps [OF ok] by (cases rule: set_file_content_cases) auto
qed

section \<open>Reading a version back\<close>

lemma total_max:
  assumes "unat (t :: u64) = n" and "n + unat (len :: u32) < 2 ^ 64" and "unat off = n"
  shows "unat (max t (off + ucast len)) = n + unat len"
proof -
  have "unat (off + ucast len) = n + unat len"
    using assms(2,3) by (subst unat_add_no_wrap) simp_all
  then show ?thesis using assms(1) by (simp add: max_def word_le_nat_alt)
qed

lemma decode_encode:
  assumes B: "blake3_ok B"
  shows "layout_from n cs \<Longrightarrow> n + refs_length cs < 2 ^ 64 \<Longrightarrow> unat t = n \<Longrightarrow>
    decode_chunks B (encode_all B v k cs) \<lparr>total_size = t, chunks = pre\<rparr>
      = Inr \<lparr>total_size = of_nat (n + refs_length cs), chunks = pre @ cs\<rparr>"
proof (induction cs arbitrary: n k t pre)
  case Nil
  then show ?case by (simp add: word_unat_eq_iff unat_of_nat_small)
next
  case (Cons c cs)
  let ?t = "max t (cr_offset c + ucast (cr_length c))"
  have t: "unat ?t = n + unat (cr_length c)" using Cons.prems by (intro total_max) simp_all
  have "decode_chunks B (encode_all B v k (c # cs)) \<lparr>total_size = t, chunks = pre\<rparr>
      = decode_chunks B (encode_all B v (Suc k) cs) \<lparr>total_size = ?t, chunks = pre @ [c]\<rparr>"
    using B by (cases c) (simp add: encode_chunk_def Let_def)
  also have "\<dots> = Inr \<lparr>total_size = of_nat (n + unat (cr_length c) + refs_length cs), chunks = (pre @ [c]) @ cs\<rparr>"
    using Cons.prems t by (intro Cons.IH) simp_all
  finally show ?case by (simp add: add.assoc)
qed

lemma read_manifest_encoded:
  assumes "blake3_ok B" and "wf_manifest m" and "chunk_rows d v = encode_all B v 0 (chunks m)"
  shows "read_manifest B no_sql_faults d v = Inr m"
proof -
  have small: "refs_length (chunks m) < 2 ^ 64" using assms(2) u64_bound [of "total_size m"] by (simp add: wf_manifest_def)
  have total: "of_nat (refs_length (chunks m)) = total_size m"
    using assms(2) by (simp add: wf_manifest_def)
  have "decode_chunks B (encode_all B v 0 (chunks m)) \<lparr>total_size = 0, chunks = []\<rparr>
      = Inr \<lparr>total_size = of_nat (0 + refs_length (chunks m)), chunks = [] @ chunks m\<rparr>"
    using assms(2) small by (intro decode_encode [OF assms(1)]) (simp_all add: wf_manifest_def)
  then show ?thesis using assms(3) total by (simp add: read_manifest_def manifest_default_def)
qed

text \<open>The rows of the appended version are its chunks; those of every other version are kept.\<close>

lemma chunk_rows_add_version:
  assumes "sql_ok d" and "v_id w \<notin> version_ids d"
  shows "chunk_rows (add_version B w m d) v =
    (if v = v_id w then encode_all B (v_id w) 0 (chunks m) else chunk_rows d v)"
proof -
  have "filter (\<lambda>r. c_version r = v_id w) (vchunks d) = []"
    using assms by (auto simp: sql_ok_def filter_empty_conv)
  then show ?thesis
    using sorted_encode_all [of B "v_id w" 0 "chunks m"]
    by (auto simp: chunk_rows_def filter_encode_all sorted_sort_id sort_key_id_if_sorted)
qed

lemma read_manifest_cong:
  "chunk_rows d v = chunk_rows d' v \<Longrightarrow> read_manifest B sf d v = read_manifest B sf d' v"
  by (simp add: read_manifest_def)

lemma load_manifest_eq:
  assumes "find_node d i = Some r" and "n_current r = Some v" and "v \<in> version_ids d"
  shows "load_manifest B no_sql_faults d i = read_manifest B no_sql_faults d v"
  using assms find_version_None [of d v] by (auto simp: load_manifest_def)

lemma load_manifest_none:
  assumes "find_node d i = Some r" and "n_current r = None"
  shows "load_manifest B no_sql_faults d i = Inr manifest_default"
  using assms by (simp add: load_manifest_def)

lemma versions_of_add_version:
  assumes "v_node w = i" and "\<And>w'. w' \<in> set (versions d) \<Longrightarrow> v_node w' = i \<Longrightarrow> v_number w' < v_number w"
  shows "versions_of (add_version B w m d) i = versions_of d i @ [w]"
    and "j \<noteq> i \<Longrightarrow> versions_of (add_version B w m d) j = versions_of d j"
proof -
  let ?vs = "filter (\<lambda>r. v_node r = i) (versions d)"
  have "sort_key v_number (?vs @ [w]) = sort_key v_number ?vs @ [w]"
    using assms(2) by (intro sort_key_snoc) (simp add: less_imp_le)
  then show "versions_of (add_version B w m d) i = versions_of d i @ [w]"
    using assms(1) by (simp add: versions_of_def)
  show "j \<noteq> i \<Longrightarrow> versions_of (add_version B w m d) j = versions_of d j"
    using assms(1) by (simp add: versions_of_def)
qed

end
