(* ===== verification/Meta_Tree.thy ===== *)
theory Meta_Tree
  imports Meta_History
begin

text \<open>
  Deleting and moving: deleting a version, deleting a node with everything below it (the
  cascades of the schema), and renaming, which must not put a collection below itself.
\<close>

section \<open>Deleting versions\<close>

lemma delete_version_rows_sel [simp]:
  "nodes (delete_version_rows gone d) = nodes d"
  "versions (delete_version_rows gone d) = filter (\<lambda>r. \<not> gone r) (versions d)"
  "vchunks (delete_version_rows gone d) =
     filter (\<lambda>r. c_version r \<notin> v_id ` {w \<in> set (versions d). gone w}) (vchunks d)"
  "node_ids (delete_version_rows gone d) = node_ids d"
  "find_node (delete_version_rows gone d) i = find_node d i"
  by (simp_all add: delete_version_rows_def Let_def node_ids_def find_node_def)

lemma delete_version_rows_sql_ok:
  assumes "sql_ok d"
  shows "sql_ok (delete_version_rows gone d)"
proof -
  have "c_version c \<in> version_ids (delete_version_rows gone d)"
    if c: "c \<in> set (vchunks d)" "c_version c \<notin> v_id ` {w \<in> set (versions d). gone w}" for c
  proof -
    have "c_version c \<in> version_ids d" using assms c(1) by (simp add: sql_ok_def image_subset_iff)
    then obtain w where w: "w \<in> set (versions d)" "v_id w = c_version c" by (auto simp: version_ids_def)
    then have "\<not> gone w" using c(2) by force
    then show ?thesis using w(1) by (simp add: version_ids_def flip: w(2))
  qed
  then show ?thesis
    using assms unfolding sql_ok_def
    by (auto simp: version_ids_def distinct_map_filterI)
qed

lemma delete_version_rows_tree_ok: "tree_ok d \<Longrightarrow> tree_ok (delete_version_rows gone d)"
  by (rule tree_ok_same_tree [of d]) (simp_all add: same_tree_def)

lemma delete_version_Inr:
  assumes "delete_version sf d i k = (d', Inr u)"
  obtains w n where "find_number d i (u64_as_i64 k) = Some w" and "find_node d i = Some n"
    and "n_current n \<noteq> Some (v_id w)" and "d' = delete_version_rows (\<lambda>r. v_id r = v_id w) d"
  using assms by (auto simp: delete_version_def Let_def split: sum.splits prod.splits option.splits if_splits)

lemma delete_version_Inl: "delete_version sf d i k = (d', Inl e) \<Longrightarrow> d' = d"
  by (auto simp: delete_version_def Let_def split: sum.splits prod.splits option.splits if_splits)

lemma delete_version_keeps:
  assumes run: "delete_version sf d i k = (d', res)" and ok: "db_ok d"
  shows "db_ok d'"
proof (cases res)
  case (Inl e)
  then show ?thesis using delete_version_Inl run ok by blast
next
  case (Inr u)
  then obtain w n where w: "find_number d i (u64_as_i64 k) = Some w" and n: "find_node d i = Some n"
    and cur: "n_current n \<noteq> Some (v_id w)" and d': "d' = delete_version_rows (\<lambda>r. v_id r = v_id w) d"
    using delete_version_Inr run by blast
  have sql: "sql_ok d" and hist: "history_ok d" using ok by auto
  have wi: "w \<in> set (versions d)" "v_node w = i" using w find_number_iff [OF sql] by auto
  have "current_ok d' r" if r: "r \<in> set (nodes d)" for r
  proof (cases "n_current r")
    case None
    then show ?thesis using hist r d' by (auto simp: history_ok_def current_ok_def)
  next
    case (Some v)
    then obtain w0 where w0: "w0 \<in> set (versions d)" "v_id w0 = v" "v_node w0 = n_id r" "v_size w0 = n_size r"
      "n_is_dir r = 0" "\<And>w'. w' \<in> set (versions d) \<Longrightarrow> v_node w' = n_id r \<Longrightarrow> v_number w' \<le> v_number w0"
      using current_okE [OF hist r Some] by metis
    have "v \<noteq> v_id w"
    proof
      assume "v = v_id w"
      then have "w0 = w" using sql w0(1,2) wi(1) by (auto simp: sql_ok_def distinct_map dest: inj_onD)
      then have "r = n" using find_node_self [OF sql r] n wi(2) w0(3) by simp
      then show False using cur Some \<open>v = v_id w\<close> by simp
    qed
    then show ?thesis using w0 Some d' by (auto simp: current_ok_def)
  qed
  then have "history_ok d'" using hist d' by (auto simp: history_ok_def)
  then show ?thesis
    using delete_version_rows_sql_ok [OF sql] delete_version_rows_tree_ok ok d' by (auto simp: db_ok_def)
qed

section \<open>Deleting nodes\<close>

lemma cascade_subset: "set (cascade_nodes rows del) \<subseteq> set rows"
proof (induction rows del rule: cascade_nodes.induct)
  case (1 rows del)
  then show ?case
    by (subst cascade_nodes.simps) (auto simp: Let_def)
qed

text \<open>No survivor hangs on a deleted row.\<close>

lemma cascade_parent:
  "r \<in> set (cascade_nodes rows del) \<Longrightarrow> n_parent r = Some p \<Longrightarrow>
     p \<notin> set del \<and> (\<forall>q \<in> set rows. n_id q = p \<longrightarrow> q \<in> set (cascade_nodes rows del))"
proof (induction rows del rule: cascade_nodes.induct)
  case (1 rows del)
  let ?kids = "filter (\<lambda>r. n_parent r \<in> Some ` set del) rows"
  let ?rest = "filter (\<lambda>r. n_parent r \<notin> Some ` set del) rows"
  show ?case
  proof (cases "?kids = []")
    case True
    then have eq: "cascade_nodes rows del = rows" by (subst cascade_nodes.simps) simp
    then have "n_parent r \<notin> Some ` set del" using "1.prems"(1) True by (auto simp: filter_empty_conv)
    then show ?thesis using "1.prems"(2) eq by auto
  next
    case False
    then have eq: "cascade_nodes rows del = cascade_nodes ?rest (map n_id ?kids)"
      by (subst cascade_nodes.simps) (simp add: Let_def)
    have r: "r \<in> set (cascade_nodes ?rest (map n_id ?kids))" using "1.prems"(1) eq by simp
    then have IH: "p \<notin> set (map n_id ?kids) \<and> (\<forall>q \<in> set ?rest. n_id q = p \<longrightarrow> q \<in> set (cascade_nodes ?rest (map n_id ?kids)))"
      using "1.IH" [OF refl False] "1.prems"(2) by blast
    have "r \<in> set ?rest" using r cascade_subset by blast
    then have "p \<notin> set del" using "1.prems"(2) by auto
    then show ?thesis using IH eq by auto
  qed
qed

text \<open>Only what is below a deleted row goes.\<close>

lemma cascade_removed:
  assumes "r \<in> set rows" and "r \<notin> set (cascade_nodes rows del)"
    and "\<And>x. x \<in> set del \<Longrightarrow> anc d i x" and "set rows \<subseteq> set (nodes d)" and sql: "sql_ok d"
  shows "anc d i (n_id r)"
  using assms(1-4)
proof (induction rows del rule: cascade_nodes.induct)
  case (1 rows del)
  let ?kids = "filter (\<lambda>r. n_parent r \<in> Some ` set del) rows"
  let ?rest = "filter (\<lambda>r. n_parent r \<notin> Some ` set del) rows"
  have kid: "anc d i (n_id q)" if q: "q \<in> set ?kids" for q
  proof -
    obtain p where "p \<in> set del" "n_parent q = Some p" using q by auto
    moreover have "find_node d (n_id q) = Some q"
      using q "1.prems"(4) by (intro find_node_self [OF sql]) auto
    ultimately show ?thesis using anc_step "1.prems"(3) by blast
  qed
  show ?case
  proof (cases "r \<in> set ?kids")
    case True
    then show ?thesis by (rule kid)
  next
    case False
    then have rest: "r \<in> set ?rest" using "1.prems"(1) by auto
    have ne: "?kids \<noteq> []"
    proof
      assume "?kids = []"
      then have "cascade_nodes rows del = rows" by (subst cascade_nodes.simps) simp
      then show False using "1.prems" by simp
    qed
    then have "cascade_nodes rows del = cascade_nodes ?rest (map n_id ?kids)"
      by (subst cascade_nodes.simps) (simp add: Let_def)
    then have gone: "r \<notin> set (cascade_nodes ?rest (map n_id ?kids))" using "1.prems"(2) by simp
    have sub: "set ?rest \<subseteq> set (nodes d)" using "1.prems"(4) by auto
    show ?thesis by (rule "1.IH" [OF refl ne rest gone _ sub]) (use kid in auto)
  qed
qed

text \<open>\<open>DELETE FROM nodes WHERE id = i\<close> leaves exactly the nodes that are not at or below \<open>i\<close>.\<close>

lemma delete_node_rows:
  assumes sql: "sql_ok d"
  shows "set (nodes (delete_node_row i d)) = {r \<in> set (nodes d). \<not> anc d i (n_id r)}"
proof -
  let ?rows = "filter (\<lambda>r. n_id r \<noteq> i) (nodes d)"
  let ?left = "set (cascade_nodes ?rows [i])"
  have left: "set (nodes (delete_node_row i d)) = ?left" by (simp add: delete_node_row_def Let_def)
  have "r \<notin> ?left" if "anc d i j" and "find_node d j = Some r" for j r
    using that
  proof (induction arbitrary: r rule: anc.induct)
    case anc_self
    then have "n_id r = i" using find_node_Some by blast
    then show ?case using cascade_subset [of ?rows "[i]"] by auto
  next
    case (anc_step j q p)
    show ?case
    proof
      assume "r \<in> ?left"
      moreover have "r = q" using anc_step by simp
      ultimately have p: "p \<notin> set [i]" "\<forall>q \<in> set ?rows. n_id q = p \<longrightarrow> q \<in> ?left"
        using cascade_parent [of r ?rows "[i]" p] anc_step.hyps(2) by simp_all
      have "p \<in> node_ids d" using sql anc_step.hyps(1,2) find_node_Some by (auto simp: sql_ok_def)
      then obtain q' where q': "find_node d p = Some q'" using find_node_None [of d p] by auto
      then have "q' \<in> ?left" using p find_node_Some [OF q'] by auto
      then show False using anc_step.IH [OF q'] by blast
    qed
  qed
  then have "\<not> anc d i (n_id r)" if "r \<in> ?left" for r
    using that cascade_subset [of ?rows "[i]"] find_node_self [OF sql, of r] by auto
  moreover have "r \<in> ?left" if "r \<in> set (nodes d)" and "\<not> anc d i (n_id r)" for r
  proof (rule ccontr)
    assume gone: "r \<notin> ?left"
    have "n_id r \<noteq> i" using that(2) anc_self by metis
    then have "anc d i (n_id r)"
      using that(1) gone by (intro cascade_removed [of r ?rows "[i]"]) (auto simp: sql intro: anc_self)
    then show False using that(2) by blast
  qed
  ultimately show ?thesis using left cascade_subset [of ?rows "[i]"] by auto
qed

lemma cascade_filter: "\<exists>P. cascade_nodes rows del = filter P rows"
proof (induction rows del rule: cascade_nodes.induct)
  case (1 rows del)
  let ?kids = "filter (\<lambda>r. n_parent r \<in> Some ` set del) rows"
  show ?case
  proof (cases "?kids = []")
    case True
    then have "cascade_nodes rows del = filter (\<lambda>_. True) rows" by (subst cascade_nodes.simps) simp
    then show ?thesis by blast
  next
    case False
    then have "cascade_nodes rows del
        = cascade_nodes (filter (\<lambda>r. n_parent r \<notin> Some ` set del) rows) (map n_id ?kids)"
      by (subst cascade_nodes.simps) (simp add: Let_def)
    then show ?thesis using "1.IH" [OF refl False] by auto
  qed
qed

lemma delete_node_nodes:
  assumes "sql_ok d"
  shows "nodes (delete_node_row i d) = filter (\<lambda>r. \<not> anc d i (n_id r)) (nodes d)"
proof -
  obtain P where P: "nodes (delete_node_row i d) = filter P (nodes d)"
    using cascade_filter [of "filter (\<lambda>r. n_id r \<noteq> i) (nodes d)" "[i]"]
    by (auto simp: delete_node_row_def Let_def)
  have "P r \<longleftrightarrow> \<not> anc d i (n_id r)" if "r \<in> set (nodes d)" for r
    using that delete_node_rows [OF assms, of i] unfolding P by auto
  then show ?thesis unfolding P by (rule filter_cong [OF refl])
qed

lemma delete_node_versions:
  assumes "sql_ok d"
  shows "versions (delete_node_row i d) = filter (\<lambda>w. \<not> anc d i (v_node w)) (versions d)"
proof -
  have fk: "v_node w \<in> node_ids d" if "w \<in> set (versions d)" for w
    using assms that by (auto simp: sql_ok_def)
  have ids: "n_id ` set (cascade_nodes (filter (\<lambda>r. n_id r \<noteq> i) (nodes d)) [i]) = {j \<in> node_ids d. \<not> anc d i j}"
    using delete_node_rows [OF assms, of i] by (auto simp: delete_node_row_def Let_def node_ids_def)
  show ?thesis
    unfolding delete_node_row_def Let_def delete_version_rows_sel ids node_ids_def [symmetric]
    using fk by (auto intro!: filter_cong)
qed

lemma find_node_delete:
  assumes "sql_ok d"
  shows "find_node (delete_node_row i d) j = (if anc d i j then None else find_node d j)"
proof (cases "find_node (delete_node_row i d) j")
  case None
  then have "j \<notin> node_ids (delete_node_row i d)" using find_node_None by blast
  then have "anc d i j \<or> j \<notin> node_ids d"
    by (auto simp: node_ids_def delete_node_nodes [OF assms])
  then show ?thesis using None find_node_None [of d j] by auto
next
  case (Some r)
  then have "r \<in> set (nodes d)" "n_id r = j" "\<not> anc d i j"
    using find_node_Some [OF Some] by (auto simp: delete_node_nodes [OF assms])
  then show ?thesis using Some find_node_self [OF assms, of r] by simp
qed

lemma delete_node_chunks:
  assumes "sql_ok d"
  shows "vchunks (delete_node_row i d) =
    filter (\<lambda>c. c_version c \<notin> v_id ` {w \<in> set (versions d). anc d i (v_node w)}) (vchunks d)"
proof -
  have ids: "n_id ` set (cascade_nodes (filter (\<lambda>r. n_id r \<noteq> i) (nodes d)) [i]) = {j \<in> node_ids d. \<not> anc d i j}"
    using delete_node_rows [OF assms, of i] by (auto simp: delete_node_row_def Let_def node_ids_def)
  have "{w \<in> set (versions d). v_node w \<in> node_ids d \<and> v_node w \<notin> {j \<in> node_ids d. \<not> anc d i j}}
      = {w \<in> set (versions d). anc d i (v_node w)}"
    using assms by (auto simp: sql_ok_def)
  then show ?thesis
    unfolding delete_node_row_def Let_def delete_version_rows_sel ids node_ids_def [symmetric] by simp
qed

lemma child_keys_filter: "distinct (child_keys rows) \<Longrightarrow> distinct (child_keys (filter P rows))"
proof (induction rows)
  case (Cons r rows)
  have "set (child_keys (filter P rows)) \<subseteq> set (child_keys rows)" by (auto simp: child_keys_def)
  then show ?case using Cons by (auto simp: child_keys_def split: if_splits)
qed simp

lemma anc_parent: "find_node d j = Some r \<Longrightarrow> n_parent r = Some p \<Longrightarrow> \<not> anc d i j \<Longrightarrow> \<not> anc d i p"
  using anc_step by metis

lemma anc_root:
  assumes "tree_ok d" and "anc d i ROOT_ID"
  shows "i = ROOT_ID"
proof -
  obtain r where "find_node d ROOT_ID = Some r" "n_parent r = None" using tree_ok_rootE [OF assms(1)] by metis
  then show ?thesis using assms(2) by (auto simp: anc_step_simp [of d i ROOT_ID])
qed

lemma delete_node_sql_ok:
  assumes sql: "sql_ok d"
  shows "sql_ok (delete_node_row i d)"
proof -
  let ?d = "delete_node_row i d"
  note rows = delete_node_nodes [OF sql, of i] delete_node_versions [OF sql, of i] delete_node_chunks [OF sql, of i]
  have ids: "node_ids ?d = {j \<in> node_ids d. \<not> anc d i j}" by (auto simp: node_ids_def rows(1))
  have "p \<in> node_ids ?d" if r: "r \<in> set (nodes ?d)" "n_parent r = Some p" for r p
  proof -
    have d: "r \<in> set (nodes d)" "\<not> anc d i (n_id r)" using r(1) by (simp_all add: rows(1))
    then have "p \<in> node_ids d" using sql r(2) by (auto simp: sql_ok_def)
    then show ?thesis using anc_parent [OF find_node_self [OF sql d(1)] r(2) d(2)] by (simp add: ids)
  qed
  moreover have "v_node ` set (versions ?d) \<subseteq> node_ids ?d"
    using sql by (auto simp: rows(2) ids sql_ok_def)
  moreover have "c_version c \<in> version_ids ?d" if c: "c \<in> set (vchunks ?d)" for c
  proof -
    have "c_version c \<in> version_ids d" using c sql by (simp add: rows(3) sql_ok_def image_subset_iff)
    then obtain w where w: "w \<in> set (versions d)" "v_id w = c_version c" by (auto simp: version_ids_def)
    then have "\<not> anc d i (v_node w)" using c by (force simp: rows(3))
    then show ?thesis using w(1) by (simp add: version_ids_def rows(2) flip: w(2))
  qed
  ultimately show ?thesis
    using sql unfolding sql_ok_def
    by (auto simp: rows distinct_map_filterI child_keys_filter)
qed

lemma path_to_delete:
  assumes "sql_ok d"
  shows "path_to d j segs \<Longrightarrow> \<not> anc d i j \<Longrightarrow> path_to (delete_node_row i d) j segs"
proof (induction rule: path_to.induct)
  case (path_root j r)
  then show ?case by (intro path_to.path_root) (simp_all add: find_node_delete [OF assms])
next
  case (path_step j r p segs)
  then show ?case
    using anc_parent [OF path_step.hyps(1,2) path_step.prems]
    by (intro path_to.path_step [of _ j r p]) (simp_all add: find_node_delete [OF assms])
qed

lemma delete_node_keeps:
  assumes ok: "db_ok d" and root: "i \<noteq> ROOT_ID"
  shows "db_ok (delete_node_row i d)"
proof -
  have sql: "sql_ok d" and tree: "tree_ok d" and hist: "history_ok d" using ok by auto
  let ?d = "delete_node_row i d"
  note find = find_node_delete [OF sql, of i]
  have "tree_ok ?d"
    unfolding tree_ok_def
  proof (intro conjI allI impI)
    show "\<exists>r. find_node ?d ROOT_ID = Some r \<and> n_parent r = None \<and> n_is_dir r \<noteq> 0 \<and> n_name r = []"
      using tree anc_root [OF tree] root by (auto simp: find tree_ok_def)
  next
    fix j r assume "find_node ?d j = Some r"
    then have r: "find_node d j = Some r" "\<not> anc d i j" by (auto simp: find split: if_splits)
    show "n_parent r = None \<Longrightarrow> j = ROOT_ID" using tree_okD(1) [OF tree r(1)] .
    show "\<exists>segs. path_to ?d j segs" using tree_okD(3) [OF tree r(1)] path_to_delete [OF sql _ r(2)] by blast
    show "n_is_dir q \<noteq> 0" if "n_parent r = Some p \<and> find_node ?d p = Some q" for p q
      using tree_okD(2) [OF tree r(1), of p q] that by (auto simp: find split: if_splits)
  qed
  moreover have "current_ok ?d r" if r: "r \<in> set (nodes ?d)" for r
  proof -
    have r: "r \<in> set (nodes d)" "\<not> anc d i (n_id r)" using r by (simp_all add: delete_node_nodes [OF sql])
    note vs = delete_node_versions [OF sql, of i]
    show ?thesis
    proof (cases "n_current r")
      case None
      then show ?thesis using current_ok_none [OF hist r(1) None] by (simp add: current_ok_def vs)
    next
      case (Some v)
      obtain w where "w \<in> set (versions d)" "v_id w = v" "v_node w = n_id r" "v_size w = n_size r" "n_is_dir r = 0"
        "\<And>w'. w' \<in> set (versions d) \<Longrightarrow> v_node w' = n_id r \<Longrightarrow> v_number w' \<le> v_number w"
        using current_okE [OF hist r(1) Some] by metis
      then show ?thesis using Some r(2) by (auto simp: current_ok_def vs)
    qed
  qed
  ultimately show ?thesis
    using delete_node_sql_ok [OF sql] hist
    by (auto simp: db_ok_def history_ok_def delete_node_versions [OF sql])
qed

lemma delete_node_Inr:
  "delete_node sf d i = (d', Inr u) \<Longrightarrow> d' = delete_node_row i d \<and> find_node d i \<noteq> None"
  by (auto simp: delete_node_def split: sum.splits prod.splits if_splits)

lemma remove_file_Inr:
  "remove_file sf d i = (d', Inr u) \<Longrightarrow>
     \<exists>r. find_node d i = Some r \<and> n_is_dir r = 0 \<and> d' = delete_node_row i d"
  using get_node_Inr by (fastforce simp: remove_file_def dest: delete_node_Inr split: sum.splits if_splits)

lemma remove_dir_Inr:
  "remove_dir sf d i = (d', Inr u) \<Longrightarrow>
     \<exists>r. find_node d i = Some r \<and> n_is_dir r \<noteq> 0 \<and> (\<forall>q \<in> set (nodes d). n_parent q \<noteq> Some i)
       \<and> d' = delete_node_row i d"
  using get_node_Inr by (fastforce simp: remove_dir_def split: sum.splits prod.splits if_splits)

lemma remove_Inl:
  "remove_file sf d i = (d', Inl e) \<Longrightarrow> d' = d"
  "remove_dir sf d i = (d', Inl e) \<Longrightarrow> d' = d"
  by (auto simp: remove_file_def remove_dir_def delete_node_def split: sum.splits prod.splits if_splits)

lemma remove_file_keeps:
  assumes "remove_file sf d i = (d', res)" and ok: "db_ok d"
  shows "db_ok d'"
proof (cases res)
  case (Inl e)
  then show ?thesis using assms remove_Inl(1) by blast
next
  case (Inr u)
  then obtain r where r: "find_node d i = Some r" "n_is_dir r = 0" "d' = delete_node_row i d"
    using remove_file_Inr assms(1) by blast
  moreover have "tree_ok d" using ok by blast
  ultimately have "i \<noteq> ROOT_ID" by (auto elim: tree_ok_rootE)
  then show ?thesis using delete_node_keeps ok r(3) by simp
qed

lemma remove_dir_keeps:
  assumes "remove_dir sf d i = (d', res)" and "db_ok d" and "i \<noteq> ROOT_ID"
  shows "db_ok d'"
proof (cases res)
  case (Inl e)
  then show ?thesis using assms remove_Inl(2) by blast
next
  case (Inr u)
  then show ?thesis using remove_dir_Inr assms delete_node_keeps by blast
qed

section \<open>Renaming\<close>

lemma anc_depth:
  "anc d i q \<Longrightarrow> path_to d q s \<Longrightarrow> \<exists>s'. path_to d i s' \<and> length s' \<le> length s"
proof (induction arbitrary: s rule: anc.induct)
  case anc_self
  then show ?case by blast
next
  case (anc_step j r p)
  from anc_step.prems anc_step.hyps(1,2) obtain s0 where "path_to d p s0" "s = s0 @ [n_name r]"
    by (auto elim: path_to_cases)
  then show ?case using anc_step.IH by fastforce
qed

lemma no_parent_below:
  assumes "find_node d i = Some r" and "n_parent r = Some q" and "path_to d i s"
  shows "\<not> anc d i q"
proof
  assume a: "anc d i q"
  obtain s0 where s0: "path_to d q s0" "s = s0 @ [n_name r]"
    using assms by (auto elim: path_to_cases)
  obtain s' where "path_to d i s'" "length s' \<le> length s0" using anc_depth [OF a s0(1)] by blast
  then show False using path_to_unique [OF assms(3)] s0(2) by fastforce
qed

lemma root_above:
  assumes "tree_ok d" and "path_to d j s"
  shows "anc d ROOT_ID j"
  using assms(2)
proof (induction rule: path_to.induct)
  case (path_root j r)
  then show ?case using tree_okD(1) [OF assms(1)] anc_self by metis
next
  case (path_step j r p segs)
  then show ?case using anc_step by metis
qed

definition move :: "i64 \<Rightarrow> i64 \<Rightarrow> bytes \<Rightarrow> db \<Rightarrow> db" where
  "move i p nm d = update_node i (\<lambda>r. r\<lparr>n_parent := Some p, n_name := nm\<rparr>) d"

lemma rename_Inr:
  assumes "rename sf d i p nm = (d', Inr u)"
  obtains r where "find_node d i = Some r" and "p \<in> node_ids d" and "d' = move i p nm d"
    and "\<And>q. q \<in> set (nodes d) \<Longrightarrow> n_id q \<noteq> i \<Longrightarrow> n_parent q = Some p \<Longrightarrow> n_name q \<noteq> nm"
  using assms find_node_None [of d p]
  by (auto simp: rename_def update_parent_row_def move_def split: sum.splits prod.splits if_splits)

lemma rename_Inl: "rename sf d i p nm = (d', Inl e) \<Longrightarrow> d' = d"
  by (auto simp: rename_def update_parent_row_def split: sum.splits prod.splits if_splits)

lemma find_node_move:
  "find_node (move i p nm d) j =
     (if j = i then map_option (\<lambda>r. r\<lparr>n_parent := Some p, n_name := nm\<rparr>) (find_node d j) else find_node d j)"
  by (simp add: move_def find_node_update)

lemma move_sel [simp]:
  "versions (move i p nm d) = versions d" "vchunks (move i p nm d) = vchunks d"
  "node_ids (move i p nm d) = node_ids d" "version_ids (move i p nm d) = version_ids d"
  by (simp_all add: move_def version_ids_def)

lemma move_sql_ok:
  assumes sql: "sql_ok d" and p: "p \<in> node_ids d"
    and free: "\<And>q. q \<in> set (nodes d) \<Longrightarrow> n_id q \<noteq> i \<Longrightarrow> n_parent q = Some p \<Longrightarrow> n_name q \<noteq> nm"
  shows "sql_ok (move i p nm d)"
proof -
  let ?g = "\<lambda>r. if n_id r = i then r\<lparr>n_parent := Some p, n_name := nm\<rparr> else r"
  have g: "n_id (?g r) = n_id r" for r by simp
  have rows: "nodes (move i p nm d) = map ?g (nodes d)" by (simp add: move_def)
  have ids: "distinct (map n_id (nodes (move i p nm d)))" using sql by (simp add: rows sql_ok_def comp_def if_distrib cong: if_cong)
  have "distinct (child_keys (nodes (move i p nm d)))"
    unfolding child_keys_def distinct_map
  proof
    have "distinct (nodes (move i p nm d))" using ids by (simp add: distinct_map)
    then show "distinct (filter (\<lambda>r. n_parent r \<noteq> None) (nodes (move i p nm d)))" by (rule distinct_filter)
    show "inj_on (\<lambda>r. (n_parent r, n_name r)) (set (filter (\<lambda>r. n_parent r \<noteq> None) (nodes (move i p nm d))))"
    proof (rule inj_onI)
      fix a b assume ab: "a \<in> set (filter (\<lambda>r. n_parent r \<noteq> None) (nodes (move i p nm d)))"
          "b \<in> set (filter (\<lambda>r. n_parent r \<noteq> None) (nodes (move i p nm d)))"
        and eq: "(n_parent a, n_name a) = (n_parent b, n_name b)"
      obtain a0 b0 where 0: "a0 \<in> set (nodes d)" "a = ?g a0" "b0 \<in> set (nodes d)" "b = ?g b0"
        using ab by (auto simp: rows)
      have same: "a0 = b0" if "n_id a0 = n_id b0" using that sql 0 by (auto simp: sql_ok_def distinct_map dest: inj_onD)
      show "a = b"
      proof (cases "n_id a0 = i \<or> n_id b0 = i")
        case True
        then have "n_id a0 = n_id b0" using eq 0 free [of a0] free [of b0] by (auto split: if_splits)
        then show ?thesis using same 0 by simp
      next
        case False
        then have "a = a0" "b = b0" using 0 by simp_all
        moreover have "inj_on (\<lambda>r. (n_parent r, n_name r)) (set (filter (\<lambda>r. n_parent r \<noteq> None) (nodes d)))"
          using sql by (simp add: sql_ok_def child_keys_def distinct_map)
        ultimately show ?thesis using eq ab 0 by (auto dest: inj_onD)
      qed
    qed
  qed
  moreover have "\<forall>r \<in> set (nodes (move i p nm d)). \<forall>q. n_parent r = Some q \<longrightarrow> q \<in> node_ids d"
    using sql p by (auto simp: rows sql_ok_def)
  ultimately show ?thesis using ids sql by (simp add: sql_ok_def)
qed

text \<open>
  Moving \<open>i\<close> below a collection \<open>p\<close> that is not at or below \<open>i\<close>: nodes elsewhere keep
  their path, and the subtree of \<open>i\<close> moves as a whole.
\<close>

lemma path_to_move_other:
  "path_to d j segs \<Longrightarrow> \<not> anc d i j \<Longrightarrow> path_to (move i p nm d) j segs"
proof (induction rule: path_to.induct)
  case (path_root j r)
  then show ?case using anc_self by (intro path_to.path_root [of _ j r]) (auto simp: find_node_move)
next
  case (path_step j r q segs)
  then have "\<not> anc d i q" and "j \<noteq> i" using anc_parent anc_self by metis+
  then show ?case
    using path_step by (intro path_to.path_step [of _ j r q]) (simp_all add: find_node_move)
qed

lemma path_to_move_below:
  assumes i: "path_to d i pre" and p: "path_to d p pp" and np: "\<not> anc d i p"
  shows "anc d i j \<Longrightarrow> \<exists>rest. path_to d j (pre @ rest) \<and> path_to (move i p nm d) j (pp @ nm # rest)"
proof (induction rule: anc.induct)
  case anc_self
  obtain r where "find_node d i = Some r" using path_to_find [OF i] by blast
  then have "path_to (move i p nm d) i (pp @ [nm])"
    using path_to.path_step [of "move i p nm d" i "r\<lparr>n_parent := Some p, n_name := nm\<rparr>" p pp]
      path_to_move_other [OF p np] by (simp add: find_node_move)
  then show ?case using i by (intro exI [of _ "[]"]) simp
next
  case (anc_step j r q)
  then obtain rest where rest: "path_to d q (pre @ rest)" "path_to (move i p nm d) q (pp @ nm # rest)" by blast
  have "j \<noteq> i" using no_parent_below [OF anc_step.hyps(1,2)] anc_step.hyps(3) i by blast
  then have "path_to (move i p nm d) j ((pp @ nm # rest) @ [n_name r])"
    using anc_step.hyps rest(2) by (intro path_to.path_step [of _ j r q]) (simp_all add: find_node_move)
  moreover have "path_to d j ((pre @ rest) @ [n_name r])"
    using anc_step.hyps rest(1) by (intro path_to.path_step)
  ultimately show ?case by (intro exI [of _ "rest @ [n_name r]"]) simp
qed

lemma move_keeps:
  assumes ok: "db_ok d" and i: "find_node d i = Some r" and p: "find_node d p = Some q" "n_is_dir q \<noteq> 0"
    and np: "\<not> anc d i p"
    and free: "\<And>x. x \<in> set (nodes d) \<Longrightarrow> n_id x \<noteq> i \<Longrightarrow> n_parent x = Some p \<Longrightarrow> n_name x \<noteq> nm"
  shows "db_ok (move i p nm d)"
proof -
  have sql: "sql_ok d" and tree: "tree_ok d" and hist: "history_ok d" using ok by auto
  let ?d = "move i p nm d"
  have pin: "p \<in> node_ids d" using p(1) find_node_None [of d p] by auto
  obtain pp pre where pp: "path_to d p pp" and pre: "path_to d i pre"
    using tree_okD(3) [OF tree] p(1) i by metis
  have root: "i \<noteq> ROOT_ID" using root_above [OF tree pp] np by metis
  have dir: "\<exists>b'. find_node d j = Some b' \<and> n_is_dir b' = n_is_dir b" if "find_node ?d j = Some b" for j b
    using that by (auto simp: find_node_move split: if_splits)
  have "tree_ok ?d"
    unfolding tree_ok_def
  proof (intro conjI allI impI)
    show "\<exists>r. find_node ?d ROOT_ID = Some r \<and> n_parent r = None \<and> n_is_dir r \<noteq> 0 \<and> n_name r = []"
      using tree root by (auto simp: find_node_move tree_ok_def)
  next
    fix j a assume a: "find_node ?d j = Some a"
    show "n_parent a = None \<Longrightarrow> j = ROOT_ID"
      using a tree_okD(1) [OF tree] by (auto simp: find_node_move split: if_splits)
    obtain a' where a': "find_node d j = Some a'" using dir [OF a] by blast
    show "\<exists>segs. path_to ?d j segs"
      using tree_okD(3) [OF tree a'] path_to_move_other path_to_move_below [OF pre pp np] by metis
    show "n_is_dir b \<noteq> 0" if b: "n_parent a = Some k \<and> find_node ?d k = Some b" for k b
    proof (cases "j = i")
      case True
      then have "k = p" using a b i by (auto simp: find_node_move)
      then show ?thesis using dir [of k b] b p by auto
    next
      case False
      then have "find_node d j = Some a" using a by (simp add: find_node_move)
      then show ?thesis using dir [of k b] b tree_okD(2) [OF tree] by metis
    qed
  qed
  moreover have "history_ok ?d"
  proof -
    have "current_ok ?d x = current_ok d x" for x by (rule current_ok_cong) simp_all
    moreover have "current_ok ?d (x\<lparr>n_parent := a, n_name := b\<rparr>) = current_ok d x" for x a b
      by (rule current_ok_cong) simp_all
    ultimately show ?thesis using hist by (auto simp: history_ok_def move_def)
  qed
  moreover have "sql_ok ?d" by (rule move_sql_ok [OF sql pin free])
  ultimately show ?thesis by (simp add: db_ok_def)
qed

lemma rename_keeps:
  assumes run: "rename sf d i p nm = (d', res)" and ok: "db_ok d"
    and dir: "\<And>q. find_node d p = Some q \<Longrightarrow> n_is_dir q \<noteq> 0" and np: "\<not> anc d i p"
  shows "db_ok d'"
proof (cases res)
  case (Inl e)
  then show ?thesis using run ok rename_Inl by blast
next
  case (Inr u)
  then obtain r where r: "find_node d i = Some r" "p \<in> node_ids d" "d' = move i p nm d"
    and free: "\<And>q. q \<in> set (nodes d) \<Longrightarrow> n_id q \<noteq> i \<Longrightarrow> n_parent q = Some p \<Longrightarrow> n_name q \<noteq> nm"
    using run rename_Inr by metis
  obtain q where q: "find_node d p = Some q" using r(2) find_node_None [of d p] by auto
  show ?thesis unfolding r(3) by (rule move_keeps [OF ok r(1) q dir [OF q] np free])
qed

end
