(* ===== verification/Meta_Content.thy ===== *)
theory Meta_Content
  imports Meta_Tree
begin

text \<open>
  What can be read from the metadata store. \<open>content_ok\<close>: every version's chunk rows are the
  rows of a well-formed manifest of the version's size, so reading a version never finds
  corruption; and the live set of garbage collection.
\<close>

definition version_manifest :: "blake3_lib \<Rightarrow> db \<Rightarrow> version_row \<Rightarrow> manifest \<Rightarrow> bool" where
  "version_manifest B d w m \<longleftrightarrow> wf_manifest m \<and> v_size w = u64_as_i64 (total_size m)
     \<and> chunk_rows d (v_id w) = encode_all B (v_id w) 0 (chunks m)"

definition content_ok :: "blake3_lib \<Rightarrow> db \<Rightarrow> bool" where
  "content_ok B d \<longleftrightarrow> (\<forall>w \<in> set (versions d). \<exists>m. version_manifest B d w m)"

text \<open>The whole invariant of a store used with well-formed manifests.\<close>

definition store_ok :: "blake3_lib \<Rightarrow> db \<Rightarrow> bool" where
  "store_ok B d \<longleftrightarrow> db_ok d \<and> content_ok B d"

lemma store_okD [dest]: "store_ok B d \<Longrightarrow> db_ok d" "store_ok B d \<Longrightarrow> content_ok B d"
  by (simp_all add: store_ok_def)

lemma version_manifest_read:
  "blake3_ok B \<Longrightarrow> version_manifest B d w m \<Longrightarrow> read_manifest B no_sql_faults d (v_id w) = Inr m"
  by (simp add: version_manifest_def read_manifest_encoded)

lemma content_okE:
  assumes "content_ok B d" and "w \<in> set (versions d)"
  obtains m where "version_manifest B d w m"
  using assms by (auto simp: content_ok_def)

text \<open>An operation that keeps the rows of the versions it leaves keeps their content.\<close>

lemma content_ok_mono:
  assumes "content_ok B d" and "set (versions d') \<subseteq> set (versions d)"
    and "\<And>w. w \<in> set (versions d') \<Longrightarrow> chunk_rows d' (v_id w) = chunk_rows d (v_id w)"
  shows "content_ok B d'"
  using assms unfolding content_ok_def version_manifest_def by (metis subsetD)

lemma chunk_rows_cong: "vchunks d = vchunks d' \<Longrightarrow> chunk_rows d v = chunk_rows d' v"
  by (simp add: chunk_rows_def)

lemma chunk_rows_filter:
  assumes "vchunks d' = filter P (vchunks d)" and "\<And>c. c \<in> set (vchunks d) \<Longrightarrow> c_version c = v \<Longrightarrow> P c"
  shows "chunk_rows d' v = chunk_rows d v"
proof -
  have "filter (\<lambda>c. c_version c = v) (filter P (vchunks d)) = filter (\<lambda>c. c_version c = v) (vchunks d)"
    using assms(2) by (simp add: filter_filter) (rule filter_cong, auto)
  then show ?thesis by (simp add: chunk_rows_def assms(1))
qed

lemma version_key: "sql_ok d \<Longrightarrow> w \<in> set (versions d) \<Longrightarrow> w' \<in> set (versions d) \<Longrightarrow> v_id w = v_id w' \<Longrightarrow> w = w'"
  by (auto simp: sql_ok_def distinct_map dest: inj_onD)

lemma content_add_version:
  assumes "sql_ok d" and "content_ok B d" and fresh: "v_id w \<notin> version_ids d"
    and "wf_manifest m" and "v_size w = u64_as_i64 (total_size m)"
  shows "content_ok B (add_version B w m d)"
  unfolding content_ok_def
proof
  fix w' assume "w' \<in> set (versions (add_version B w m d))"
  then consider "w' = w" | "w' \<in> set (versions d)" by auto
  then show "\<exists>m'. version_manifest B (add_version B w m d) w' m'"
  proof cases
    case 1
    then show ?thesis
      using assms chunk_rows_add_version [OF assms(1) fresh] by (auto simp: version_manifest_def)
  next
    case 2
    then have "v_id w' \<noteq> v_id w" using fresh unfolding version_ids_def by (metis image_eqI)
    moreover obtain m' where "version_manifest B d w' m'" using assms(2) 2 by (rule content_okE)
    ultimately show ?thesis
      using chunk_rows_add_version [OF assms(1) fresh] by (auto simp: version_manifest_def)
  qed
qed

lemma content_delete_version:
  assumes "sql_ok d" and "content_ok B d"
  shows "content_ok B (delete_version_rows gone d)"
proof (rule content_ok_mono [OF assms(2)])
  show "set (versions (delete_version_rows gone d)) \<subseteq> set (versions d)" by auto
  fix w assume w: "w \<in> set (versions (delete_version_rows gone d))"
  show "chunk_rows (delete_version_rows gone d) (v_id w) = chunk_rows d (v_id w)"
    by (rule chunk_rows_filter [OF delete_version_rows_sel(3)]) (use version_key [OF assms(1)] w in auto)
qed

lemma chunk_rows_delete_version:
  assumes "sql_ok d" and "w \<in> set (versions d)" and "\<not> gone w"
  shows "chunk_rows (delete_version_rows gone d) (v_id w) = chunk_rows d (v_id w)"
  by (rule chunk_rows_filter [OF delete_version_rows_sel(3)]) (use version_key [OF assms(1)] assms in auto)

lemma chunk_rows_delete_node:
  assumes "sql_ok d" and "w \<in> set (versions d)" and "\<not> anc d i (v_node w)"
  shows "chunk_rows (delete_node_row i d) (v_id w) = chunk_rows d (v_id w)"
  by (rule chunk_rows_filter [OF delete_node_chunks [OF assms(1)]]) (use version_key [OF assms(1)] assms in auto)

lemma content_delete_node:
  assumes "sql_ok d" and "content_ok B d"
  shows "content_ok B (delete_node_row i d)"
  by (rule content_ok_mono [OF assms(2)])
    (auto simp: delete_node_versions [OF assms(1)] chunk_rows_delete_node [OF assms(1)])

lemma content_same_versions:
  "content_ok B d \<Longrightarrow> versions d' = versions d \<Longrightarrow> vchunks d' = vchunks d \<Longrightarrow> content_ok B d'"
  by (rule content_ok_mono [of B d]) (auto intro: chunk_rows_cong)

section \<open>Every operation keeps the content readable\<close>

lemma insert_node_same: "insert_node sf now d p nm dir = (d', r) \<Longrightarrow> versions d' = versions d \<and> vchunks d' = vchunks d"
  by (auto simp: insert_node_def insert_node_row_def sql_constrained_def run_stmt_def Let_def
      split: sum.splits prod.splits option.splits if_splits)

lemma set_modified_same: "set_modified sf d i tm = (d', r) \<Longrightarrow> versions d' = versions d \<and> vchunks d' = vchunks d"
  by (auto simp: set_modified_def sql_def run_stmt_def split: sum.splits prod.splits option.splits if_splits)

lemma rename_same: "rename sf d i p nm = (d', r) \<Longrightarrow> versions d' = versions d \<and> vchunks d' = vchunks d"
  by (cases r) (auto dest: rename_Inl elim!: rename_Inr)

lemma delete_version_content:
  "delete_version sf d i k = (d', r) \<Longrightarrow> sql_ok d \<Longrightarrow> content_ok B d \<Longrightarrow> content_ok B d'"
  by (cases r) (auto dest: delete_version_Inl elim!: delete_version_Inr intro: content_delete_version)

lemma remove_file_content:
  "remove_file sf d i = (d', r) \<Longrightarrow> sql_ok d \<Longrightarrow> content_ok B d \<Longrightarrow> content_ok B d'"
  by (cases r) (auto dest!: remove_Inl remove_file_Inr intro: content_delete_node)

lemma remove_dir_content:
  "remove_dir sf d i = (d', r) \<Longrightarrow> sql_ok d \<Longrightarrow> content_ok B d \<Longrightarrow> content_ok B d'"
  by (cases r) (auto dest!: remove_Inl remove_dir_Inr intro: content_delete_node)

lemma set_file_content_Inl: "set_file_content B sf now d i m = (d', Inl e) \<Longrightarrow> d' = d"
  by (auto simp: set_file_content_def Let_def split: sum.splits option.splits)

lemma set_file_content_content:
  assumes run: "set_file_content B sf now d i m = (d', r)" and "sql_ok d" and "content_ok B d" and "wf_manifest m"
  shows "content_ok B d'"
proof (cases r)
  case (Inl e)
  then show ?thesis using run assms(3) set_file_content_Inl by blast
next
  case (Inr t)
  then have "set_file_content B sf now d i m = (d', Inr t)" using run by simp
  then show ?thesis
    using assms(2-4) new_version_fresh
    by (cases rule: set_file_content_cases) (auto intro!: content_add_version)
qed

section \<open>The live set\<close>

lemma parse_hashes_hex:
  assumes "blake3_ok B"
  shows "(\<And>s. s \<in> set ss \<Longrightarrow> \<exists>h. s = to_hex B h) \<Longrightarrow>
    parse_hashes B ss acc = Inr (acc \<union> {h. to_hex B h \<in> set ss})"
proof (induction ss arbitrary: acc)
  case (Cons s ss)
  then obtain h where h: "s = to_hex B h" by auto
  then have "{k. to_hex B k \<in> set (s # ss)} = insert h {k. to_hex B k \<in> set ss}"
    by (auto simp: to_hex_inject [OF assms])
  then show ?case using Cons h assms by simp
qed simp

lemma set_encode_all: "c_hash ` set (encode_all B v k cs) = to_hex B ` cr_hash ` set cs"
  by (induction cs arbitrary: k) auto

lemma set_chunk_rows: "set (chunk_rows d v) = {c \<in> set (vchunks d). c_version c = v}"
  by (auto simp: chunk_rows_def)

text \<open>The hashes of all versions' manifests.\<close>

definition live_hashes :: "blake3_lib \<Rightarrow> db \<Rightarrow> hash set" where
  "live_hashes B d = {h. \<exists>w \<in> set (versions d). \<exists>m. version_manifest B d w m \<and> h \<in> manifest_hashes m}"

lemma referenced_live:
  assumes B: "blake3_ok B" and sql: "sql_ok d" and content: "content_ok B d"
  shows "referenced_chunk_hashes B no_sql_faults d = Inr (live_hashes B d)"
proof -
  have row: "\<exists>w \<in> set (versions d). \<exists>m. version_manifest B d w m \<and> c_hash c \<in> to_hex B ` manifest_hashes m"
    if c: "c \<in> set (vchunks d)" for c
  proof -
    have "c_version c \<in> version_ids d" using sql c by (simp add: sql_ok_def image_subset_iff)
    then obtain w where w: "w \<in> set (versions d)" "v_id w = c_version c" by (auto simp: version_ids_def)
    obtain m where m: "version_manifest B d w m" using content w(1) by (rule content_okE)
    have "c \<in> set (encode_all B (v_id w) 0 (chunks m))"
      using m c w(2) set_chunk_rows [of d "v_id w"] by (auto simp: version_manifest_def)
    then have "c_hash c \<in> to_hex B ` manifest_hashes m"
      using set_encode_all [of B "v_id w" 0 "chunks m"] by (auto simp: manifest_hashes_def)
    then show ?thesis using w(1) m by blast
  qed
  have recorded: "to_hex B h \<in> c_hash ` set (vchunks d)" if live: "h \<in> live_hashes B d" for h
  proof -
    obtain w m where "version_manifest B d w m" "h \<in> manifest_hashes m"
      using live by (auto simp: live_hashes_def)
    then have "to_hex B h \<in> c_hash ` set (chunk_rows d (v_id w))"
      using set_encode_all [of B "v_id w" 0 "chunks m"] by (auto simp: version_manifest_def manifest_hashes_def)
    then show ?thesis by (auto simp: set_chunk_rows)
  qed
  have "{h. to_hex B h \<in> c_hash ` set (vchunks d)} = live_hashes B d"
    using row recorded by (fastforce simp: live_hashes_def to_hex_inject [OF B])
  moreover have "\<exists>h. s = to_hex B h" if "s \<in> c_hash ` set (vchunks d)" for s using row that by blast
  ultimately show ?thesis
    using parse_hashes_hex [OF B, of "remdups (map c_hash (vchunks d))" "{}"]
    by (simp add: referenced_chunk_hashes_def)
qed

end
