(* ===== verification/Meta_Properties.thy ===== *)
theory Meta_Properties
  imports Meta_Content Sample_Env "HOL-Library.Multiset"
begin

text \<open>
  The properties of the metadata store (\<open>crates/vfs/src/meta.rs\<close>): its invariant over every
  run, what can be read back from it, version history, the tree and its walks, deletion
  and the live set of garbage collection.
\<close>

section \<open>Runs of the store\<close>

text \<open>
  A run of the store as the file system drives it: new nodes and moved nodes go under a
  collection, content is set on files only and with the well-formed manifests
  \<open>store_file\<close> makes, the root is not removed, and a node is not moved below itself. Any
  statement may fail.
\<close>

inductive meta_run :: "blake3_lib \<Rightarrow> db \<Rightarrow> bool" for B :: blake3_lib where
  run_open: "meta_run B (open_in_memory now)"
| run_insert: "meta_run B d \<Longrightarrow> find_node d p = Some q \<Longrightarrow> n_is_dir q \<noteq> 0
    \<Longrightarrow> insert_node sf now d p nm dir = (d', r) \<Longrightarrow> meta_run B d'"
| run_write: "meta_run B d \<Longrightarrow> find_node d i = Some f \<Longrightarrow> n_is_dir f = 0 \<Longrightarrow> wf_manifest m
    \<Longrightarrow> set_file_content B sf now d i m = (d', t) \<Longrightarrow> meta_run B d'"
| run_delete_version: "meta_run B d \<Longrightarrow> delete_version sf d i k = (d', u) \<Longrightarrow> meta_run B d'"
| run_remove_file: "meta_run B d \<Longrightarrow> remove_file sf d i = (d', u) \<Longrightarrow> meta_run B d'"
| run_remove_dir: "meta_run B d \<Longrightarrow> i \<noteq> ROOT_ID \<Longrightarrow> remove_dir sf d i = (d', u) \<Longrightarrow> meta_run B d'"
| run_rename: "meta_run B d \<Longrightarrow> find_node d p = Some q \<Longrightarrow> n_is_dir q \<noteq> 0 \<Longrightarrow> \<not> anc d i p
    \<Longrightarrow> rename sf d i p nm = (d', u) \<Longrightarrow> meta_run B d'"
| run_set_modified: "meta_run B d \<Longrightarrow> set_modified sf d i tm = (d', u) \<Longrightarrow> meta_run B d'"

lemma content_open: "content_ok B (open_in_memory now)"
  by (simp add: content_ok_def open_in_memory_def migrate_def find_node_def)

lemma meta_run_ok: "meta_run B d \<Longrightarrow> store_ok B d"
proof (induction rule: meta_run.induct)
  case (run_open now)
  then show ?case by (simp add: store_ok_def migrate_keeps content_open)
next
  case (run_insert d p q sf now nm dir d' r)
  then have "db_ok d'" by (auto intro: insert_node_keeps)
  then show ?case using run_insert insert_node_same by (auto simp: store_ok_def intro: content_same_versions)
next
  case (run_write d i f m sf now d' t)
  then have "db_ok d'" by (auto intro: set_file_content_keeps)
  then show ?case using run_write set_file_content_content by (auto simp: store_ok_def)
next
  case (run_delete_version d sf i k d' u)
  then show ?case
    using delete_version_keeps [OF run_delete_version(2)] delete_version_content [OF run_delete_version(2)]
    by (auto simp: store_ok_def)
next
  case (run_remove_file d sf i d' u)
  then show ?case
    using remove_file_keeps [OF run_remove_file(2)] remove_file_content [OF run_remove_file(2)]
    by (auto simp: store_ok_def)
next
  case (run_remove_dir d i sf d' u)
  then show ?case
    using remove_dir_keeps [OF run_remove_dir(3)] remove_dir_content [OF run_remove_dir(3)]
    by (auto simp: store_ok_def)
next
  case (run_rename d p q i sf nm d' u)
  then have "db_ok d'" by (auto intro: rename_keeps)
  then show ?case using run_rename rename_same by (auto simp: store_ok_def intro: content_same_versions)
next
  case (run_set_modified d sf i tm d' u)
  then have "db_ok d'" by (auto intro: set_modified_keeps)
  then show ?case using run_set_modified set_modified_same by (auto simp: store_ok_def intro: content_same_versions)
qed

text \<open>The store of the witnesses: a collection \<open>docs\<close> holding a file \<open>a.md\<close> with one version.\<close>

definition sample_hello :: manifest where
  "sample_hello = \<lparr>total_size = 5, chunks = [\<lparr>cr_hash = hash_of sample_blake3 ''hello'', cr_offset = 0, cr_length = 5\<rparr>]\<rparr>"

definition sample_bye :: manifest where
  "sample_bye = \<lparr>total_size = 3, chunks = [\<lparr>cr_hash = Hash 9, cr_offset = 0, cr_length = 3\<rparr>]\<rparr>"

lemma sample_manifests_wf: "wf_manifest sample_hello" "wf_manifest sample_bye"
  by (simp_all add: wf_manifest_def sample_hello_def sample_bye_def)

definition sample_node :: "i64 \<Rightarrow> i64 option \<Rightarrow> bytes \<Rightarrow> i64 \<Rightarrow> node_row" where
  "sample_node i p nm dir = \<lparr>n_id = i, n_parent = p, n_name = nm, n_is_dir = dir, n_size = 0,
     n_created = 0, n_modified = 0, n_current = None\<rparr>"

definition sample_db :: db where
  "sample_db = \<lparr>nodes = [sample_node 1 None [] 1, sample_node 2 (Some 1) ''docs'' 1,
       (sample_node 3 (Some 2) ''a.md'' 0)\<lparr>n_size := 5, n_modified := 3, n_current := Some 1\<rparr>],
     versions = [\<lparr>v_id = 1, v_node = 3, v_number = 1, v_size = 5, v_created = 3\<rparr>],
     vchunks = encode_all sample_blake3 1 0 (chunks sample_hello)\<rparr>"

text \<open>It is what four operations make of a fresh store.\<close>

lemmas sample_simps = sample_node_def find_node_def find_child_def find_number_def find_version_def
  next_rowid_def ROOT_ID_def time_to_millis_def as_i64_def as_u64_def u64_as_i64_def

lemma sample_db_run: "meta_run sample_blake3 sample_db"
proof -
  let ?d0 = "\<lparr>nodes = [sample_node 1 None [] 1], versions = [], vchunks = []\<rparr>"
  let ?d1 = "?d0\<lparr>nodes := [sample_node 1 None [] 1, sample_node 2 (Some 1) ''docs'' 1]\<rparr>"
  let ?d2 = "?d0\<lparr>nodes := [sample_node 1 None [] 1, sample_node 2 (Some 1) ''docs'' 1, sample_node 3 (Some 2) ''a.md'' 0]\<rparr>"
  have "open_in_memory 0 = ?d0" by (simp add: open_in_memory_def migrate_def sample_simps)
  then have r0: "meta_run sample_blake3 ?d0" by (metis run_open)
  have "\<exists>n. insert_node no_sql_faults 0 ?d0 1 ''docs'' True = (?d1, n)"
    by (simp add: insert_node_def insert_node_row_def sample_simps)
  then have r1: "meta_run sample_blake3 ?d1"
    using run_insert [OF r0, of 1 "sample_node 1 None [] 1"] by (auto simp: sample_simps)
  have "\<exists>n. insert_node no_sql_faults 0 ?d1 2 ''a.md'' False = (?d2, n)"
    by (simp add: insert_node_def insert_node_row_def sample_simps)
  then have r2: "meta_run sample_blake3 ?d2"
    using run_insert [OF r1, of 2 "sample_node 2 (Some 1) ''docs'' 1"] by (auto simp: sample_simps)
  have "\<exists>t. set_file_content sample_blake3 no_sql_faults 3000000 ?d2 3 sample_hello = (sample_db, t)"
    by (simp add: set_file_content_def append_version_def insert_version_row_def max_number_def
        insert_chunk_row_def update_node_def sample_db_def sample_hello_def sample_simps encode_chunk_def)
  then show ?thesis
    using run_write [OF r2, of 3 "sample_node 3 (Some 2) ''a.md'' 0" sample_hello] sample_manifests_wf
    by (auto simp: sample_simps)
qed

lemma sample_db_ok: "store_ok sample_blake3 sample_db" "db_ok sample_db"
    "sql_ok sample_db" "tree_ok sample_db" "content_ok sample_blake3 sample_db"
  using meta_run_ok [OF sample_db_run] by (auto simp: store_ok_def)

definition sample_file :: node_row where
  "sample_file = (sample_node 3 (Some 2) ''a.md'' 0)\<lparr>n_size := 5, n_modified := 3, n_current := Some 1\<rparr>"

lemma sample_lookups:
  "find_node sample_db 3 = Some sample_file" "find_node sample_db 2 = Some (sample_node 2 (Some 1) ''docs'' 1)"
  "n_is_dir sample_file = 0" "n_current sample_file = Some 1" "n_modified sample_file = 3"
  by (simp_all add: sample_db_def sample_file_def sample_simps)

section \<open>The properties\<close>



lemma set_content_readback:
  assumes B: "blake3_ok B" and ok: "store_ok B d" and r: "find_node d i = Some r" "n_is_dir r = 0"
    and m: "wf_manifest m"
  shows "\<exists>d' t. set_file_content B no_sql_faults now d i m = (d', Inr t) \<and> store_ok B d'
    \<and> load_manifest B no_sql_faults d' i = Inr m
    \<and> (\<forall>v. v \<in> version_ids d \<longrightarrow> read_manifest B no_sql_faults d' v = read_manifest B no_sql_faults d v)
    \<and> (\<forall>j. j \<noteq> i \<longrightarrow> load_manifest B no_sql_faults d' j = load_manifest B no_sql_faults d j)"
proof -
  have db: "db_ok d" and sql: "sql_ok d" and hist: "history_ok d" and content: "content_ok B d"
    using ok by (auto simp: store_ok_def db_ok_def)
  have cur: "v \<in> version_ids d" if "n_current r = Some v" for v
    using current_okE [OF hist _ that] find_node_Some [OF r(1)] by (metis image_eqI version_ids_def)
  show ?thesis
  proof (cases "\<exists>v. n_current r = Some v \<and> read_manifest B no_sql_faults d v = Inr m")
    case True
    then obtain v where v: "n_current r = Some v" "read_manifest B no_sql_faults d v = Inr m" by blast
    then have "set_file_content B no_sql_faults now d i m = (d, Inr (millis_to_time (n_modified r)))"
      using r by (simp add: set_file_content_def)
    moreover have "load_manifest B no_sql_faults d i = Inr m"
      using load_manifest_eq [OF r(1) v(1) cur [OF v(1)], of B] v(2) by simp
    ultimately show ?thesis using ok by blast
  next
    case False
    let ?w = "new_version d i m (time_to_millis now)"
    let ?d = "add_version B ?w m d"
    have fresh: "v_id ?w \<notin> version_ids d" by (rule new_version_fresh)
    have i: "i \<in> node_ids d" using r(1) find_node_None [of d i] by auto
    have "\<exists>m'. read_manifest B no_sql_faults d v = Inr m'" if "n_current r = Some v" for v
      using content cur [OF that] version_manifest_read [OF B] unfolding content_ok_def version_ids_def by fastforce
    then have run: "set_file_content B no_sql_faults now d i m = (?d, Inr (millis_to_time (time_to_millis now)))"
      using False r append_version_succeeds [OF sql i]
      by (auto simp: set_file_content_def Let_def split: option.splits)
    have "store_ok B ?d"
      using new_version_keeps [OF db r] content_add_version [OF sql content fresh m] by (simp add: store_ok_def)
    moreover have rows: "chunk_rows ?d v = (if v = v_id ?w then encode_all B v 0 (chunks m) else chunk_rows d v)" for v
      using chunk_rows_add_version [OF sql fresh] by simp
    have "load_manifest B no_sql_faults ?d i = read_manifest B no_sql_faults ?d (v_id ?w)"
      by (rule load_manifest_eq [of _ _ "r\<lparr>n_current := Some (v_id ?w), n_size := v_size ?w, n_modified := v_created ?w\<rparr>"])
        (simp_all add: find_node_add_version r)
    then have "load_manifest B no_sql_faults ?d i = Inr m"
      using read_manifest_encoded [OF B m, of ?d "v_id ?w"] rows by simp
    moreover have old: "read_manifest B no_sql_faults ?d v = read_manifest B no_sql_faults d v" if "v \<in> version_ids d" for v
      using that fresh rows by (intro read_manifest_cong) auto
    moreover have "load_manifest B no_sql_faults ?d j = load_manifest B no_sql_faults d j" if "j \<noteq> i" for j
    proof -
      have fv: "v \<in> version_ids d" if "find_node d j = Some q" "n_current q = Some v" for q v
        using current_okE [OF hist _ that(2)] find_node_Some [OF that(1)] by (metis image_eqI version_ids_def)
      have "find_version ?d v = None \<longleftrightarrow> find_version d v = None" if "v \<in> version_ids d" for v
        using that by (simp add: find_version_None)
      then show ?thesis
        using that fv old find_version_None
        by (cases "find_node d j"; cases "n_current (the (find_node d j))")
          (auto simp: load_manifest_def find_node_add_version split: option.splits)
    qed
    ultimately show ?thesis using run by blast
  qed
qed

text \<open>
  C6. Content round trip and immutability: \<open>set_file_content\<close> on a file succeeds, and
  \<open>load_manifest\<close> then returns exactly the manifest that was set. Every older version still
  reads as before, and so does the current content of every other file.
\<close>

theorem set_content_roundtrip:
  assumes "blake3_ok B" and "store_ok B d" and "find_node d i = Some r" "n_is_dir r = 0"
    and "wf_manifest m"
  shows "\<exists>d' t. set_file_content B no_sql_faults now d i m = (d', Inr t) \<and> store_ok B d'
    \<and> load_manifest B no_sql_faults d' i = Inr m
    \<and> (\<forall>v. v \<in> version_ids d \<longrightarrow> read_manifest B no_sql_faults d' v = read_manifest B no_sql_faults d v)
    \<and> (\<forall>j. j \<noteq> i \<longrightarrow> load_manifest B no_sql_faults d' j = load_manifest B no_sql_faults d j)"
  by (rule set_content_readback [OF assms])

lemma set_content_roundtrip_witness:
  "\<exists>d' t. set_file_content sample_blake3 no_sql_faults 5000000 sample_db 3 sample_bye = (d', Inr t) \<and> store_ok sample_blake3 d'
    \<and> load_manifest sample_blake3 no_sql_faults d' 3 = Inr sample_bye
    \<and> load_manifest sample_blake3 no_sql_faults d' 2 = load_manifest sample_blake3 no_sql_faults sample_db 2"
  using set_content_roundtrip [OF sample_blake3_ok sample_db_ok(1) sample_lookups(1,3) sample_manifests_wf(2), of 5000000]
  by fastforce

text \<open>
  C7. History: setting content that differs from the current content appends one version at
  the end of the file's history, numbered one more than the highest so far, of the
  content's size, and makes it current; setting the current content again changes nothing
  at all and answers the stored modification time.
\<close>

theorem set_content_history:
  assumes B: "blake3_ok B" and ok: "store_ok B d" and r: "find_node d i = Some r" "n_is_dir r = 0"
    and m: "wf_manifest m" and cur: "load_manifest B no_sql_faults d i = Inr m0"
    and run: "set_file_content B no_sql_faults now d i m = (d', Inr t)"
  shows "if n_current r \<noteq> None \<and> m = m0 then d' = d \<and> t = millis_to_time (n_modified r)
    else t = millis_to_time (time_to_millis now)
      \<and> (\<exists>w r'. versions_of d' i = versions_of d i @ [w] \<and> v_number w = max_number d i + 1
        \<and> (\<forall>w' \<in> set (versions_of d i). v_number w' < v_number w)
        \<and> as_u64 (v_size w) = total_size m \<and> find_node d' i = Some r' \<and> n_current r' = Some (v_id w)
        \<and> n_size r' = v_size w \<and> millis_to_time (n_modified r') = t)
      \<and> (\<forall>j. j \<noteq> i \<longrightarrow> versions_of d' j = versions_of d j \<and> find_node d' j = find_node d j)"
proof -
  have hist: "history_ok d" and content: "content_ok B d" using ok by (auto simp: store_ok_def db_ok_def)
  have vread: "load_manifest B no_sql_faults d i = read_manifest B no_sql_faults d v" if v: "n_current r = Some v" for v
  proof (rule load_manifest_eq [OF r(1) v])
    show "v \<in> version_ids d"
      using current_okE [OF hist _ v] find_node_Some [OF r(1)] by (metis image_eqI version_ids_def)
  qed
  let ?ms = "time_to_millis now" and ?w = "new_version d i m (time_to_millis now)"
  show ?thesis
  proof (cases "n_current r \<noteq> None \<and> m = m0")
    case True
    then obtain v where v: "n_current r = Some v" by blast
    then have "read_manifest B no_sql_faults d v = Inr m" using vread cur True by simp
    then have "d' = d \<and> t = millis_to_time (n_modified r)" using run r v by (simp add: set_file_content_def)
    then show ?thesis using True by simp
  next
    case False
    from run have "d' = add_version B ?w m d \<and> t = millis_to_time ?ms"
    proof (cases rule: set_file_content_cases)
      case (unchanged r1 v)
      then show ?thesis using False vread cur r by auto
    qed simp
    moreover have num: "v_number w' < v_number ?w" if "w' \<in> set (versions d)" "v_node w' = i" for w'
      using max_number_ge [OF that] by simp
    moreover have "versions_of (add_version B ?w m d) i = versions_of d i @ [?w]"
      by (rule versions_of_add_version(1)) (use num in auto)
    moreover have "j \<noteq> i \<Longrightarrow> versions_of (add_version B ?w m d) j = versions_of d j" for j
      by (rule versions_of_add_version(2)) (use num in auto)
    moreover have "w' \<in> set (versions_of d i) \<Longrightarrow> v_number w' < v_number ?w" for w'
      using num by (auto simp: versions_of_def)
    ultimately show ?thesis
      using False r by (auto simp: find_node_add_version intro!: exI [of _ ?w])
  qed
qed

lemma sample_load: "load_manifest sample_blake3 no_sql_faults sample_db 3 = Inr sample_hello"
proof -
  have "chunk_rows sample_db 1 = encode_all sample_blake3 1 0 (chunks sample_hello)"
    by (simp add: chunk_rows_def sample_db_def sample_hello_def)
  then have "read_manifest sample_blake3 no_sql_faults sample_db 1 = Inr sample_hello"
    by (rule read_manifest_encoded [OF sample_blake3_ok sample_manifests_wf(1)])
  then show ?thesis
    using load_manifest_eq [OF sample_lookups(1,4), of sample_blake3] by (simp add: version_ids_def sample_db_def)
qed

lemma set_content_history_witness:
  "\<exists>d'. set_file_content sample_blake3 no_sql_faults 5000000 sample_db 3 sample_bye = (d', Inr 5000000)
    \<and> (\<exists>w r'. versions_of d' 3 = versions_of sample_db 3 @ [w] \<and> v_number w = 2 \<and> as_u64 (v_size w) = 3
        \<and> find_node d' 3 = Some r' \<and> n_current r' = Some (v_id w))"
proof -
  obtain d' t where run: "set_file_content sample_blake3 no_sql_faults 5000000 sample_db 3 sample_bye = (d', Inr t)"
    using set_content_readback [OF sample_blake3_ok sample_db_ok(1) sample_lookups(1,3) sample_manifests_wf(2)] by blast
  have "max_number sample_db 3 = 1" by (simp add: max_number_def sample_db_def)
  moreover have "sample_bye \<noteq> sample_hello" by (simp add: sample_bye_def sample_hello_def)
  ultimately show ?thesis
    using set_content_history [OF sample_blake3_ok sample_db_ok(1) sample_lookups(1,3) sample_manifests_wf(2) sample_load run] run
    by (auto simp: time_to_millis_def millis_to_time_def as_i64_def as_u64_def u64_as_i64_def sample_bye_def)
qed

lemma insert_node_Inl: "insert_node sf now d i nm dir = (d', Inl e) \<Longrightarrow> d' = d"
  by (auto simp: insert_node_def Let_def split: sum.splits prod.splits)

lemma find_node_length: "find_node d i = None \<longleftrightarrow> filter (\<lambda>r. n_id r = i) (nodes d) = []"
  by (auto simp: find_node_def find_None_conv filter_empty_conv)

lemma set_modified_Inl: "set_modified sf d i tm = (d', Inl e) \<Longrightarrow> d' = d"
proof -
  assume run: "set_modified sf d i tm = (d', Inl e)"
  have "update_node i f d = d" if "filter (\<lambda>r. n_id r = i) (nodes d) = []" for f
  proof -
    have "map (\<lambda>r. if n_id r = i then f r else r) (nodes d) = nodes d"
      by (rule map_idI) (use that in \<open>auto simp: filter_empty_conv\<close>)
    then show ?thesis by (simp add: update_node_def)
  qed
  then show ?thesis using run by (auto simp: set_modified_def split: sum.splits prod.splits if_splits)
qed

lemma no_trace: "(\<And>d' e. f = (d', Inl e) \<Longrightarrow> d' = d) \<Longrightarrow> \<not> (\<exists>e. snd f = Inl e \<and> fst f \<noteq> d)"
  by (cases f) auto


text \<open>
  C12. \<open>delete_version\<close>, without statement failures: an unknown number is \<open>NotFound\<close>, the
  current version is refused, and any other version disappears from the history while
  every other version reads as before and every node, current content included, is
  untouched.
\<close>

theorem delete_version_contract:
  assumes ok: "db_ok d"
  shows "case find_number d i (u64_as_i64 k) of
      None \<Rightarrow> delete_version no_sql_faults d i k = (d, Inl MetaNotFound)
    | Some w \<Rightarrow> \<exists>n. find_node d i = Some n \<and>
        (if n_current n = Some (v_id w) then delete_version no_sql_faults d i k = (d, Inl MetaCurrentVersion)
         else \<exists>d'. delete_version no_sql_faults d i k = (d', Inr ()) \<and> nodes d' = nodes d
           \<and> (\<forall>x. x \<in> set (versions d') \<longleftrightarrow> x \<in> set (versions d) \<and> x \<noteq> w)
           \<and> (\<forall>v. v \<in> version_ids d' \<longrightarrow> read_manifest B sf d' v = read_manifest B sf d v)
           \<and> (\<forall>j. load_manifest B no_sql_faults d' j = load_manifest B no_sql_faults d j))"
proof (cases "find_number d i (u64_as_i64 k)")
  case None
  then show ?thesis by (simp add: delete_version_def)
next
  case (Some w)
  have sql: "sql_ok d" and hist: "history_ok d" using ok by auto
  have w: "w \<in> set (versions d)" "v_node w = i" using Some find_number_iff [OF sql] by auto
  then have "i \<in> node_ids d" using sql by (auto simp: sql_ok_def)
  then obtain n where n: "find_node d i = Some n" using find_node_None [of d i] by auto
  let ?d = "delete_version_rows (\<lambda>r. v_id r = v_id w) d"
  have same: "v_id x = v_id w \<longleftrightarrow> x = w" if "x \<in> set (versions d)" for x
    using version_key [OF sql that w(1)] by blast
  have keep: "read_manifest B' sf' ?d v = read_manifest B' sf' d v" if "v \<in> version_ids d" "v \<noteq> v_id w" for B' sf' v
  proof -
    obtain x where "x \<in> set (versions d)" "v_id x = v" using \<open>v \<in> version_ids d\<close> by (auto simp: version_ids_def)
    then show ?thesis
      using chunk_rows_delete_version [OF sql, of x "\<lambda>r. v_id r = v_id w"] \<open>v \<noteq> v_id w\<close>
      by (intro read_manifest_cong) auto
  qed
  have left: "version_ids ?d = version_ids d - {v_id w}" by (auto simp: version_ids_def)
  have del: "\<exists>d'. delete_version no_sql_faults d i k = (d', Inr ()) \<and> nodes d' = nodes d
           \<and> (\<forall>x. x \<in> set (versions d') \<longleftrightarrow> x \<in> set (versions d) \<and> x \<noteq> w)
           \<and> (\<forall>v. v \<in> version_ids d' \<longrightarrow> read_manifest B sf d' v = read_manifest B sf d v)
           \<and> (\<forall>j. load_manifest B no_sql_faults d' j = load_manifest B no_sql_faults d j)"
    if cur: "n_current n \<noteq> Some (v_id w)"
  proof -
    have "load_manifest B no_sql_faults ?d j = load_manifest B no_sql_faults d j" for j
    proof (cases "\<exists>q v. find_node d j = Some q \<and> n_current q = Some v")
      case True
      then obtain q v where q: "find_node d j = Some q" "n_current q = Some v" by blast
      obtain x where x: "x \<in> set (versions d)" "v_id x = v" "v_node x = j"
        using current_okE [OF hist _ q(2)] find_node_Some [OF q(1)] by metis
      have "v \<noteq> v_id w" using x w same [of x] q n cur by auto
      moreover have "v \<in> version_ids d" using x by (auto simp: version_ids_def)
      ultimately show ?thesis
        using q keep left load_manifest_eq [of ?d j q v B] load_manifest_eq [of d j q v B] by simp
    next
      case False
      then show ?thesis by (auto simp: load_manifest_def split: option.splits)
    qed
    moreover have "delete_version no_sql_faults d i k = (?d, Inr ())"
      using Some n cur by (simp add: delete_version_def)
    ultimately show ?thesis using same keep left by auto
  qed
  show ?thesis using Some n del by (auto simp: delete_version_def)
qed

lemma delete_version_contract_witness:
  "\<exists>w n. find_number sample_db 3 1 = Some w \<and> find_node sample_db 3 = Some n \<and> n_current n = Some (v_id w)
    \<and> delete_version no_sql_faults sample_db 3 1 = (sample_db, Inl MetaCurrentVersion)"
  using delete_version_contract [OF sample_db_ok(2), of 3 1] sample_lookups
  by (simp add: u64_as_i64_def) (simp add: find_number_def sample_db_def)

text \<open>
  C11. Paths: every node has exactly one sequence of names from the root; \<open>lookup_path\<close> of
  those names finds it, every path that resolves is one of them, and \<open>path_of\<close> returns them
  joined by \<open>/\<close>, as long as the node is less than 10,000 levels deep (and reports
  corruption for a deeper one).
\<close>

theorem path_of_inverse:
  assumes "db_ok d" and "find_node d i = Some r"
  shows "\<exists>!segs. path_to d i segs
    \<and> lookup_path no_sql_faults d segs = Inr (row_to_node r)
    \<and> path_of no_sql_faults d i = (if length segs < 10000 then Inr (Some (join_names segs)) else Inl MetaCorrupt)
    \<and> (\<forall>segs' n. lookup_path no_sql_faults d segs' = Inr n \<and> node_id n = i \<longrightarrow> segs' = segs)"
proof -
  have sql: "sql_ok d" and tree: "tree_ok d" using assms(1) by auto
  obtain segs where p: "path_to d i segs" using tree_okD(3) [OF tree assms(2)] by blast
  have "lookup_path no_sql_faults d segs = Inr (row_to_node r)"
    using lookup_path_to [OF sql tree p] assms(2) by auto
  moreover have "path_of no_sql_faults d i = (if length segs < 10000 then Inr (Some (join_names segs)) else Inl MetaCorrupt)"
    by (simp add: path_of_def MAX_DEPTH_def path_walk_path [OF p])
  moreover have "segs' = segs" if "lookup_path no_sql_faults d segs' = Inr n" "node_id n = i" for segs' n
    using lookup_path_Inr [OF sql tree that(1)] that(2) path_to_unique [OF p] by auto
  ultimately show ?thesis using p path_to_unique by blast
qed

lemma sample_docs_path: "path_to sample_db 2 [''docs'']"
proof -
  have "path_to sample_db 1 []" by (rule path_root [of _ _ "sample_node 1 None [] 1"]) (simp_all add: sample_db_def sample_simps)
  then show ?thesis
    using path_step [of sample_db 2 "sample_node 2 (Some 1) ''docs'' 1" 1 "[]"] sample_lookups by (simp add: sample_node_def)
qed

lemma path_of_inverse_witness:
  "path_of no_sql_faults sample_db 3 = Inr (Some ''/docs/a.md'')
    \<and> lookup_path no_sql_faults sample_db [''docs'', ''a.md''] = Inr (row_to_node sample_file)"
proof -
  have p: "path_to sample_db 3 [''docs'', ''a.md'']"
    using path_step [of sample_db 3 sample_file 2 "[''docs'']"] sample_docs_path sample_lookups
    by (simp add: sample_file_def sample_node_def)
  obtain segs where s: "path_to sample_db 3 segs" "lookup_path no_sql_faults sample_db segs = Inr (row_to_node sample_file)"
    "path_of no_sql_faults sample_db 3 = (if length segs < 10000 then Inr (Some (join_names segs)) else Inl MetaCorrupt)"
    using ex1_implies_ex [OF path_of_inverse [OF sample_db_ok(2) sample_lookups(1)]] by blast
  have "segs = [''docs'', ''a.md'']" by (rule path_to_unique [OF s(1) p])
  then show ?thesis using s by (simp add: join_names_def)
qed

text \<open>
  C14. \<open>is_ancestor_or_self\<close> decides, for a node less than 10,000 levels deep, whether the
  first node is the second or lies above it in the tree.
\<close>

theorem is_ancestor_or_self_correct:
  assumes "db_ok d" and "path_to d i segs" and "length segs < 10000"
  shows "is_ancestor_or_self no_sql_faults d a i = Inr (anc d a i)"
  using ancestor_walk_path [OF assms(2), of MAX_DEPTH] assms(3) by (simp add: is_ancestor_or_self_def MAX_DEPTH_def)

lemma is_ancestor_or_self_correct_witness:
  "is_ancestor_or_self no_sql_faults sample_db 1 2 = Inr (anc sample_db 1 2)"
  by (rule is_ancestor_or_self_correct [OF sample_db_ok(2) sample_docs_path]) simp

text \<open>
  C9. \<open>rename\<close> of a node to a free name in a collection outside its own subtree keeps the
  invariant and moves the subtree as a whole: every node at or below it is found under the
  new path with the rest of its path unchanged, every other node keeps its path, and no
  file's content, history or modification time changes.
\<close>

theorem rename_moves_subtree:
  assumes ok: "db_ok d" and i: "path_to d i pre" and p: "path_to d p pp" and np: "\<not> anc d i p"
    and dir: "find_node d p = Some q" "n_is_dir q \<noteq> 0" and free: "find_child d p nm = None"
  shows "\<exists>d'. rename no_sql_faults d i p nm = (d', Inr ()) \<and> db_ok d'
    \<and> (\<forall>j rest. anc d i j \<and> path_to d j (pre @ rest) \<longrightarrow> path_to d' j (pp @ nm # rest))
    \<and> (\<forall>j segs. \<not> anc d i j \<and> path_to d j segs \<longrightarrow> path_to d' j segs)
    \<and> versions d' = versions d \<and> vchunks d' = vchunks d
    \<and> (\<forall>j. map_option (\<lambda>r. (n_current r, n_size r, n_modified r)) (find_node d' j)
          = map_option (\<lambda>r. (n_current r, n_size r, n_modified r)) (find_node d j))"
proof -
  have sql: "sql_ok d" using ok by blast
  obtain r where r: "find_node d i = Some r" using path_to_find [OF i] by blast
  have free': "n_name x \<noteq> nm" if "x \<in> set (nodes d)" "n_id x \<noteq> i" "n_parent x = Some p" for x
    using free that by (auto simp: find_child_None)
  have run: "rename no_sql_faults d i p nm = (move i p nm d, Inr ())"
    using r dir(1) free' by (auto simp: rename_def update_parent_row_def move_def)
  have keep: "db_ok (move i p nm d)" by (rule move_keeps [OF ok r dir np free'])
  have below: "path_to (move i p nm d) j (pp @ nm # rest)" if "anc d i j" "path_to d j (pre @ rest)" for j rest
    using path_to_move_below [OF i p np that(1), of nm] path_to_unique [OF that(2)] by fastforce
  have rest: "map_option (\<lambda>r. (n_current r, n_size r, n_modified r)) (find_node (move i p nm d) j)
      = map_option (\<lambda>r. (n_current r, n_size r, n_modified r)) (find_node d j)" for j
    by (simp add: find_node_move option.map_comp comp_def)
  show ?thesis
    using run keep below rest path_to_move_other
    by (intro exI [of _ "move i p nm d"] conjI) simp_all
qed

lemma rename_moves_subtree_witness:
  "\<exists>d'. rename no_sql_faults sample_db 2 1 ''notes'' = (d', Inr ()) \<and> db_ok d' \<and> path_to d' 2 [''notes'']"
proof -
  have root: "path_to sample_db 1 []" by (rule path_root [of _ _ "sample_node 1 None [] 1"]) (simp_all add: sample_db_def sample_simps)
  have "\<not> anc sample_db 2 1" using anc_root [OF sample_db_ok(4), of 2] by (auto simp: ROOT_ID_def)
  moreover have "find_node sample_db 1 = Some (sample_node 1 None [] 1)" "n_is_dir (sample_node 1 None [] 1) \<noteq> 0"
      "find_child sample_db 1 ''notes'' = None"
    by (simp_all add: sample_db_def sample_simps)
  ultimately obtain d' where "rename no_sql_faults sample_db 2 1 ''notes'' = (d', Inr ())" "db_ok d'"
    and "\<forall>j rest. anc sample_db 2 j \<and> path_to sample_db j ([''docs''] @ rest) \<longrightarrow> path_to d' j ([] @ ''notes'' # rest)"
    using rename_moves_subtree [OF sample_db_ok(2) sample_docs_path root, of "sample_node 1 None [] 1" "''notes''"] by blast
  moreover from this(3) have "path_to d' 2 [''notes'']"
    using sample_docs_path anc_self [of sample_db 2] by (metis append_Nil append_Nil2)
  ultimately show ?thesis by blast
qed

text \<open>
  C13. Deleting: \<open>remove_file\<close> and \<open>remove_dir\<close> refuse a missing node, a node of the other kind and a
  collection with children, each with its own error. Otherwise exactly the node, its
  versions and their chunk rows are gone; every other version reads as before.
\<close>

theorem remove_contract_meta:
  assumes ok: "db_ok d"
  shows "remove_file no_sql_faults d i = (case find_node d i of
        None \<Rightarrow> (d, Inl MetaNotFound)
      | Some r \<Rightarrow> if n_is_dir r \<noteq> 0 then (d, Inl MetaIsADirectory) else (delete_node_row i d, Inr ()))
    \<and> remove_dir no_sql_faults d i = (case find_node d i of
        None \<Rightarrow> (d, Inl MetaNotFound)
      | Some r \<Rightarrow> if n_is_dir r = 0 then (d, Inl MetaNotADirectory)
          else if (\<exists>c \<in> set (nodes d). n_parent c = Some i) then (d, Inl MetaNotEmpty)
          else (delete_node_row i d, Inr ()))
    \<and> (\<forall>x. x \<in> set (nodes (delete_node_row i d)) \<longleftrightarrow> x \<in> set (nodes d) \<and> \<not> anc d i (n_id x))
    \<and> (\<forall>w. w \<in> set (versions (delete_node_row i d)) \<longleftrightarrow> w \<in> set (versions d) \<and> \<not> anc d i (v_node w))
    \<and> (\<forall>c. c \<in> set (vchunks (delete_node_row i d)) \<longleftrightarrow> c \<in> set (vchunks d) \<and>
          \<not> (\<exists>w. w \<in> set (versions d) \<and> v_id w = c_version c \<and> anc d i (v_node w)))
    \<and> (\<forall>v. v \<in> version_ids (delete_node_row i d) \<longrightarrow>
          read_manifest B sf (delete_node_row i d) v = read_manifest B sf d v)"
proof -
  have sql: "sql_ok d" using ok by blast
  have files: "remove_file no_sql_faults d i = (case find_node d i of None \<Rightarrow> (d, Inl MetaNotFound)
      | Some r \<Rightarrow> if n_is_dir r \<noteq> 0 then (d, Inl MetaIsADirectory) else (delete_node_row i d, Inr ()))"
    by (simp add: remove_file_def delete_node_def get_node_eq split: option.splits)
  have dirs: "remove_dir no_sql_faults d i = (case find_node d i of None \<Rightarrow> (d, Inl MetaNotFound)
      | Some r \<Rightarrow> if n_is_dir r = 0 then (d, Inl MetaNotADirectory)
          else if (\<exists>c \<in> set (nodes d). n_parent c = Some i) then (d, Inl MetaNotEmpty)
          else (delete_node_row i d, Inr ()))"
    by (simp add: remove_dir_def get_node_eq split: option.splits)
  have "read_manifest B sf (delete_node_row i d) v = read_manifest B sf d v"
    if "v \<in> version_ids (delete_node_row i d)" for v
    using that chunk_rows_delete_node [OF sql]
    by (intro read_manifest_cong) (auto simp: version_ids_def delete_node_versions [OF sql])
  moreover have "c \<in> set (vchunks (delete_node_row i d)) \<longleftrightarrow> c \<in> set (vchunks d) \<and>
      \<not> (\<exists>w. w \<in> set (versions d) \<and> v_id w = c_version c \<and> anc d i (v_node w))" for c
    by (auto simp: delete_node_chunks [OF sql] image_iff)
  ultimately show ?thesis
    using files dirs by (auto simp: delete_node_nodes [OF sql] delete_node_versions [OF sql])
qed

lemma remove_contract_meta_witness:
  "remove_dir no_sql_faults sample_db 2 = (sample_db, Inl MetaNotEmpty)
    \<and> remove_file no_sql_faults sample_db 3 = (delete_node_row 3 sample_db, Inr ())"
proof -
  have "\<exists>c \<in> set (nodes sample_db). n_parent c = Some 2" by (simp add: sample_db_def sample_node_def)
  then show ?thesis
    using remove_contract_meta [OF sample_db_ok(2), of 2] remove_contract_meta [OF sample_db_ok(2), of 3] sample_lookups
    by (simp add: sample_node_def)
qed

text \<open>
  \<open>children\<close> lists exactly the direct children of a collection, in strictly ascending byte
  order of their names.
\<close>

theorem children_sorted:
  assumes "sql_ok d"
  shows "\<exists>rows. children no_sql_faults d p = Inr (map row_to_node rows)
    \<and> set rows = {r. r \<in> set (nodes d) \<and> n_parent r = Some p}
    \<and> sorted_wrt (<) (map node_name (map row_to_node rows))"
proof -
  let ?rows = "sort_key n_name (filter (\<lambda>r. n_parent r = Some p) (nodes d))"
  have dist: "distinct (map n_name (filter (\<lambda>r. n_parent r = Some p) (nodes d)))"
  proof -
    have ids: "distinct (nodes d)" using assms by (simp add: sql_ok_def distinct_map)
    have "x = y" if "x \<in> set (nodes d)" "y \<in> set (nodes d)" "n_parent x = Some p" "n_parent y = Some p" "n_name x = n_name y" for x y
      using find_child_iff [OF assms, of p "n_name x"] that by (metis option.inject)
    then show ?thesis using ids by (auto simp: distinct_map inj_on_def)
  qed
  have "mset (map n_name ?rows) = mset (map n_name (filter (\<lambda>r. n_parent r = Some p) (nodes d)))" by simp
  then have "distinct (map n_name ?rows)" using dist mset_eq_imp_distinct_iff by blast
  moreover have "sorted (map n_name ?rows)" by simp
  ultimately have "sorted_wrt (<) (map n_name ?rows)" by (simp add: strict_sorted_iff)
  then show ?thesis by (intro exI [of _ ?rows]) (auto simp: children_def comp_def)
qed

lemma children_sorted_witness:
  "\<exists>rows. children no_sql_faults sample_db 2 = Inr (map row_to_node rows)
    \<and> set rows = {r. r \<in> set (nodes sample_db) \<and> n_parent r = Some 2}
    \<and> sorted_wrt (<) (map node_name (map row_to_node rows))"
  by (rule children_sorted [OF sample_db_ok(3)])

text \<open>
  C10. The live set of garbage collection: on every state a run can reach,
  \<open>referenced_chunk_hashes\<close> succeeds and is exactly the set of chunk hashes of all
  versions of all files, old versions included.
\<close>

theorem referenced_hashes_exact:
  assumes "blake3_ok B" and "meta_run B d"
  shows "\<exists>live. referenced_chunk_hashes B no_sql_faults d = Inr live \<and>
    (\<forall>h. h \<in> live \<longleftrightarrow> (\<exists>v m. v \<in> version_ids d \<and> read_manifest B no_sql_faults d v = Inr m \<and> h \<in> manifest_hashes m))"
proof -
  have sql: "sql_ok d" and content: "content_ok B d" using meta_run_ok [OF assms(2)] by (auto simp: store_ok_def db_ok_def)
  have "h \<in> live_hashes B d \<longleftrightarrow> (\<exists>v m. v \<in> version_ids d \<and> read_manifest B no_sql_faults d v = Inr m \<and> h \<in> manifest_hashes m)" for h
  proof
    assume "h \<in> live_hashes B d"
    then show "\<exists>v m. v \<in> version_ids d \<and> read_manifest B no_sql_faults d v = Inr m \<and> h \<in> manifest_hashes m"
      using version_manifest_read [OF assms(1)] by (fastforce simp: live_hashes_def version_ids_def)
  next
    assume "\<exists>v m. v \<in> version_ids d \<and> read_manifest B no_sql_faults d v = Inr m \<and> h \<in> manifest_hashes m"
    then obtain w m where w: "w \<in> set (versions d)" "read_manifest B no_sql_faults d (v_id w) = Inr m" "h \<in> manifest_hashes m"
      by (auto simp: version_ids_def)
    obtain m' where "version_manifest B d w m'" using content w(1) by (rule content_okE)
    then show "h \<in> live_hashes B d" using w version_manifest_read [OF assms(1)] by (fastforce simp: live_hashes_def)
  qed
  then show ?thesis using referenced_live [OF assms(1) sql content] by blast
qed

lemma referenced_hashes_exact_witness:
  "\<exists>live. referenced_chunk_hashes sample_blake3 no_sql_faults sample_db = Inr live \<and>
    (\<forall>h. h \<in> live \<longleftrightarrow> (\<exists>v m. v \<in> version_ids sample_db \<and> read_manifest sample_blake3 no_sql_faults sample_db v = Inr m
       \<and> h \<in> manifest_hashes m))"
  by (rule referenced_hashes_exact [OF sample_blake3_ok sample_db_run])



end
