(* ===== verification/Search_Index.thy ===== *)
theory Search_Index
  imports Rust_Std
begin

text \<open>
  \<open>crates/index/src/lib.rs\<close>: the wrapper around the \<open>tantivy\<close> engine. The engine is not
  part of the repository: its writer, reader and searcher are the fields of \<open>tantivy_lib\<close>
  over an abstract engine state \<open>'t\<close>, and \<open>tantivy_ok\<close> states what its documentation
  promises of them in terms of three views of a state: the documents a commit would
  write, the committed ones and the ones a search sees.
\<close>

section \<open>The engine\<close>

record stored_doc =
  sd_node_id :: "u64 option"
  sd_body :: bytes

text \<open>A score is the 32 bits of an \<open>f32\<close>; an engine error is its text.\<close>

type_synonym score = u32
type_synonym tantivy_error = string

record 't tantivy_lib =
  tv_delete_term :: "u64 \<Rightarrow> 't \<Rightarrow> 't"
  tv_add_document :: "u64 \<Rightarrow> bytes \<Rightarrow> 't \<Rightarrow> 't \<times> (tantivy_error + unit)"
  tv_commit :: "'t \<Rightarrow> 't \<times> (tantivy_error + unit)"
  tv_reload :: "'t \<Rightarrow> 't \<times> (tantivy_error + unit)"
  tv_parse :: "string \<Rightarrow> string + unit"
  tv_top :: "'t \<Rightarrow> string \<Rightarrow> nat \<Rightarrow> tantivy_error + (score \<times> stored_doc) list"
  tv_snippets :: "'t \<Rightarrow> string \<Rightarrow> tantivy_error + (stored_doc \<Rightarrow> bytes)"

section \<open>The wrapper\<close>

datatype index_error = Tantivy tantivy_error | BadQuery string

record hit =
  hit_node_id :: u64
  hit_score :: score
  hit_snippet :: "bytes option"

definition index_document :: "'t tantivy_lib \<Rightarrow> 't \<Rightarrow> u64 \<Rightarrow> bytes \<Rightarrow> 't \<times> (index_error + unit)" where
  "index_document T t k body =
     (let t1 = tv_delete_term T k t in
      case tv_add_document T k body t1 of (t2, r) \<Rightarrow> (t2, map_err Tantivy r))"

definition remove_document :: "'t tantivy_lib \<Rightarrow> 't \<Rightarrow> u64 \<Rightarrow> 't \<times> (index_error + unit)" where
  "remove_document T t k = (tv_delete_term T k t, Inr ())"

definition index_commit :: "'t tantivy_lib \<Rightarrow> 't \<Rightarrow> 't \<times> (index_error + unit)" where
  "index_commit T t =
     (case tv_commit T t of
        (t1, Inl e) \<Rightarrow> (t1, Inl (Tantivy e))
      | (t1, Inr _) \<Rightarrow> (case tv_reload T t1 of (t2, r) \<Rightarrow> (t2, map_err Tantivy r)))"

fun collect_hits :: "(stored_doc \<Rightarrow> bytes) \<Rightarrow> (score \<times> stored_doc) list \<Rightarrow> hit list" where
  "collect_hits snip [] = []"
| "collect_hits snip ((sc, sd) # found) =
     (case sd_node_id sd of
        None \<Rightarrow> collect_hits snip found
      | Some k \<Rightarrow>
          \<lparr>hit_node_id = k, hit_score = sc,
           hit_snippet = (let html = snip sd in if html = [] then None else Some html)\<rparr>
          # collect_hits snip found)"

definition index_search :: "'t tantivy_lib \<Rightarrow> 't \<Rightarrow> string \<Rightarrow> nat \<Rightarrow> index_error + hit list" where
  "index_search T t query limit =
     and_then (map_err BadQuery (tv_parse T query)) (\<lambda>_.
     and_then (map_err Tantivy (tv_top T t query limit)) (\<lambda>found.
     and_then (map_err Tantivy (tv_snippets T t query)) (\<lambda>snip.
     Inr (collect_hits snip found))))"

section \<open>What tantivy promises\<close>

text \<open>
  \<open>staged\<close>, \<open>committed\<close> and \<open>docs\<close> view a state as its documents: staged for the next
  commit, committed, and visible to searches since the last reload.
\<close>

record 't tantivy_views =
  staged :: "'t \<Rightarrow> (u64 \<times> bytes) list"
  committed :: "'t \<Rightarrow> (u64 \<times> bytes) list"
  docs :: "'t \<Rightarrow> (u64 \<times> bytes) list"

definition without :: "u64 \<Rightarrow> (u64 \<times> bytes) list \<Rightarrow> (u64 \<times> bytes) list" where
  "without k ds = filter (\<lambda>x. fst x \<noteq> k) ds"

definition delete_law :: "'t tantivy_lib \<Rightarrow> 't tantivy_views \<Rightarrow> bool" where
  "delete_law T V \<longleftrightarrow> (\<forall>t k. staged V (tv_delete_term T k t) = without k (staged V t)
     \<and> committed V (tv_delete_term T k t) = committed V t \<and> docs V (tv_delete_term T k t) = docs V t)"

definition add_law :: "'t tantivy_lib \<Rightarrow> 't tantivy_views \<Rightarrow> bool" where
  "add_law T V \<longleftrightarrow> (\<forall>t k b t' r. tv_add_document T k b t = (t', r) \<longrightarrow>
     staged V t' = (if isl r then staged V t else staged V t @ [(k, b)])
     \<and> committed V t' = committed V t \<and> docs V t' = docs V t)"

definition commit_law :: "'t tantivy_lib \<Rightarrow> 't tantivy_views \<Rightarrow> bool" where
  "commit_law T V \<longleftrightarrow> (\<forall>t t'. tv_commit T t = (t', Inr ()) \<longrightarrow>
     staged V t' = staged V t \<and> committed V t' = staged V t \<and> docs V t' = docs V t)"

definition reload_law :: "'t tantivy_lib \<Rightarrow> 't tantivy_views \<Rightarrow> bool" where
  "reload_law T V \<longleftrightarrow> (\<forall>t t'. tv_reload T t = (t', Inr ()) \<longrightarrow>
     staged V t' = staged V t \<and> committed V t' = committed V t \<and> docs V t' = committed V t)"

definition search_law :: "'t tantivy_lib \<Rightarrow> 't tantivy_views \<Rightarrow> bool" where
  "search_law T V \<longleftrightarrow> (\<forall>t q n found. tv_top T t q n = Inr found \<longrightarrow> length found \<le> n \<and>
     (\<forall>x \<in> set found. \<exists>k. sd_node_id (snd x) = Some k \<and> (k, sd_body (snd x)) \<in> set (docs V t)))"

definition tantivy_ok :: "'t tantivy_lib \<Rightarrow> 't tantivy_views \<Rightarrow> bool" where
  "tantivy_ok T V \<longleftrightarrow> delete_law T V \<and> add_law T V \<and> commit_law T V \<and> reload_law T V \<and> search_law T V"

text \<open>An engine whose writer never fails.\<close>

definition tantivy_reliable :: "'t tantivy_lib \<Rightarrow> bool" where
  "tantivy_reliable T \<longleftrightarrow>
     (\<forall>t k b. snd (tv_add_document T k b t) = Inr ()) \<and> (\<forall>t. snd (tv_commit T t) = Inr ()) \<and>
     (\<forall>t. snd (tv_reload T t) = Inr ())"

section \<open>Lemmas\<close>

lemma set_without [simp]: "x \<in> set (without k ds) \<longleftrightarrow> x \<in> set ds \<and> fst x \<noteq> k"
  by (auto simp: without_def)

lemma index_document_views:
  assumes "tantivy_ok T V" and "index_document T t k b = (t', r)"
  shows "staged V t' = without k (staged V t) @ (if isl r then [] else [(k, b)])"
    and "committed V t' = committed V t" and "docs V t' = docs V t"
proof -
  obtain t2 r2 where add: "tv_add_document T k b (tv_delete_term T k t) = (t2, r2)" by fastforce
  then have t: "t' = t2" and "r = map_err Tantivy r2"
    using assms(2) by (simp_all add: index_document_def Let_def)
  then have "isl r = isl r2" by (cases r2) simp_all
  note t this
  moreover have "staged V t2 = (if isl r2 then staged V (tv_delete_term T k t) else staged V (tv_delete_term T k t) @ [(k, b)])
      \<and> committed V t2 = committed V (tv_delete_term T k t) \<and> docs V t2 = docs V (tv_delete_term T k t)"
    using assms(1) add unfolding tantivy_ok_def add_law_def by metis
  moreover have "staged V (tv_delete_term T k t) = without k (staged V t)
      \<and> committed V (tv_delete_term T k t) = committed V t \<and> docs V (tv_delete_term T k t) = docs V t"
    using assms(1) unfolding tantivy_ok_def delete_law_def by metis
  ultimately show "staged V t' = without k (staged V t) @ (if isl r then [] else [(k, b)])"
    and "committed V t' = committed V t" and "docs V t' = docs V t" by simp_all
qed

lemma remove_document_views:
  assumes "tantivy_ok T V" and "remove_document T t k = (t', r)"
  shows "staged V t' = without k (staged V t)" and "committed V t' = committed V t" and "docs V t' = docs V t"
    and "r = Inr ()"
  using assms by (auto simp: tantivy_ok_def delete_law_def remove_document_def)

lemma index_commit_views:
  assumes "tantivy_ok T V" and "index_commit T t = (t', Inr u)"
  shows "staged V t' = staged V t" and "committed V t' = staged V t" and "docs V t' = staged V t"
proof -
  obtain t1 where c: "tv_commit T t = (t1, Inr ())" and r: "tv_reload T t1 = (t', Inr ())"
    using assms(2) by (auto simp: index_commit_def split: prod.splits sum.splits)
  have "staged V t1 = staged V t \<and> committed V t1 = staged V t"
    using assms(1) c unfolding tantivy_ok_def commit_law_def by metis
  moreover have "staged V t' = staged V t1 \<and> committed V t' = committed V t1 \<and> docs V t' = committed V t1"
    using assms(1) r unfolding tantivy_ok_def reload_law_def by metis
  ultimately show "staged V t' = staged V t" and "committed V t' = staged V t" and "docs V t' = staged V t"
    by simp_all
qed

lemma collect_hits_from:
  "h \<in> set (collect_hits snip found) \<Longrightarrow> \<exists>sd. (hit_score h, sd) \<in> set found \<and> sd_node_id sd = Some (hit_node_id h)"
proof (induction snip found rule: collect_hits.induct)
  case (2 snip sc sd found)
  then show ?case by (cases "sd_node_id sd") auto
qed simp

lemma length_collect_hits: "length (collect_hits snip found) \<le> length found"
proof (induction snip found rule: collect_hits.induct)
  case (2 snip sc sd found)
  then show ?case by (cases "sd_node_id sd") auto
qed simp

lemma index_search_hits:
  assumes "tantivy_ok T V" and "index_search T t q n = Inr hits"
  shows "length hits \<le> n" and "h \<in> set hits \<Longrightarrow> \<exists>b. (hit_node_id h, b) \<in> set (docs V t)"
proof -
  obtain found snip where found: "tv_top T t q n = Inr found" and hits: "hits = collect_hits snip found"
    using assms(2) by (auto simp: index_search_def)
  have law: "length found \<le> n \<and>
      (\<forall>x \<in> set found. \<exists>k. sd_node_id (snd x) = Some k \<and> (k, sd_body (snd x)) \<in> set (docs V t))"
    using assms(1) found unfolding tantivy_ok_def search_law_def by metis
  show "length hits \<le> n" using law length_collect_hits [of snip found] hits by simp
  show "h \<in> set hits \<Longrightarrow> \<exists>b. (hit_node_id h, b) \<in> set (docs V t)"
    using collect_hits_from [of h snip found] law hits by fastforce
qed

section \<open>A small engine for the witnesses\<close>

text \<open>Documents are kept in three lists; a query matches the bodies that contain it.\<close>

type_synonym sample_engine = "(u64 \<times> bytes) list \<times> (u64 \<times> bytes) list \<times> (u64 \<times> bytes) list"

fun is_prefix :: "bytes \<Rightarrow> bytes \<Rightarrow> bool" where
  "is_prefix [] ys = True"
| "is_prefix (x # xs) [] = False"
| "is_prefix (x # xs) (y # ys) \<longleftrightarrow> x = y \<and> is_prefix xs ys"

fun occurs_in :: "bytes \<Rightarrow> bytes \<Rightarrow> bool" where
  "occurs_in q [] \<longleftrightarrow> q = []"
| "occurs_in q (x # xs) \<longleftrightarrow> is_prefix q (x # xs) \<or> occurs_in q xs"

definition sample_tantivy :: "sample_engine tantivy_lib" where
  "sample_tantivy =
     \<lparr>tv_delete_term = (\<lambda>k (s, c, d). (without k s, c, d)),
      tv_add_document = (\<lambda>k b (s, c, d). ((s @ [(k, b)], c, d), Inr ())),
      tv_commit = (\<lambda>(s, c, d). ((s, s, d), Inr ())),
      tv_reload = (\<lambda>(s, c, d). ((s, c, c), Inr ())),
      tv_parse = (\<lambda>q. if q = [] then Inl ''empty'' else Inr ()),
      tv_top = (\<lambda>(s, c, d) q n. Inr (take n (map (\<lambda>(k, b). (1, \<lparr>sd_node_id = Some k, sd_body = b\<rparr>))
         (filter (\<lambda>(k, b). occurs_in q b) d)))),
      tv_snippets = (\<lambda>_ q. Inr (\<lambda>sd. sd_body sd))\<rparr>"

definition sample_views :: "sample_engine tantivy_views" where
  "sample_views = \<lparr>staged = fst, committed = fst \<circ> snd, docs = snd \<circ> snd\<rparr>"

lemma sample_tantivy_ok: "tantivy_ok sample_tantivy sample_views"
  unfolding tantivy_ok_def
  by (intro conjI; auto simp: delete_law_def add_law_def commit_law_def reload_law_def search_law_def
      sample_tantivy_def sample_views_def dest!: in_set_takeD)

lemma sample_tantivy_reliable: "tantivy_reliable sample_tantivy"
  by (auto simp: tantivy_reliable_def sample_tantivy_def)

end
