(* ===== verification/Utf8.thy ===== *)
theory Utf8
  imports Prelude
begin

text \<open>
  \<open>String::from_utf8_lossy\<close> of the standard library on bytes: well-formed sequences are kept,
  every maximal ill-formed prefix becomes the replacement character U+FFFD.
\<close>

definition byte_val :: "byte \<Rightarrow> nat" where
  "byte_val c = of_char c"

definition byte_in :: "nat \<Rightarrow> nat \<Rightarrow> byte \<Rightarrow> bool" where
  "byte_in lo hi c \<longleftrightarrow> lo \<le> byte_val c \<and> byte_val c \<le> hi"

text \<open>How many bytes the sequence at the head takes, and whether it is well formed.\<close>

fun utf8_tail :: "nat \<Rightarrow> bytes \<Rightarrow> nat \<times> bool" where
  "utf8_tail 0 xs = (0, True)"
| "utf8_tail (Suc n) [] = (0, False)"
| "utf8_tail (Suc n) (x # xs) =
     (if byte_in 128 191 x then (case utf8_tail n xs of (k, ok) \<Rightarrow> (Suc k, ok)) else (0, False))"

definition utf8_second :: "nat \<Rightarrow> nat \<Rightarrow> nat \<Rightarrow> bytes \<Rightarrow> nat \<times> bool" where
  "utf8_second lo hi n xs =
     (case xs of
        [] \<Rightarrow> (1, False)
      | x # ys \<Rightarrow> if byte_in lo hi x then (case utf8_tail n ys of (k, ok) \<Rightarrow> (2 + k, ok)) else (1, False))"

fun utf8_step :: "bytes \<Rightarrow> nat \<times> bool" where
  "utf8_step [] = (0, True)"
| "utf8_step (x # xs) =
     (if byte_in 0 127 x then (1, True)
      else if byte_in 194 223 x then utf8_second 128 191 0 xs
      else if byte_in 224 224 x then utf8_second 160 191 1 xs
      else if byte_in 237 237 x then utf8_second 128 159 1 xs
      else if byte_in 225 239 x then utf8_second 128 191 1 xs
      else if byte_in 240 240 x then utf8_second 144 191 2 xs
      else if byte_in 241 243 x then utf8_second 128 191 2 xs
      else if byte_in 244 244 x then utf8_second 128 143 2 xs
      else (1, False))"

lemma utf8_second_pos: "utf8_second lo hi n xs = (k, ok) \<Longrightarrow> 0 < k"
  by (auto simp: utf8_second_def split: list.splits if_splits prod.splits)

lemma utf8_step_pos: "xs \<noteq> [] \<Longrightarrow> utf8_step xs = (k, ok) \<Longrightarrow> 0 < k"
  by (cases xs) (auto split: if_splits dest: utf8_second_pos)

function from_utf8_lossy :: "bytes \<Rightarrow> bytes" where
  "from_utf8_lossy xs =
     (if xs = [] then []
      else case utf8_step xs of (k, ok) \<Rightarrow>
        (if ok then take k xs else [CHR 0xEF, CHR 0xBF, CHR 0xBD]) @ from_utf8_lossy (drop k xs))"
  by pat_completeness auto
termination
proof (relation "measure length")
  fix xs :: bytes and k ok
  assume xs: "xs \<noteq> []" and "(k, ok) = utf8_step xs"
  then have "utf8_step xs = (k, ok)" by simp
  then have "0 < k" by (rule utf8_step_pos [OF xs])
  then show "(drop k xs, xs) \<in> measure length" using xs by simp
qed simp

declare from_utf8_lossy.simps [simp del]

text \<open>ASCII text is kept as it is.\<close>

definition is_ascii :: "bytes \<Rightarrow> bool" where
  "is_ascii xs \<longleftrightarrow> list_all (byte_in 0 127) xs"

lemma from_utf8_lossy_ascii: "is_ascii xs \<Longrightarrow> from_utf8_lossy xs = xs"
proof (induction xs)
  case Nil
  then show ?case by (simp add: from_utf8_lossy.simps)
next
  case (Cons x xs)
  then have "from_utf8_lossy (x # xs) = take 1 (x # xs) @ from_utf8_lossy (drop 1 (x # xs))"
    by (subst from_utf8_lossy.simps) (simp add: is_ascii_def)
  then show ?case using Cons by (simp add: is_ascii_def)
qed

section \<open>Validity\<close>

text \<open>What a \<open>str\<close> may hold: a sequence of well-formed code points.\<close>

function utf8_valid :: "bytes \<Rightarrow> bool" where
  "utf8_valid xs =
     (if xs = [] then True
      else case utf8_step xs of (k, ok) \<Rightarrow> if ok then utf8_valid (drop k xs) else False)"
  by pat_completeness auto
termination
proof (relation "measure length")
  fix xs :: bytes and k ok
  assume xs: "xs \<noteq> []" and "(k, ok) = utf8_step xs" and ok
  then have "utf8_step xs = (k, ok)" by simp
  then have "0 < k" by (rule utf8_step_pos [OF xs])
  then show "(drop k xs, xs) \<in> measure length" using xs by simp
qed simp

declare utf8_valid.simps [simp del]

lemma utf8_tail_take:
  "utf8_tail n xs = (k, True) \<Longrightarrow> k = n \<and> n \<le> length xs \<and> utf8_tail n (take n xs @ ys) = (n, True)"
proof (induction n arbitrary: xs k)
  case (Suc n)
  then show ?case by (cases xs) (auto split: if_splits prod.splits)
qed simp

lemma utf8_second_take:
  "utf8_second lo hi n xs = (k, True) \<Longrightarrow> \<exists>m. k = Suc m \<and> m \<le> length xs \<and> utf8_second lo hi n (take m xs @ ys) = (k, True)"
proof (cases xs)
  case (Cons x zs)
  assume run: "utf8_second lo hi n xs = (k, True)"
  then obtain j where j: "byte_in lo hi x" "utf8_tail n zs = (j, True)" "k = 2 + j"
    using Cons by (auto simp: utf8_second_def split: if_splits prod.splits)
  from utf8_tail_take [OF j(2), of ys] show ?thesis
    using Cons j by (intro exI [where x = "Suc n"]) (simp add: utf8_second_def)
qed (simp add: utf8_second_def)

text \<open>A well-formed sequence stays one in front of any other bytes.\<close>

lemma utf8_step_take:
  assumes "utf8_step xs = (k, True)" and "xs \<noteq> []"
  shows "k \<le> length xs \<and> utf8_step (take k xs @ ys) = (k, True)"
proof -
  obtain x zs where xs: "xs = x # zs" using assms(2) by (cases xs) auto
  note second = utf8_second_take [of _ _ _ zs k ys]
  show ?thesis
    using assms(1) unfolding xs utf8_step.simps by (auto split: if_splits dest!: second)
qed

lemma utf8_valid_append: "utf8_step xs = (k, True) \<Longrightarrow> xs \<noteq> [] \<Longrightarrow> utf8_valid ys \<Longrightarrow> utf8_valid (take k xs @ ys)"
  using utf8_step_take [of xs k ys] utf8_step_pos [of xs k True]
  by (subst utf8_valid.simps) auto

lemma utf8_valid_replacement: "utf8_valid ys \<Longrightarrow> utf8_valid ([CHR 0xEF, CHR 0xBF, CHR 0xBD] @ ys)"
  by (subst utf8_valid.simps) (simp add: utf8_second_def byte_in_def byte_val_def)

text \<open>A lossy conversion gives a string, and the same bytes when they are one already.\<close>

lemma utf8_valid_lossy: "utf8_valid (from_utf8_lossy xs)"
proof (induction xs rule: from_utf8_lossy.induct)
  case (1 xs)
  show ?case
  proof (cases "xs = []")
    case True
    then show ?thesis by (simp add: from_utf8_lossy.simps utf8_valid.simps)
  next
    case False
    obtain k ok where k: "utf8_step xs = (k, ok)" by fastforce
    then have IH: "utf8_valid (from_utf8_lossy (drop k xs))" using 1 False by simp
    show ?thesis
      using False k utf8_valid_append [OF _ False IH] utf8_valid_replacement [OF IH]
      by (subst from_utf8_lossy.simps) auto
  qed
qed

lemma from_utf8_lossy_valid: "utf8_valid xs \<Longrightarrow> from_utf8_lossy xs = xs"
proof (induction xs rule: from_utf8_lossy.induct)
  case (1 xs)
  then show ?case
    by (subst from_utf8_lossy.simps, subst (asm) (2) utf8_valid.simps) (auto split: prod.splits)
qed

end
