(* ===== verification/Vfs_Inner.thy ===== *)
theory Vfs_Inner
  imports Meta_Content Manifest_Reader Search_Index Utf8
begin

text \<open>
  The shared state behind a \<open>DavFs\<close> handle (\<open>struct Inner\<close> of \<open>crates/vfs/src/davfs.rs\<close>):
  the metadata database, the blob store's directory and the search index, with the errors
  of the layer, the file-name rules, and the index maintenance every content change runs.

  What the operations take from outside is one record: the third-party crates, the two
  chunker configurations, the clock, and which system calls and SQL statements fail.
\<close>

section \<open>State and environment\<close>

record 't fs_state =
  fs_db :: db
  fs_disk :: disk
  fs_index :: 't

record 't env =
  e_b3 :: blake3_lib
  e_cdc :: fastcdc_lib
  e_tv :: "'t tantivy_lib"
  e_chunker :: chunker_config
  e_media :: chunker_config
  e_io :: faults
  e_sql :: sql_faults
  e_now :: system_time

section \<open>Errors\<close>

text \<open>The variants of \<open>dav_server::fs::FsError\<close> the code returns.\<close>

datatype fs_error = FsNotFound | FsForbidden | FsExists | FsGeneralFailure

datatype vfs_error = VfsIo io_error | VfsMeta meta_error | VfsIndex index_error | VfsTooLarge u64

fun io_to_fs :: "io_error \<Rightarrow> fs_error" where
  "io_to_fs IoNotFound = FsNotFound"
| "io_to_fs IoPermissionDenied = FsForbidden"
| "io_to_fs IoAlreadyExists = FsExists"
| "io_to_fs _ = FsGeneralFailure"

fun meta_to_fs :: "meta_error \<Rightarrow> fs_error" where
  "meta_to_fs MetaNotFound = FsNotFound"
| "meta_to_fs MetaExists = FsExists"
| "meta_to_fs MetaNotEmpty = FsForbidden"
| "meta_to_fs MetaNotADirectory = FsForbidden"
| "meta_to_fs MetaIsADirectory = FsForbidden"
| "meta_to_fs MetaCurrentVersion = FsForbidden"
| "meta_to_fs MetaCorrupt = FsGeneralFailure"
| "meta_to_fs (MetaSqlite e) = FsGeneralFailure"

definition is_not_found :: "vfs_error \<Rightarrow> bool" where
  "is_not_found e \<longleftrightarrow> e = VfsMeta MetaNotFound"

definition is_invalid_target :: "vfs_error \<Rightarrow> bool" where
  "is_invalid_target e \<longleftrightarrow> e = VfsMeta MetaIsADirectory \<or> e = VfsMeta MetaNotADirectory"

definition is_bad_query :: "vfs_error \<Rightarrow> bool" where
  "is_bad_query e = (case e of VfsIndex (BadQuery q) \<Rightarrow> True | _ \<Rightarrow> False)"

section \<open>Names\<close>

definition to_ascii_lowercase :: "bytes \<Rightarrow> bytes" where
  "to_ascii_lowercase xs = map (\<lambda>c. if byte_in 65 90 c then char_of (byte_val c + 32) else c) xs"

text \<open>\<open>rsplit(|b| b == c).next()\<close>: what follows the last \<open>c\<close>, or everything.\<close>

definition after_last :: "byte \<Rightarrow> bytes \<Rightarrow> bytes" where
  "after_last c xs = rev (takeWhile (\<lambda>x. x \<noteq> c) (rev xs))"

definition text_extensions :: "bytes list" where
  "text_extensions =
     [''md'', ''markdown'', ''txt'', ''text'', ''log'', ''rst'', ''org'', ''tex'', ''json'', ''csv'', ''tsv'',
      ''toml'', ''yaml'', ''yml'', ''xml'', ''ini'', ''cfg'', ''conf'', ''html'', ''htm'', ''css'', ''rs'', ''py'',
      ''js'', ''ts'', ''go'', ''c'', ''h'', ''cpp'', ''hpp'', ''java'', ''rb'', ''sh'', ''sql'']"

definition is_indexable_name :: "bytes \<Rightarrow> bool" where
  "is_indexable_name nm =
     (if nm \<noteq> [] \<and> hd nm = CHR ''.'' then False
      else let lower = to_ascii_lowercase nm; ext = after_last CHR ''.'' lower in
        if length ext < length lower \<and> ext \<noteq> [] then ext \<in> set text_extensions else False)"

definition media_extensions :: "bytes list" where
  "media_extensions =
     [''png'', ''jpg'', ''jpeg'', ''gif'', ''webp'', ''avif'', ''heic'', ''heif'', ''bmp'', ''ico'', ''tif'', ''tiff'',
      ''mp4'', ''m4v'', ''webm'', ''mov'', ''mkv'', ''ogv'', ''avi'', ''mp3'', ''wav'', ''ogg'', ''opus'', ''flac'',
      ''m4a'', ''aac'']"

definition is_media_name :: "bytes \<Rightarrow> bool" where
  "is_media_name nm =
     (let lower = to_ascii_lowercase nm; ext = after_last CHR ''.'' lower in
      if length ext < length lower then ext \<in> set media_extensions else False)"

definition chunker_for :: "'t env \<Rightarrow> bytes \<Rightarrow> chunker_config" where
  "chunker_for E nm = (if is_media_name nm then e_media E else e_chunker E)"

section \<open>Reading a whole manifest\<close>

text \<open>
  \<open>open_file\<close> and \<open>read_to_end\<close> (or \<open>io::copy\<close>): the bytes of a manifest. A read that is
  interrupted forever never returns; \<open>get\<close> retries interrupted reads itself.
\<close>

definition read_all :: "(hash \<Rightarrow> io_error + bytes) \<Rightarrow> manifest \<Rightarrow> io_error + bytes" where
  "read_all gt m =
     (case read_to_end (mr_read gt) (\<lambda>_. 8191) 0 (mr_new m) [] of
        Some (_, r) \<Rightarrow> r | None \<Rightarrow> Inl IoInterrupted)"

definition blob_get :: "'t env \<Rightarrow> 't fs_state \<Rightarrow> hash \<Rightarrow> io_error + bytes" where
  "blob_get E s = get (e_b3 E) (e_io E) (fs_disk s)"

lemma read_all_content: "manifest_content (view_of gt) m = Some d \<Longrightarrow> read_all gt m = Inr d"
  using read_manifest_to_end [of gt m d "\<lambda>_. 8191" 0] by (auto simp: read_all_def)

section \<open>The search index follows the content\<close>

definition MAX_INDEX_BYTES :: u64 where "MAX_INDEX_BYTES = 4 * 1024 * 1024"

text \<open>\<open>remove_document\<close> or \<open>index_document\<close>, then \<open>commit\<close>, both with \<open>?\<close>.\<close>

definition then_commit :: "'t tantivy_lib \<Rightarrow> 't \<times> (index_error + unit) \<Rightarrow> 't \<times> (index_error + unit)" where
  "then_commit T r = (case r of (t, Inl e) \<Rightarrow> (t, Inl e) | (t, Inr _) \<Rightarrow> index_commit T t)"

definition is_text_file :: "node \<Rightarrow> bool" where
  "is_text_file n \<longleftrightarrow> \<not> is_dir n \<and> current_version_id n \<noteq> None \<and> is_indexable_name (node_name n)"

definition try_reindex :: "'t env \<Rightarrow> 't fs_state \<Rightarrow> i64 \<Rightarrow> 't fs_state \<times> (vfs_error + unit)" where
  "try_reindex E s i =
     (case get_node (e_sql E) (fs_db s) i of
        Inl e \<Rightarrow> (s, Inl (VfsMeta e))
      | Inr n \<Rightarrow>
          if \<not> is_text_file n then (s, Inr ())
          else if node_size n > MAX_INDEX_BYTES then
            (case then_commit (e_tv E) (remove_document (e_tv E) (fs_index s) (as_u64 i)) of
               (t, r) \<Rightarrow> (s\<lparr>fs_index := t\<rparr>, map_err VfsIndex r))
          else case load_manifest (e_b3 E) (e_sql E) (fs_db s) i of
            Inl e \<Rightarrow> (s, Inl (VfsMeta e))
          | Inr m \<Rightarrow>
              (case read_all (blob_get E s) m of
                 Inl e \<Rightarrow> (s, Inl (VfsIo e))
               | Inr buf \<Rightarrow>
                   (case then_commit (e_tv E)
                      (index_document (e_tv E) (fs_index s) (as_u64 i) (from_utf8_lossy buf)) of
                      (t, r) \<Rightarrow> (s\<lparr>fs_index := t\<rparr>, map_err VfsIndex r))))"

text \<open>Best effort: a failure is logged, never returned.\<close>

definition reindex :: "'t env \<Rightarrow> 't fs_state \<Rightarrow> i64 \<Rightarrow> 't fs_state" where
  "reindex E s i = fst (try_reindex E s i)"

definition deindex :: "'t env \<Rightarrow> 't fs_state \<Rightarrow> i64 \<Rightarrow> 't fs_state" where
  "deindex E s i =
     s\<lparr>fs_index := fst (then_commit (e_tv E) (remove_document (e_tv E) (fs_index s) (as_u64 i)))\<rparr>"

section \<open>Referencing stored content\<close>

text \<open>
  The closure \<open>load\<close> reads the metadata store; the shared guard of \<open>gc_lock\<close> is held
  throughout, so no garbage collection runs between its parts (theory \<open>Gc_Protocol\<close>).
\<close>

definition reference_under_guard ::
  "'t env \<Rightarrow> 't fs_state \<Rightarrow> i64 \<Rightarrow> (db \<Rightarrow> meta_error + manifest) \<Rightarrow> 't fs_state \<times> (meta_error + unit)"
where
  "reference_under_guard E s i load =
     (case load (fs_db s) of
        Inl e \<Rightarrow> (s, Inl e)
      | Inr m \<Rightarrow>
          (case set_file_content (e_b3 E) (e_sql E) (e_now E) (fs_db s) i m of
             (d, Inl e) \<Rightarrow> (s\<lparr>fs_db := d\<rparr>, Inl e)
           | (d, Inr _) \<Rightarrow> (s\<lparr>fs_db := d\<rparr>, Inr ())))"

section \<open>Lemmas\<close>

lemma reindex_keeps [simp]: "fs_db (reindex E s i) = fs_db s" "fs_disk (reindex E s i) = fs_disk s"
  by (auto simp: reindex_def try_reindex_def split: sum.splits prod.splits)

lemma deindex_keeps [simp]: "fs_db (deindex E s i) = fs_db s" "fs_disk (deindex E s i) = fs_disk s"
  by (simp_all add: deindex_def)

end
