(* ===== verification/File_Handle.thy ===== *)
theory File_Handle
  imports Vfs_Inner
begin

text \<open>
  \<open>crates/vfs/src/file.rs\<close>: an open file. A read handle searches its manifest for the chunk
  of its position and caches the last chunk; a write handle buffers into a temporary
  file, whose bytes are part of the handle here, and stores it on \<open>flush\<close>.

  Calls on the temporary file that can fail are \<open>temp_call\<close>s; \<open>tf\<close> says which of them
  do. Positions are \<open>u64\<close> and wrap as in a release build.
\<close>

section \<open>The temporary file\<close>

datatype temp_call = TmpNew | TmpSeek | TmpWriteAll | TmpReadExact | TmpFlush | TmpSetLen | TmpOpen

text \<open>A \<open>write_all\<close> that fails has written \<open>tf_short\<close> bytes before it did.\<close>

record temp_faults =
  tf_err :: "temp_call \<Rightarrow> io_error option"
  tf_short :: nat

definition no_temp_faults :: temp_faults where
  "no_temp_faults = \<lparr>tf_err = (\<lambda>_. None), tf_short = 0\<rparr>"

definition temp_call :: "temp_faults \<Rightarrow> temp_call \<Rightarrow> 'a \<Rightarrow> io_error + 'a" where
  "temp_call tf c a = (case tf_err tf c of Some e \<Rightarrow> Inl e | None \<Rightarrow> Inr a)"

text \<open>\<open>lseek\<close> takes a signed offset and refuses a negative one.\<close>

definition temp_seek :: "temp_faults \<Rightarrow> u64 \<Rightarrow> io_error + nat" where
  "temp_seek tf pos =
     (if 2 ^ 63 \<le> unat pos then Inl IoInvalidInput else temp_call tf TmpSeek (unat pos))"

text \<open>Writing at a position past the end leaves a hole that reads as zero bytes.\<close>

definition pwrite :: "bytes \<Rightarrow> nat \<Rightarrow> bytes \<Rightarrow> bytes" where
  "pwrite file pos data =
     (if data = [] then file
      else take pos (file @ replicate (pos - length file) (CHR 0x00)) @ data @ drop (pos + length data) file)"

definition write_all :: "temp_faults \<Rightarrow> bytes \<Rightarrow> nat \<Rightarrow> bytes \<Rightarrow> bytes \<times> (io_error + unit)" where
  "write_all tf file pos data =
     (case tf_err tf TmpWriteAll of
        Some e \<Rightarrow> (pwrite file pos (take (tf_short tf) data), Inl e)
      | None \<Rightarrow> (pwrite file pos data, Inr ()))"

text \<open>\<open>set_len\<close> cuts, or extends with zero bytes.\<close>

definition set_len :: "bytes \<Rightarrow> nat \<Rightarrow> bytes" where
  "set_len file n = take n (file @ replicate (n - length file) (CHR 0x00))"

section \<open>Handles\<close>

text \<open>A write handle's temporary file, its logical length, and its append and dirty flags.\<close>

datatype handle_state =
    ReadState manifest "(nat \<times> bytes) option"
  | WriteState bytes u64 bool bool

record file_handle =
  h_node_id :: i64
  h_created :: system_time
  h_modified :: system_time
  h_pos :: u64
  h_state :: handle_state

definition new_read :: "node \<Rightarrow> manifest \<Rightarrow> file_handle" where
  "new_read n m = \<lparr>h_node_id = node_id n, h_created = created n, h_modified = modified n, h_pos = 0,
     h_state = ReadState m None\<rparr>"

definition new_write ::
  "(hash \<Rightarrow> io_error + bytes) \<Rightarrow> temp_faults \<Rightarrow> node \<Rightarrow> bool \<Rightarrow> manifest option \<Rightarrow> bool \<Rightarrow> io_error + file_handle"
where
  "new_write gt tf n app existing trunc =
     and_then (temp_call tf TmpNew ()) (\<lambda>_.
     and_then (case existing of
         None \<Rightarrow> Inr []
       | Some m \<Rightarrow> and_then (read_all gt m) (temp_call tf TmpWriteAll)) (\<lambda>bytes.
     let len = of_nat (length bytes) in
     Inr \<lparr>h_node_id = node_id n, h_created = created n, h_modified = modified n,
       h_pos = (if app then len else 0), h_state = WriteState bytes len app trunc\<rparr>))"

definition handle_len :: "file_handle \<Rightarrow> u64" where
  "handle_len h = (case h_state h of ReadState m _ \<Rightarrow> total_size m | WriteState _ len _ _ \<Rightarrow> len)"

section \<open>Reading\<close>

text \<open>
  The loop that fills the buffer of \<open>want\<close> bytes. \<^const>\<open>None\<close> is a call that does not return
  normally: a blob shorter than its reference makes the slice panic, one that ends exactly
  where the read begins makes no progress.
\<close>

partial_function (option) fill ::
  "(hash \<Rightarrow> io_error + bytes) \<Rightarrow> manifest \<Rightarrow> nat \<Rightarrow> u64 \<Rightarrow> bytes \<Rightarrow> (nat \<times> bytes) option
     \<Rightarrow> ((nat \<times> bytes) option \<times> (fs_error + bytes)) option"
where
  "fill gt m want start out cache =
     (if length out < want then
        (let pos = start + of_nat (length out) in
         case binary_search_by (chunk_cmp pos) (chunks m) of
           Inl _ \<Rightarrow> Some (cache, Inl FsGeneralFailure)
         | Inr idx \<Rightarrow>
             (case (case cache of
                 Some (i, data) \<Rightarrow> if i = idx then Inr data else gt (cr_hash (chunks m ! idx))
               | None \<Rightarrow> gt (cr_hash (chunks m ! idx))) of
                Inl e \<Rightarrow> Some (cache, Inl (io_to_fs e))
              | Inr data \<Rightarrow>
                  (let within = unat (pos - cr_offset (chunks m ! idx)) in
                   if length data < within then None
                   else fill gt m want start
                     (out @ take (want - length out) (drop within data)) (Some (idx, data)))))
      else Some (cache, Inr out))"

definition read_bytes ::
  "(hash \<Rightarrow> io_error + bytes) \<Rightarrow> temp_faults \<Rightarrow> file_handle \<Rightarrow> nat \<Rightarrow> (file_handle \<times> (fs_error + bytes)) option"
where
  "read_bytes gt tf h count =
     (let len = handle_len h in
      if h_pos h \<ge> len then Some (h, Inr [])
      else let want = min (unat (len - h_pos h)) count; start = h_pos h in
      case h_state h of
        ReadState m cache \<Rightarrow>
          (case fill gt m want start [] cache of
             None \<Rightarrow> None
           | Some (cache', Inl e) \<Rightarrow> Some (h\<lparr>h_state := ReadState m cache'\<rparr>, Inl e)
           | Some (cache', Inr out) \<Rightarrow>
               Some (h\<lparr>h_state := ReadState m cache', h_pos := h_pos h + of_nat want\<rparr>, Inr out))
      | WriteState file l app d \<Rightarrow>
          (case and_then (temp_seek tf start) (\<lambda>p.
               if length file < p + want then Inl IoUnexpectedEof
               else temp_call tf TmpReadExact (take want (drop p file))) of
             Inl e \<Rightarrow> Some (h, Inl (io_to_fs e))
           | Inr out \<Rightarrow> Some (h\<lparr>h_pos := h_pos h + of_nat want\<rparr>, Inr out)))"

section \<open>Writing\<close>

definition write_bytes :: "temp_faults \<Rightarrow> file_handle \<Rightarrow> bytes \<Rightarrow> file_handle \<times> (fs_error + unit)" where
  "write_bytes tf h buf =
     (case h_state h of
        ReadState m cache \<Rightarrow> (h, Inl FsForbidden)
      | WriteState file len app d \<Rightarrow>
          (let pos = (if app then len else h_pos h) in
           case temp_seek tf pos of
             Inl e \<Rightarrow> (h, Inl (io_to_fs e))
           | Inr p \<Rightarrow>
               (case write_all tf file p buf of
                  (file', Inl e) \<Rightarrow> (h\<lparr>h_state := WriteState file' len app d\<rparr>, Inl (io_to_fs e))
                | (file', Inr _) \<Rightarrow>
                    (let pos' = pos + of_nat (length buf) in
                     (h\<lparr>h_pos := pos', h_state := WriteState file' (max len pos') app True\<rparr>, Inr ())))))"

text \<open>
  \<open>write_buf\<close>: the buffer hands out its slices one after the other; the file's own offset
  \<open>p\<close> advances with them.
\<close>

fun write_slices :: "temp_faults \<Rightarrow> bytes \<Rightarrow> nat \<Rightarrow> u64 \<Rightarrow> bytes list \<Rightarrow> bytes \<times> (io_error + u64)" where
  "write_slices tf file p pos [] = (file, Inr pos)"
| "write_slices tf file p pos (b # bs) =
     (case write_all tf file p b of
        (file', Inl e) \<Rightarrow> (file', Inl e)
      | (file', Inr _) \<Rightarrow> write_slices tf file' (p + length b) (pos + of_nat (length b)) bs)"

definition write_buf :: "temp_faults \<Rightarrow> file_handle \<Rightarrow> bytes list \<Rightarrow> file_handle \<times> (fs_error + unit)" where
  "write_buf tf h bufs =
     (case h_state h of
        ReadState m cache \<Rightarrow> (h, Inl FsForbidden)
      | WriteState file len app d \<Rightarrow>
          (let pos = (if app then len else h_pos h) in
           case temp_seek tf pos of
             Inl e \<Rightarrow> (h, Inl (io_to_fs e))
           | Inr p \<Rightarrow>
               (case write_slices tf file p pos bufs of
                  (file', Inl e) \<Rightarrow> (h\<lparr>h_state := WriteState file' len app d\<rparr>, Inl (io_to_fs e))
                | (file', Inr pos') \<Rightarrow>
                    (h\<lparr>h_pos := pos', h_state := WriteState file' (max len pos') app True\<rparr>, Inr ()))))"

definition handle_seek :: "file_handle \<Rightarrow> seek_from \<Rightarrow> file_handle \<times> (fs_error + u64)" where
  "handle_seek h pos =
     (let target = (case pos of
          SeekStart n \<Rightarrow> uint n
        | SeekCurrent k \<Rightarrow> uint (h_pos h) + k
        | SeekEnd k \<Rightarrow> uint (handle_len h) + k)
      in if target < 0 then (h, Inl (io_to_fs IoInvalidInput))
      else (h\<lparr>h_pos := as_u64 target\<rparr>, Inr (as_u64 target)))"

section \<open>Flushing\<close>

text \<open>Storing the temporary file and recording it, under the shared guard of \<open>gc_lock\<close>.\<close>

definition store_content ::
  "'t env \<Rightarrow> temp_faults \<Rightarrow> 't fs_state \<Rightarrow> i64 \<Rightarrow> bytes \<Rightarrow> 't fs_state \<times> (fs_error + system_time)"
where
  "store_content E tf s i file =
     (case temp_call tf TmpOpen () of
        Inl e \<Rightarrow> (s, Inl (io_to_fs e))
      | Inr _ \<Rightarrow>
          (case get_node (e_sql E) (fs_db s) i of
             Inl e \<Rightarrow> (s, Inl (meta_to_fs e))
           | Inr n \<Rightarrow>
               (case store_file (e_b3 E) (e_cdc E) (e_io E) (fs_disk s) (reader_of file) (chunker_for E (node_name n)) of
                  (k, Inl e) \<Rightarrow> (s\<lparr>fs_disk := k\<rparr>, Inl (io_to_fs e))
                | (k, Inr m) \<Rightarrow>
                    (case set_file_content (e_b3 E) (e_sql E) (e_now E) (fs_db s) i m of
                       (d, Inl e) \<Rightarrow> (s\<lparr>fs_disk := k, fs_db := d\<rparr>, Inl (meta_to_fs e))
                     | (d, Inr t) \<Rightarrow> (s\<lparr>fs_disk := k, fs_db := d\<rparr>, Inr t)))))"

definition flush ::
  "'t env \<Rightarrow> temp_faults \<Rightarrow> 't fs_state \<Rightarrow> file_handle \<Rightarrow> ('t fs_state \<times> file_handle) \<times> (fs_error + unit)"
where
  "flush E tf s h =
     (case h_state h of
        ReadState m cache \<Rightarrow> ((s, h), Inr ())
      | WriteState file len app d \<Rightarrow>
          if \<not> d then ((s, h), Inr ())
          else (case temp_call tf TmpFlush () of Inl e \<Rightarrow> ((s, h), Inl (io_to_fs e)) | Inr _ \<Rightarrow>
            (case temp_call tf TmpSetLen (set_len file (unat len)) of
               Inl e \<Rightarrow> ((s, h), Inl (io_to_fs e))
             | Inr file' \<Rightarrow>
                 (let h1 = h\<lparr>h_state := WriteState file' len app True\<rparr> in
                  case store_content E tf s (h_node_id h) file' of
                    (s', Inl e) \<Rightarrow> ((s', h1), Inl e)
                  | (s', Inr t) \<Rightarrow>
                      ((reindex E s' (h_node_id h),
                        h\<lparr>h_modified := t, h_state := WriteState file' len app False\<rparr>), Inr ())))))"

end
