(* ===== verification/Rust_Str.thy ===== *)
theory Rust_Str
  imports Rust_Std Utf8
begin

text \<open>
  The parts of Rust's standard library the web layer uses on strings: searching and splitting,
  \<open>trim\<close>, \<open>str::parse::<u64>\<close> and the decimal formatting of integers. A string is its UTF-8
  bytes; a separator is an ASCII character, which in UTF-8 is never a part of another one.
\<close>

section \<open>Searching and splitting\<close>

text \<open>\<open>split(c)\<close>: the pieces between the separators, always at least one.\<close>

fun split_on :: "byte \<Rightarrow> bytes \<Rightarrow> bytes list" where
  "split_on c [] = [[]]"
| "split_on c (x # xs) =
     (if x = c then [] # split_on c xs
      else (case split_on c xs of [] \<Rightarrow> [[x]] | p # ps \<Rightarrow> (x # p) # ps))"

definition starts_with :: "bytes \<Rightarrow> bytes \<Rightarrow> bool" where
  "starts_with p xs \<longleftrightarrow> take (length p) xs = p"

definition ends_with :: "bytes \<Rightarrow> bytes \<Rightarrow> bool" where
  "ends_with p xs \<longleftrightarrow> starts_with (rev p) (rev xs)"

text \<open>\<open>find(pat)\<close>: where the first occurrence starts.\<close>

fun find_str :: "bytes \<Rightarrow> bytes \<Rightarrow> nat option" where
  "find_str p [] = (if p = [] then Some 0 else None)"
| "find_str p (x # xs) =
     (if starts_with p (x # xs) then Some 0 else map_option Suc (find_str p xs))"

definition contains :: "bytes \<Rightarrow> bytes \<Rightarrow> bool" where
  "contains p xs \<longleftrightarrow> find_str p xs \<noteq> None"

definition split_once :: "bytes \<Rightarrow> bytes \<Rightarrow> (bytes \<times> bytes) option" where
  "split_once p xs = map_option (\<lambda>i. (take i xs, drop (i + length p) xs)) (find_str p xs)"

text \<open>\<open>rfind(c)\<close>: where the last occurrence of a character is.\<close>

definition rfind :: "byte \<Rightarrow> bytes \<Rightarrow> nat option" where
  "rfind c xs = map_option (\<lambda>i. length xs - 1 - i) (find_str [c] (rev xs))"

definition trim_end_matches :: "byte \<Rightarrow> bytes \<Rightarrow> bytes" where
  "trim_end_matches c xs = rev (dropWhile (\<lambda>x. x = c) (rev xs))"

definition trim_matches :: "byte set \<Rightarrow> bytes \<Rightarrow> bytes" where
  "trim_matches cs xs = rev (dropWhile (\<lambda>x. x \<in> cs) (rev (dropWhile (\<lambda>x. x \<in> cs) xs)))"

text \<open>\<open>trim\<close> removes Unicode \<open>White_Space\<close>: these code points, in UTF-8.\<close>

definition white_space :: "bytes list" where
  "white_space =
     [[CHR 0x09], [CHR 0x0A], [CHR 0x0B], [CHR 0x0C], [CHR 0x0D], [CHR 0x20], [CHR 0xC2, CHR 0x85], [CHR 0xC2, CHR 0xA0],
      [CHR 0xE1, CHR 0x9A, CHR 0x80], [CHR 0xE2, CHR 0x80, CHR 0x80], [CHR 0xE2, CHR 0x80, CHR 0x81],
      [CHR 0xE2, CHR 0x80, CHR 0x82], [CHR 0xE2, CHR 0x80, CHR 0x83], [CHR 0xE2, CHR 0x80, CHR 0x84],
      [CHR 0xE2, CHR 0x80, CHR 0x85], [CHR 0xE2, CHR 0x80, CHR 0x86], [CHR 0xE2, CHR 0x80, CHR 0x87],
      [CHR 0xE2, CHR 0x80, CHR 0x88], [CHR 0xE2, CHR 0x80, CHR 0x89], [CHR 0xE2, CHR 0x80, CHR 0x8A],
      [CHR 0xE2, CHR 0x80, CHR 0xA8], [CHR 0xE2, CHR 0x80, CHR 0xA9], [CHR 0xE2, CHR 0x80, CHR 0xAF],
      [CHR 0xE2, CHR 0x81, CHR 0x9F], [CHR 0xE3, CHR 0x80, CHR 0x80]]"

text \<open>Dropping pieces of a list of non-empty patterns from the front; fuel: one step per byte.\<close>

fun drop_pieces :: "bytes list \<Rightarrow> nat \<Rightarrow> bytes \<Rightarrow> bytes" where
  "drop_pieces ps 0 xs = xs"
| "drop_pieces ps (Suc n) xs =
     (case find (\<lambda>p. starts_with p xs) ps of
        None \<Rightarrow> xs
      | Some p \<Rightarrow> drop_pieces ps n (drop (length p) xs))"

definition trim :: "bytes \<Rightarrow> bytes" where
  "trim xs =
     (let ys = drop_pieces white_space (length xs) xs
      in rev (drop_pieces (map rev white_space) (length ys) (rev ys)))"

section \<open>Numbers\<close>

definition digit :: "nat \<Rightarrow> byte" where
  "digit n = char_of (48 + n)"

definition is_digit :: "byte \<Rightarrow> bool" where
  "is_digit c \<longleftrightarrow> byte_in 48 57 c"

definition digit_val :: "byte \<Rightarrow> nat" where
  "digit_val c = byte_val c - 48"

text \<open>\<open>{}\<close> of an unsigned integer.\<close>

function show_nat :: "nat \<Rightarrow> bytes" where
  "show_nat n = (if n < 10 then [digit n] else show_nat (n div 10) @ [digit (n mod 10)])"
  by pat_completeness auto
termination by (relation "measure id") auto

declare show_nat.simps [simp del]

text \<open>\<open>{}\<close> and \<open>{:0w}\<close> of a signed integer: the sign counts as one of the \<open>w\<close> places.\<close>

definition show_int :: "int \<Rightarrow> bytes" where
  "show_int i = (if i < 0 then ''-'' @ show_nat (nat (- i)) else show_nat (nat i))"

definition show_pad :: "nat \<Rightarrow> int \<Rightarrow> bytes" where
  "show_pad w i =
     (let s = show_nat (nat \<bar>i\<bar>); sign = (if i < 0 then ''-'' else [])
      in sign @ replicate (w - length sign - length s) CHR ''0'' @ s)"

definition num_val :: "bytes \<Rightarrow> nat" where
  "num_val ds = foldl (\<lambda>n c. n * 10 + digit_val c) 0 ds"

text \<open>
  \<open>u64::from_str\<close>: an optional \<open>+\<close>, at least one digit, nothing else, and no overflow.
\<close>

definition parse_u64 :: "bytes \<Rightarrow> u64 option" where
  "parse_u64 xs =
     (let ds = (case xs of x # ys \<Rightarrow> if x = CHR ''+'' then ys else xs | [] \<Rightarrow> xs)
      in if ds = [] \<or> \<not> list_all is_digit ds then None
         else if num_val ds < 2 ^ 64 then Some (of_nat (num_val ds)) else None)"

section \<open>Lemmas\<close>

lemma byte_val_char_of [simp]: "n < 256 \<Longrightarrow> byte_val (char_of n) = n"
  by (simp add: byte_val_def)

lemma byte_val_inject: "byte_val c = byte_val d \<longleftrightarrow> c = d"
  by (simp add: byte_val_def)

lemma byte_val_bound: "byte_val c < 256"
  by (simp add: byte_val_def)

lemma digit_simps [simp]:
  "n < 10 \<Longrightarrow> is_digit (digit n)" "n < 10 \<Longrightarrow> digit_val (digit n) = n"
  by (simp_all add: digit_def is_digit_def byte_in_def digit_val_def)

lemma show_nat_digits: "list_all is_digit (show_nat n)"
  by (induction n rule: show_nat.induct) (subst show_nat.simps, auto)

lemma show_nat_nonempty [simp]: "show_nat n \<noteq> []"
  by (subst show_nat.simps) simp

lemma num_val_snoc: "num_val (ds @ [c]) = num_val ds * 10 + digit_val c"
  by (simp add: num_val_def)

lemma num_val_show_nat [simp]: "num_val (show_nat n) = n"
proof (induction n rule: show_nat.induct)
  case (1 n)
  show ?case
  proof (cases "n < 10")
    case True
    then show ?thesis by (subst show_nat.simps) (simp add: num_val_def)
  next
    case False
    then have "num_val (show_nat n) = num_val (show_nat (n div 10)) * 10 + n mod 10"
      by (subst show_nat.simps) (simp add: num_val_snoc)
    then show ?thesis using 1 False by simp
  qed
qed

lemma parse_show_nat:
  assumes "n < 2 ^ 64"
  shows "parse_u64 (show_nat n) = Some (of_nat n)"
proof -
  obtain c ds where c: "show_nat n = c # ds" by (meson neq_Nil_conv show_nat_nonempty)
  moreover have "is_digit c" using show_nat_digits [of n] c by simp
  then have "c \<noteq> CHR ''+''" by (auto simp: is_digit_def byte_in_def byte_val_def)
  ultimately have "parse_u64 (show_nat n) = (if num_val (show_nat n) < 2 ^ 64 then Some (of_nat (num_val (show_nat n))) else None)"
    using show_nat_digits [of n] by (simp add: parse_u64_def)
  then show ?thesis using assms by simp
qed

lemma parse_show_u64: "parse_u64 (show_nat (unat n)) = Some n"
  using parse_show_nat [OF u64_bound, of n] by simp

text \<open>Splitting what has no separator, and the first piece of what has one.\<close>

lemma split_on_ne [simp]: "split_on c xs \<noteq> []"
  by (induction xs) (auto split: list.splits)

lemma split_on_none: "c \<notin> set xs \<Longrightarrow> split_on c xs = [xs]"
  by (induction xs) auto

lemma split_on_append: "c \<notin> set xs \<Longrightarrow> split_on c (xs @ c # ys) = xs # split_on c ys"
  by (induction xs) (auto split: list.splits)

lemma find_str_char: "find_str [c] xs = (if c \<in> set xs then Some (length (takeWhile (\<lambda>x. x \<noteq> c) xs)) else None)"
  by (induction xs) (auto simp: starts_with_def)

lemma split_once_char: "c \<notin> set xs \<Longrightarrow> split_once [c] (xs @ c # ys) = Some (xs, ys)"
proof -
  assume "c \<notin> set xs"
  then have "takeWhile (\<lambda>x. x \<noteq> c) (xs @ c # ys) = xs" by (subst takeWhile_append2) auto
  then show ?thesis by (simp add: split_once_def find_str_char)
qed

lemma split_once_none: "c \<notin> set xs \<Longrightarrow> split_once [c] xs = None"
  by (simp add: split_once_def find_str_char)

end
