(* ===== verification/Dav_Fs.thy ===== *)
theory Dav_Fs
  imports File_Handle Rust_Str
begin

text \<open>
  The file system of \<open>crates/vfs/src/davfs.rs\<close>: path resolution, the operations
  \<open>dav-server\<close> calls, the version operations, search and garbage collection, each as a
  function of the environment and the shared state. A \<open>DavPath\<close> is its decoded bytes. An
  operation here runs on its own; theory \<open>Gc_Protocol\<close> interleaves the parts that matter
  to garbage collection.
\<close>

section \<open>Paths\<close>

definition segments :: "bytes \<Rightarrow> bytes list" where
  "segments path = filter (\<lambda>s. s \<noteq> []) (split_on CHR ''/'' path)"

text \<open>\<open>path\<close> lies strictly inside the collection at \<open>prefix\<close>.\<close>

definition is_within :: "bytes \<Rightarrow> bytes \<Rightarrow> bool" where
  "is_within path prefix \<longleftrightarrow>
     length path > length prefix \<and> take (length prefix) path = prefix \<and> path ! length prefix = CHR ''/''"

section \<open>Metadata adapters (\<open>metadata.rs\<close>)\<close>

record meta =
  m_len :: u64
  m_created :: system_time
  m_modified :: system_time
  m_is_dir :: bool

definition meta_from_node :: "node \<Rightarrow> meta" where
  "meta_from_node n = \<lparr>m_len = (if is_dir n then 0 else node_size n), m_created = created n,
     m_modified = modified n, m_is_dir = is_dir n\<rparr>"

text \<open>\<open>DavFile::metadata\<close> of an open handle: its times as of the opening, its length now.\<close>

definition handle_metadata :: "file_handle \<Rightarrow> meta" where
  "handle_metadata h = \<lparr>m_len = handle_len h, m_created = h_created h, m_modified = h_modified h,
     m_is_dir = False\<rparr>"

record dir_entry =
  de_name :: bytes
  de_meta :: meta

definition dir_entry_from_node :: "node \<Rightarrow> dir_entry" where
  "dir_entry_from_node n = \<lparr>de_name = node_name n, de_meta = meta_from_node n\<rparr>"

section \<open>Resolution\<close>

definition meta_lookup :: "'t env \<Rightarrow> 't fs_state \<Rightarrow> bytes list \<Rightarrow> meta_error + node" where
  "meta_lookup E s segs = lookup_path (e_sql E) (fs_db s) segs"

definition resolve :: "'t env \<Rightarrow> 't fs_state \<Rightarrow> bytes \<Rightarrow> fs_error + node" where
  "resolve E s path = map_err meta_to_fs (meta_lookup E s (segments path))"

definition resolve_file :: "'t env \<Rightarrow> 't fs_state \<Rightarrow> bytes \<Rightarrow> vfs_error + node" where
  "resolve_file E s path =
     and_then (map_err VfsMeta (meta_lookup E s (segments path))) (\<lambda>n.
     if is_dir n then Inl (VfsMeta MetaIsADirectory) else Inr n)"

section \<open>Versions\<close>

record version_info =
  vi_number :: u64
  vi_size :: u64
  vi_created :: system_time
  vi_is_current :: bool

definition dav_list_versions :: "'t env \<Rightarrow> 't fs_state \<Rightarrow> bytes \<Rightarrow> vfs_error + version_info list" where
  "dav_list_versions E s path =
     and_then (resolve_file E s path) (\<lambda>n.
     and_then (map_err VfsMeta (list_versions (e_sql E) (fs_db s) (node_id n))) (\<lambda>vs.
     Inr (map (\<lambda>v. \<lparr>vi_number = number v, vi_size = version_size v, vi_created = version_created v,
       vi_is_current = (Some (version_id v) = current_version_id n)\<rparr>) vs)))"

record version_reader =
  vr_size :: u64
  vr_chunks :: chunk_stream

definition open_version :: "'t env \<Rightarrow> 't fs_state \<Rightarrow> bytes \<Rightarrow> u64 \<Rightarrow> vfs_error + version_reader" where
  "open_version E s path k =
     and_then (resolve_file E s path) (\<lambda>n.
     and_then (map_err VfsMeta (version_by_number (e_sql E) (fs_db s) (node_id n) k)) (\<lambda>v.
     and_then (map_err VfsMeta (load_version_manifest (e_b3 E) (e_sql E) (fs_db s) (version_id v))) (\<lambda>m.
     Inr \<lparr>vr_size = version_size v, vr_chunks = stream_new m\<rparr>)))"

definition reader_next_chunk ::
  "'t env \<Rightarrow> 't fs_state \<Rightarrow> version_reader \<Rightarrow> version_reader \<times> (io_error + bytes) option"
where
  "reader_next_chunk E s r =
     (case next_chunk (blob_get E s) (vr_chunks r) of (c, x) \<Rightarrow> (r\<lparr>vr_chunks := c\<rparr>, x))"

definition MAX_IN_MEMORY_VERSION :: u64 where "MAX_IN_MEMORY_VERSION = 256 * 1024 * 1024"

definition reconstruct :: "'t env \<Rightarrow> 't fs_state \<Rightarrow> manifest \<Rightarrow> u64 \<Rightarrow> u64 \<Rightarrow> vfs_error + bytes" where
  "reconstruct E s m sz max_bytes =
     (if sz > max_bytes then Inl (VfsTooLarge sz) else map_err VfsIo (read_all (blob_get E s) m))"

definition read_version :: "'t env \<Rightarrow> 't fs_state \<Rightarrow> bytes \<Rightarrow> u64 \<Rightarrow> vfs_error + bytes" where
  "read_version E s path k =
     and_then (resolve_file E s path) (\<lambda>n.
     and_then (map_err VfsMeta (version_by_number (e_sql E) (fs_db s) (node_id n) k)) (\<lambda>v.
     and_then (map_err VfsMeta (load_version_manifest (e_b3 E) (e_sql E) (fs_db s) (version_id v))) (\<lambda>m.
     reconstruct E s m (version_size v) MAX_IN_MEMORY_VERSION)))"

definition read_current :: "'t env \<Rightarrow> 't fs_state \<Rightarrow> bytes \<Rightarrow> u64 \<Rightarrow> vfs_error + bytes" where
  "read_current E s path max_bytes =
     and_then (resolve_file E s path) (\<lambda>n.
     and_then (map_err VfsMeta (load_manifest (e_b3 E) (e_sql E) (fs_db s) (node_id n))) (\<lambda>m.
     reconstruct E s m (node_size n) max_bytes))"

definition dav_is_dir :: "'t env \<Rightarrow> 't fs_state \<Rightarrow> bytes \<Rightarrow> vfs_error + bool" where
  "dav_is_dir E s path = and_then (map_err VfsMeta (meta_lookup E s (segments path))) (\<lambda>n. Inr (is_dir n))"

record dir_entry_info =
  di_name :: bytes
  di_is_dir :: bool
  di_size :: u64
  di_modified :: system_time

definition list_dir :: "'t env \<Rightarrow> 't fs_state \<Rightarrow> bytes \<Rightarrow> vfs_error + dir_entry_info list" where
  "list_dir E s path =
     and_then (map_err VfsMeta (meta_lookup E s (segments path))) (\<lambda>n.
     if \<not> is_dir n then Inl (VfsMeta MetaNotADirectory)
     else and_then (map_err VfsMeta (children (e_sql E) (fs_db s) (node_id n))) (\<lambda>ns.
       Inr (map (\<lambda>c. \<lparr>di_name = from_utf8_lossy (node_name c), di_is_dir = is_dir c, di_size = node_size c,
           di_modified = modified c\<rparr>)
         (filter (\<lambda>c. take 1 (node_name c) \<noteq> ''.'') ns))))"

definition revert_to_version :: "'t env \<Rightarrow> 't fs_state \<Rightarrow> bytes \<Rightarrow> u64 \<Rightarrow> 't fs_state \<times> (vfs_error + unit)" where
  "revert_to_version E s path k =
     (case and_then (resolve_file E s path) (\<lambda>n.
         and_then (map_err VfsMeta (version_by_number (e_sql E) (fs_db s) (node_id n) k)) (\<lambda>v. Inr (n, version_id v))) of
        Inl e \<Rightarrow> (s, Inl e)
      | Inr (n, v) \<Rightarrow>
          (case reference_under_guard E s (node_id n) (\<lambda>d. load_version_manifest (e_b3 E) (e_sql E) d v) of
             (s', Inl e) \<Rightarrow> (s', Inl (VfsMeta e))
           | (s', Inr _) \<Rightarrow> (reindex E s' (node_id n), Inr ())))"

definition prune_version :: "'t env \<Rightarrow> 't fs_state \<Rightarrow> bytes \<Rightarrow> u64 \<Rightarrow> 't fs_state \<times> (vfs_error + unit)" where
  "prune_version E s path k =
     (case resolve_file E s path of
        Inl e \<Rightarrow> (s, Inl e)
      | Inr n \<Rightarrow> (case delete_version (e_sql E) (fs_db s) (node_id n) k of
                   (d, r) \<Rightarrow> (s\<lparr>fs_db := d\<rparr>, map_err VfsMeta r)))"

section \<open>Search\<close>

definition MAX_SEARCH_FETCH :: nat where "MAX_SEARCH_FETCH = 1000"

record search_result =
  sr_path :: bytes
  sr_snippet :: "bytes option"
  sr_score :: score

fun search_loop ::
  "'t env \<Rightarrow> db \<Rightarrow> bytes option \<Rightarrow> nat \<Rightarrow> hit list \<Rightarrow> search_result list \<Rightarrow> vfs_error + search_result list"
where
  "search_loop E d scope limit [] results = Inr results"
| "search_loop E d scope limit (h # hits) results =
     (if length results \<ge> limit then Inr results
      else and_then (map_err VfsMeta (path_of (e_sql E) d (u64_as_i64 (hit_node_id h)))) (\<lambda>p.
        case p of
          None \<Rightarrow> search_loop E d scope limit hits results
        | Some path \<Rightarrow>
            if (case scope of None \<Rightarrow> False | Some prefix \<Rightarrow> \<not> is_within path prefix)
            then search_loop E d scope limit hits results
            else search_loop E d scope limit hits
              (results @ [\<lparr>sr_path = from_utf8_lossy path, sr_snippet = hit_snippet h, sr_score = hit_score h\<rparr>])))"

definition dav_search :: "'t env \<Rightarrow> 't fs_state \<Rightarrow> string \<Rightarrow> nat \<Rightarrow> bytes \<Rightarrow> vfs_error + search_result list" where
  "dav_search E s query limit scope =
     and_then (map_err VfsMeta (meta_lookup E s (segments scope))) (\<lambda>n.
     and_then (if node_id n = ROOT_ID then Inr None
               else map_err VfsMeta (path_of (e_sql E) (fs_db s) (node_id n))) (\<lambda>prefix.
     let fetch = (if prefix \<noteq> None then MAX_SEARCH_FETCH else limit) in
     and_then (map_err VfsIndex (index_search (e_tv E) (fs_index s) query fetch)) (\<lambda>hits.
     search_loop E (fs_db s) prefix limit hits [])))"

section \<open>Garbage collection\<close>

record gc_stats =
  blobs_scanned :: u64
  blobs_removed :: u64
  bytes_reclaimed :: u64
  blobs_failed :: u64

definition gc_stats_default :: gc_stats where
  "gc_stats_default = \<lparr>blobs_scanned = 0, blobs_removed = 0, bytes_reclaimed = 0, blobs_failed = 0\<rparr>"

text \<open>Whether a removal fails may differ from blob to blob: \<open>flt h\<close> are the faults at \<open>h\<close>.\<close>

fun sweep :: "blake3_lib \<Rightarrow> (hash \<Rightarrow> faults) \<Rightarrow> hash set \<Rightarrow> hash list \<Rightarrow> disk \<Rightarrow> gc_stats \<Rightarrow> disk \<times> gc_stats" where
  "sweep B flt live [] k st = (k, st)"
| "sweep B flt live (h # hs) k st =
     (let st = st\<lparr>blobs_scanned := blobs_scanned st + 1\<rparr> in
      if h \<in> live then sweep B flt live hs k st
      else case Blob_Store.remove B (flt h) k h of
        (k', Inr n) \<Rightarrow> sweep B flt live hs k'
          (st\<lparr>bytes_reclaimed := bytes_reclaimed st + n, blobs_removed := blobs_removed st + 1\<rparr>)
      | (k', Inl e) \<Rightarrow> sweep B flt live hs k' (st\<lparr>blobs_failed := blobs_failed st + 1\<rparr>))"

definition gc ::
  "'t env \<Rightarrow> (hash \<Rightarrow> faults) \<Rightarrow> scan_faults \<Rightarrow> 't fs_state \<Rightarrow> 't fs_state \<times> (vfs_error + gc_stats)"
where
  "gc E flt sf s =
     (case and_then (map_err VfsMeta (referenced_chunk_hashes (e_b3 E) (e_sql E) (fs_db s))) (\<lambda>live.
         and_then (map_err VfsIo (list_hashes (e_b3 E) (e_io E) sf (fs_disk s))) (\<lambda>hs. Inr (live, hs))) of
        Inl e \<Rightarrow> (s, Inl e)
      | Inr (live, hs) \<Rightarrow>
          (case sweep (e_b3 E) flt live hs (fs_disk s) gc_stats_default of
             (k, st) \<Rightarrow> (s\<lparr>fs_disk := k\<rparr>, Inr st)))"

section \<open>The operations of \<open>DavFileSystem\<close>\<close>

record open_options =
  o_write :: bool
  o_append :: bool
  o_truncate :: bool
  o_create :: bool
  o_create_new :: bool

text \<open>
  Every operation on an entry that may not exist yet splits off the last segment and looks
  the parent collection up: \<open>split_parent\<close> is that common prefix of their bodies.
\<close>

definition split_parent :: "'t env \<Rightarrow> 't fs_state \<Rightarrow> bytes \<Rightarrow> fs_error + (node \<times> bytes)" where
  "split_parent E s path =
     (let segs = segments path in
      if segs = [] then Inl FsForbidden
      else and_then (map_err meta_to_fs (meta_lookup E s (butlast segs))) (\<lambda>parent.
        if \<not> is_dir parent then Inl FsForbidden else Inr (parent, last segs)))"

definition child_of :: "'t env \<Rightarrow> 't fs_state \<Rightarrow> node \<Rightarrow> bytes \<Rightarrow> fs_error + node option" where
  "child_of E s parent nm = map_err meta_to_fs (lookup_child (e_sql E) (fs_db s) (node_id parent) nm)"

definition open_new ::
  "'t env \<Rightarrow> temp_faults \<Rightarrow> 't fs_state \<Rightarrow> node \<Rightarrow> bytes \<Rightarrow> open_options \<Rightarrow> 't fs_state \<times> (fs_error + file_handle)"
where
  "open_new E tf s parent nm opts =
     (if \<not> o_create opts \<and> \<not> o_create_new opts then (s, Inl FsNotFound)
      else case create_file (e_sql E) (e_now E) (fs_db s) (node_id parent) nm of
        (d, Inl e) \<Rightarrow> (s\<lparr>fs_db := d\<rparr>, Inl (meta_to_fs e))
      | (d, Inr n) \<Rightarrow>
          (s\<lparr>fs_db := d\<rparr>, map_err io_to_fs (new_write (blob_get E s) tf n False None (o_truncate opts))))"

definition open_existing ::
  "'t env \<Rightarrow> temp_faults \<Rightarrow> 't fs_state \<Rightarrow> node \<Rightarrow> open_options \<Rightarrow> fs_error + file_handle"
where
  "open_existing E tf s n opts =
     (if is_dir n then Inl FsForbidden
      else if o_create_new opts then Inl FsExists
      else if o_write opts then
        and_then (if o_truncate opts then Inr None
          else and_then (map_err meta_to_fs (load_manifest (e_b3 E) (e_sql E) (fs_db s) (node_id n))) (\<lambda>m. Inr (Some m)))
          (\<lambda>existing.
        map_err io_to_fs (new_write (blob_get E s) tf n (o_append opts) existing (o_truncate opts)))
      else and_then (map_err meta_to_fs (load_manifest (e_b3 E) (e_sql E) (fs_db s) (node_id n))) (\<lambda>m.
        Inr (new_read n m)))"

definition dav_open ::
  "'t env \<Rightarrow> temp_faults \<Rightarrow> 't fs_state \<Rightarrow> bytes \<Rightarrow> open_options \<Rightarrow> 't fs_state \<times> (fs_error + file_handle)"
where
  "dav_open E tf s path opts =
     (case and_then (split_parent E s path) (\<lambda>(parent, nm).
         and_then (child_of E s parent nm) (\<lambda>c. Inr (parent, nm, c))) of
        Inl e \<Rightarrow> (s, Inl e)
      | Inr (parent, nm, Some n) \<Rightarrow> (s, open_existing E tf s n opts)
      | Inr (parent, nm, None) \<Rightarrow> open_new E tf s parent nm opts)"

definition metadata :: "'t env \<Rightarrow> 't fs_state \<Rightarrow> bytes \<Rightarrow> fs_error + meta" where
  "metadata E s path = and_then (resolve E s path) (\<lambda>n. Inr (meta_from_node n))"

definition read_dir :: "'t env \<Rightarrow> 't fs_state \<Rightarrow> bytes \<Rightarrow> fs_error + dir_entry list" where
  "read_dir E s path =
     and_then (resolve E s path) (\<lambda>n.
     if \<not> is_dir n then Inl FsForbidden
     else and_then (map_err meta_to_fs (children (e_sql E) (fs_db s) (node_id n))) (\<lambda>cs.
       Inr (map dir_entry_from_node cs)))"

definition dav_create_dir :: "'t env \<Rightarrow> 't fs_state \<Rightarrow> bytes \<Rightarrow> 't fs_state \<times> (fs_error + unit)" where
  "dav_create_dir E s path =
     (case split_parent E s path of
        Inl e \<Rightarrow> (s, Inl e)
      | Inr (parent, nm) \<Rightarrow>
          (case create_dir (e_sql E) (e_now E) (fs_db s) (node_id parent) nm of
             (d, Inl e) \<Rightarrow> (s\<lparr>fs_db := d\<rparr>, Inl (meta_to_fs e))
           | (d, Inr _) \<Rightarrow> (s\<lparr>fs_db := d\<rparr>, Inr ())))"

definition dav_remove_dir :: "'t env \<Rightarrow> 't fs_state \<Rightarrow> bytes \<Rightarrow> 't fs_state \<times> (fs_error + unit)" where
  "dav_remove_dir E s path =
     (case resolve E s path of
        Inl e \<Rightarrow> (s, Inl e)
      | Inr n \<Rightarrow>
          if node_id n = ROOT_ID then (s, Inl FsForbidden)
          else case Meta_Store.remove_dir (e_sql E) (fs_db s) (node_id n) of
            (d, r) \<Rightarrow> (s\<lparr>fs_db := d\<rparr>, map_err meta_to_fs r))"

definition dav_remove_file :: "'t env \<Rightarrow> 't fs_state \<Rightarrow> bytes \<Rightarrow> 't fs_state \<times> (fs_error + unit)" where
  "dav_remove_file E s path =
     (case resolve E s path of
        Inl e \<Rightarrow> (s, Inl e)
      | Inr n \<Rightarrow>
          (case Meta_Store.remove_file (e_sql E) (fs_db s) (node_id n) of
             (d, Inl e) \<Rightarrow> (s\<lparr>fs_db := d\<rparr>, Inl (meta_to_fs e))
           | (d, Inr _) \<Rightarrow>
               (let s' = s\<lparr>fs_db := d\<rparr> in
                (if is_indexable_name (node_name n) then deindex E s' (node_id n) else s', Inr ()))))"

text \<open>The checks \<open>rename\<close> and \<open>copy\<close> share: the destination is not below the source.\<close>

definition check_not_inside :: "'t env \<Rightarrow> 't fs_state \<Rightarrow> node \<Rightarrow> node \<Rightarrow> fs_error + unit" where
  "check_not_inside E s src parent =
     (if is_dir src then
        and_then (map_err meta_to_fs (is_ancestor_or_self (e_sql E) (fs_db s) (node_id src) (node_id parent)))
          (\<lambda>inside. if inside then Inl FsForbidden else Inr ())
      else Inr ())"

text \<open>An existing file at the destination of \<open>rename\<close> is removed with its index document.\<close>

definition clobber :: "'t env \<Rightarrow> 't fs_state \<Rightarrow> node option \<Rightarrow> 't fs_state \<times> (fs_error + unit)" where
  "clobber E s existing =
     (case existing of
        None \<Rightarrow> (s, Inr ())
      | Some x \<Rightarrow>
          if is_dir x then (s, Inl FsExists)
          else case Meta_Store.remove_file (e_sql E) (fs_db s) (node_id x) of
            (d, Inl e) \<Rightarrow> (s\<lparr>fs_db := d\<rparr>, Inl (meta_to_fs e))
          | (d, Inr _) \<Rightarrow>
              (let s' = s\<lparr>fs_db := d\<rparr> in
               (if is_indexable_name (node_name x) then deindex E s' (node_id x) else s', Inr ())))"

definition dav_rename :: "'t env \<Rightarrow> 't fs_state \<Rightarrow> bytes \<Rightarrow> bytes \<Rightarrow> 't fs_state \<times> (fs_error + unit)" where
  "dav_rename E s from_path to_path =
     (case and_then (resolve E s from_path) (\<lambda>src.
         and_then (if node_id src = ROOT_ID then Inl FsForbidden else Inr ()) (\<lambda>_.
         and_then (split_parent E s to_path) (\<lambda>(parent, nm).
         and_then (check_not_inside E s src parent) (\<lambda>_.
         and_then (child_of E s parent nm) (\<lambda>existing. Inr (src, parent, nm, existing)))))) of
        Inl e \<Rightarrow> (s, Inl e)
      | Inr (src, parent, nm, existing) \<Rightarrow>
          (case clobber E s existing of
             (s1, Inl e) \<Rightarrow> (s1, Inl e)
           | (s1, Inr _) \<Rightarrow>
               (case Meta_Store.rename (e_sql E) (fs_db s1) (node_id src) (node_id parent) nm of
                  (d, r) \<Rightarrow> (s1\<lparr>fs_db := d\<rparr>, map_err meta_to_fs r))))"

text \<open>The destination of a file's copy: its node, and whether it existed before.\<close>

definition copy_target ::
  "'t env \<Rightarrow> 't fs_state \<Rightarrow> node \<Rightarrow> bytes \<Rightarrow> node option \<Rightarrow> 't fs_state \<times> (fs_error + (i64 \<times> bool))"
where
  "copy_target E s parent nm existing =
     (case existing of
        Some x \<Rightarrow> (s, Inr (node_id x, True))
      | None \<Rightarrow>
          (case create_file (e_sql E) (e_now E) (fs_db s) (node_id parent) nm of
             (d, Inl e) \<Rightarrow> (s\<lparr>fs_db := d\<rparr>, Inl (meta_to_fs e))
           | (d, Inr n) \<Rightarrow> (s\<lparr>fs_db := d\<rparr>, Inr (node_id n, False))))"

definition copy_dir ::
  "'t env \<Rightarrow> 't fs_state \<Rightarrow> node \<Rightarrow> bytes \<Rightarrow> node option \<Rightarrow> 't fs_state \<times> (fs_error + unit)"
where
  "copy_dir E s parent nm existing =
     (if existing \<noteq> None then (s, Inr ())
      else case create_dir (e_sql E) (e_now E) (fs_db s) (node_id parent) nm of
        (d, Inl e) \<Rightarrow> (s\<lparr>fs_db := d\<rparr>, Inl (meta_to_fs e))
      | (d, Inr _) \<Rightarrow> (s\<lparr>fs_db := d\<rparr>, Inr ()))"

definition copy_file ::
  "'t env \<Rightarrow> 't fs_state \<Rightarrow> node \<Rightarrow> node \<Rightarrow> bytes \<Rightarrow> node option \<Rightarrow> 't fs_state \<times> (fs_error + unit)"
where
  "copy_file E s src parent nm existing =
     (case copy_target E s parent nm existing of
        (s1, Inl e) \<Rightarrow> (s1, Inl e)
      | (s1, Inr (dst, existed)) \<Rightarrow>
          if current_version_id src \<noteq> None \<or> existed then
            (case reference_under_guard E s1 dst (\<lambda>d. load_manifest (e_b3 E) (e_sql E) d (node_id src)) of
               (s2, Inl e) \<Rightarrow> (s2, Inl (meta_to_fs e))
             | (s2, Inr _) \<Rightarrow> (reindex E s2 dst, Inr ()))
          else (s1, Inr ()))"

definition dav_copy :: "'t env \<Rightarrow> 't fs_state \<Rightarrow> bytes \<Rightarrow> bytes \<Rightarrow> 't fs_state \<times> (fs_error + unit)" where
  "dav_copy E s from_path to_path =
     (case and_then (resolve E s from_path) (\<lambda>src.
         and_then (split_parent E s to_path) (\<lambda>(parent, nm).
         and_then (check_not_inside E s src parent) (\<lambda>_.
         and_then (child_of E s parent nm) (\<lambda>existing.
         if (case existing of Some x \<Rightarrow> is_dir x \<noteq> is_dir src | None \<Rightarrow> False) then Inl FsExists
         else Inr (src, parent, nm, existing))))) of
        Inl e \<Rightarrow> (s, Inl e)
      | Inr (src, parent, nm, existing) \<Rightarrow>
          if is_dir src then copy_dir E s parent nm existing else copy_file E s src parent nm existing)"

definition dav_set_modified ::
  "'t env \<Rightarrow> 't fs_state \<Rightarrow> bytes \<Rightarrow> system_time \<Rightarrow> 't fs_state \<times> (fs_error + unit)"
where
  "dav_set_modified E s path tm =
     (case resolve E s path of
        Inl e \<Rightarrow> (s, Inl e)
      | Inr n \<Rightarrow> (case Meta_Store.set_modified (e_sql E) (fs_db s) (node_id n) tm of
                   (d, r) \<Rightarrow> (s\<lparr>fs_db := d\<rparr>, map_err meta_to_fs r)))"

text \<open>Access times are not tracked.\<close>

definition set_accessed :: "'t env \<Rightarrow> 't fs_state \<Rightarrow> bytes \<Rightarrow> system_time \<Rightarrow> fs_error + unit" where
  "set_accessed E s path tm = and_then (resolve E s path) (\<lambda>_. Inr ())"

end
