(* ===== verification/Handle_Refine.thy ===== *)
theory Handle_Refine
  imports File_Handle
begin

text \<open>
  What an open file (theory \<open>File_Handle\<close>) means: a read handle is a position in the bytes
  its manifest stands for, and a write handle is a position in a byte string that writes
  splice into. Reading is an instance of the interface \<open>byte_reader\<close>.
\<close>

section \<open>Reading a manifest by position\<close>

definition cache_ok :: "(hash \<Rightarrow> io_error + bytes) \<Rightarrow> manifest \<Rightarrow> (nat \<times> bytes) option \<Rightarrow> bool" where
  "cache_ok gt m cache \<longleftrightarrow>
     (case cache of None \<Rightarrow> True
      | Some (i, b) \<Rightarrow> i < length (chunks m) \<and> gt (cr_hash (chunks m ! i)) = Inr b)"

lemma take_slice_step:
  assumes "b @ drop hi d = drop lo d" and "k \<le> length b" and "n = min w (length b - k)"
  shows "take w (drop k b) = take n (drop (lo + k) d)"
proof -
  have "drop (lo + k) d = drop k (b @ drop hi d)" using assms(1) by (simp add: add.commute)
  also have "\<dots> = drop k b @ drop hi d" using assms(2) by simp
  finally show ?thesis using assms(3) by (simp add: min_def)
qed

text \<open>One turn of the loop reads the rest of the chunk that holds the position.\<close>

lemma fill_step:
  assumes c: "manifest_content (view_of gt) m = Some d" and cache: "cache_ok gt m cache"
    and pos: "unat start + length out < length d" and lt: "length out < want"
  obtains n cache' where "0 < n" and "n \<le> want - length out" and "cache_ok gt m cache'"
    and "unat start + length out + n \<le> length d"
    and "fill gt m want start out cache = fill gt m want start (out @ take n (drop (unat start + length out) d)) cache'"
proof -
  let ?p = "unat start + length out" and ?t = "start + of_nat (length out)"
  have small: "length d < 2 ^ 64" by (rule content_small [OF c])
  have "unat (of_nat (length out) :: u64) = length out" using pos small by (simp add: unat_of_nat_small)
  then have p: "unat ?t = ?p" using pos small by (subst unat_add_no_wrap) simp_all
  have "?t < total_size m" using p pos manifest_content_length [OF c] by (simp add: word_less_nat_alt)
  then obtain i where i: "binary_search_by (chunk_cmp ?t) (chunks m) = Inr i" "i < length (chunks m)"
    and lo: "refs_length (take i (chunks m)) \<le> ?p" and hi: "?p < refs_length (take (Suc i) (chunks m))"
    and off: "unat (cr_offset (chunks m ! i)) = refs_length (take i (chunks m))"
    using chunk_search [of m ?t] content_wf [OF c] p by metis
  obtain b where b: "gt (cr_hash (chunks m ! i)) = Inr b" "length b = unat (cr_length (chunks m ! i))"
    and join: "b @ drop (refs_length (take (Suc i) (chunks m))) d = drop (refs_length (take i (chunks m))) d"
    using content_chunk [OF c i(2)] by metis
  let ?k = "?p - refs_length (take i (chunks m))"
  have within: "unat (?t - cr_offset (chunks m ! i)) = ?k"
    using lo off p by (subst unat_sub) (simp_all add: word_le_nat_alt)
  have k: "?k < length b" using lo hi b(2) i(2) by (simp add: refs_length_take_Suc)
  have "refs_length (take i (chunks m)) \<le> length d" using lo pos by linarith
  then have fits: "refs_length (take i (chunks m)) + length b \<le> length d"
    using arg_cong [OF join, of length] by simp
  let ?n = "min (want - length out) (length b - ?k)"
  have data: "take (want - length out) (drop ?k b) = take ?n (drop ?p d)"
    using take_slice_step [OF join less_imp_le [OF k] refl, of "want - length out"] lo by simp
  have got: "(case cache of Some (j, data) \<Rightarrow> if j = i then Inr data else gt (cr_hash (chunks m ! i))
      | None \<Rightarrow> gt (cr_hash (chunks m ! i))) = Inr b"
    using cache b(1) by (auto simp: cache_ok_def split: option.splits)
  have "fill gt m want start out cache = fill gt m want start (out @ take ?n (drop ?p d)) (Some (i, b))"
    using lt k by (subst fill.simps) (simp add: i(1) got within data Let_def)
  moreover have "cache_ok gt m (Some (i, b))" using i(2) b(1) by (simp add: cache_ok_def)
  moreover have "0 < ?n" using k lt by simp
  moreover have "?p + ?n \<le> length d" using fits lo k by linarith
  ultimately show thesis by (intro that [of ?n "Some (i, b)"]) simp_all
qed

lemma fill_total:
  assumes c: "manifest_content (view_of gt) m = Some d"
  shows "cache_ok gt m cache \<Longrightarrow> unat start + want \<le> length d \<Longrightarrow> length out \<le> want
    \<Longrightarrow> \<exists>cache'. cache_ok gt m cache' \<and> fill gt m want start out cache
      = Some (cache', Inr (out @ take (want - length out) (drop (unat start + length out) d)))"
proof (induction "want - length out" arbitrary: out cache rule: less_induct)
  case less
  show ?case
  proof (cases "length out < want")
    case False
    then show ?thesis using less.prems by (subst fill.simps) simp
  next
    case True
    then have pos: "unat start + length out < length d" using less.prems by simp
    obtain n cache' where n: "0 < n" "n \<le> want - length out" and cache': "cache_ok gt m cache'"
      and fits: "unat start + length out + n \<le> length d"
      and eq: "fill gt m want start out cache = fill gt m want start (out @ take n (drop (unat start + length out) d)) cache'"
      by (rule fill_step [OF c less.prems(1) pos True])
    let ?out = "out @ take n (drop (unat start + length out) d)"
    have len: "length ?out = length out + n" using fits by simp
    have IH: "\<exists>cache''. cache_ok gt m cache'' \<and> fill gt m want start ?out cache'
        = Some (cache'', Inr (?out @ take (want - length ?out) (drop (unat start + length ?out) d)))"
      using less.hyps [of ?out cache'] n len cache' less.prems(2) True by simp
    have "take n (drop (unat start + length out) d) @ take (want - length ?out) (drop (unat start + length ?out) d)
        = take (want - length out) (drop (unat start + length out) d)"
    proof -
      have w: "n + (want - length ?out) = want - length out" using n(2) len True by linarith
      have q: "drop n (drop (unat start + length out) d) = drop (unat start + length ?out) d"
        using len by (simp add: ac_simps)
      show ?thesis
        using take_add [of n "want - length ?out" "drop (unat start + length out) d"] unfolding w q by (rule sym)
    qed
    then show ?thesis using IH eq by simp
  qed
qed

text \<open>A read handle on the bytes \<open>d\<close> at position \<open>p\<close>.\<close>

definition read_at :: "(hash \<Rightarrow> io_error + bytes) \<Rightarrow> bytes \<Rightarrow> nat \<Rightarrow> file_handle \<Rightarrow> bool" where
  "read_at gt d p h \<longleftrightarrow> unat (h_pos h) = p \<and>
     (\<exists>m cache. h_state h = ReadState m cache \<and> manifest_content (view_of gt) m = Some d \<and> cache_ok gt m cache)"

lemma read_at_new: "manifest_content (view_of gt) m = Some d \<Longrightarrow> read_at gt d 0 (new_read n m)"
  by (simp add: read_at_def new_read_def cache_ok_def)

lemma read_bytes_at:
  assumes "read_at gt d p h"
  shows "\<exists>h'. read_bytes gt tf h n = Some (h', Inr (take n (drop p d)))
    \<and> read_at gt d (p + length (take n (drop p d))) h'"
proof -
  obtain m cache where st: "h_state h = ReadState m cache" and c: "manifest_content (view_of gt) m = Some d"
    and cache: "cache_ok gt m cache" and p: "unat (h_pos h) = p"
    using assms by (auto simp: read_at_def)
  have len: "length d = unat (total_size m)" by (rule manifest_content_length [OF c])
  show ?thesis
  proof (cases "h_pos h \<ge> total_size m")
    case True
    then have "length d \<le> p" using len p by (simp add: word_le_nat_alt)
    then show ?thesis using True assms st by (simp add: read_bytes_def handle_len_def)
  next
    case False
    then have lt: "h_pos h < total_size m" by simp
    then have sub: "unat (total_size m - h_pos h) = length d - p"
      using len p by (subst unat_sub) (simp_all add: word_less_nat_alt word_le_nat_alt)
    let ?w = "min (length d - p) n"
    have fits: "unat (h_pos h) + ?w \<le> length d" using lt len p by (simp add: word_less_nat_alt)
    obtain cache' where cache': "cache_ok gt m cache'"
      and f: "fill gt m ?w (h_pos h) [] cache = Some (cache', Inr (take ?w (drop p d)))"
      using fill_total [OF c cache fits, of "[]"] p by auto
    have tk: "take ?w (drop p d) = take n (drop p d)" by (simp add: min_def)
    have small: "p + ?w < 2 ^ 64" using fits p content_small [OF c] by simp
    then have "unat (of_nat ?w :: u64) = ?w" by (simp add: unat_of_nat_small del: of_nat_min)
    then have "unat (h_pos h + of_nat ?w) = p + ?w" using p small by (subst unat_add_no_wrap) simp_all
    then have at': "read_at gt d (p + ?w) (h\<lparr>h_state := ReadState m cache', h_pos := h_pos h + of_nat ?w\<rparr>)"
      using c cache' by (simp add: read_at_def)
    have "read_bytes gt tf h n = Some (h\<lparr>h_state := ReadState m cache', h_pos := h_pos h + of_nat ?w\<rparr>,
        Inr (take n (drop p d)))"
      using False f st tk by (simp add: read_bytes_def handle_len_def sub Let_def del: of_nat_min)
    then show ?thesis using at' by (simp add: min.commute)
  qed
qed

text \<open>As an instance of \<open>Read\<close>: the loop that never returns is a read that never ends.\<close>

definition read_call ::
  "(hash \<Rightarrow> io_error + bytes) \<Rightarrow> nat \<Rightarrow> file_handle \<Rightarrow> file_handle \<times> (io_error + bytes)"
where
  "read_call gt n h =
     (case read_bytes gt no_temp_faults h n of
        Some (h', Inr b) \<Rightarrow> (h', Inr b) | Some (h', Inl e) \<Rightarrow> (h', Inl IoOther) | None \<Rightarrow> (h, Inl IoInterrupted))"

interpretation hr: byte_reader "read_call gt" "read_at gt" for gt :: "hash \<Rightarrow> io_error + bytes"
proof unfold_locales
  fix d p h and n :: nat
  assume at: "read_at gt d p h" and n: "0 < n"
  obtain h' where h': "read_bytes gt no_temp_faults h n = Some (h', Inr (take n (drop p d)))"
      "read_at gt d (p + length (take n (drop p d))) h'"
    using read_bytes_at [OF at] by blast
  then have "read_call gt n h = (h', Inr (take n (drop p d)))" by (simp add: read_call_def)
  moreover have "take n (drop p d) = [] \<longleftrightarrow> length d \<le> p" using n by simp
  ultimately show "\<exists>s' got. read_call gt n h = (s', Inr got) \<and> read_at gt d (p + length got) s' \<and> length got \<le> n
      \<and> got = take (length got) (drop p d) \<and> (got = [] \<longleftrightarrow> length d \<le> p)"
    using h'(2) by (intro exI [of _ h'] exI [of _ "take n (drop p d)"]) (simp add: min_def)
qed

section \<open>Writing into a byte string\<close>

definition zeros :: "nat \<Rightarrow> bytes" where
  "zeros n = replicate n (CHR 0x00)"

definition splice :: "bytes \<Rightarrow> nat \<Rightarrow> bytes \<Rightarrow> bytes" where
  "splice c p b = take p (c @ zeros (p - length c)) @ b @ drop (p + length b) c"

lemma length_zeros [simp]: "length (zeros n) = n"
  by (simp add: zeros_def)

lemma length_splice: "length (splice c p b) = max (length c) (p + length b)"
  by (simp add: splice_def)

lemma length_set_len [simp]: "length (set_len c n) = n"
  by (simp add: set_len_def)

lemma pwrite_splice: "b \<noteq> [] \<Longrightarrow> pwrite c p b = splice c p b"
  by (simp add: pwrite_def splice_def zeros_def)

lemma nth_padded: "i < n \<Longrightarrow> take n (c @ zeros (n - length c)) ! i = (if i < length c then c ! i else CHR 0x00)"
  by (simp add: nth_append zeros_def)

lemma nth_set_len: "i < n \<Longrightarrow> set_len c n ! i = (if i < length c then c ! i else CHR 0x00)"
  using nth_padded by (simp add: set_len_def zeros_def)

lemma nth_splice:
  assumes "i < max (length c) (p + length b)"
  shows "splice c p b ! i = (if i < p then (if i < length c then c ! i else CHR 0x00)
    else if i < p + length b then b ! (i - p) else c ! i)"
proof -
  have "length (take p (c @ zeros (p - length c))) = p" by simp
  then show ?thesis using assms nth_padded [of i p c] by (auto simp: splice_def nth_append)
qed

text \<open>Two writes in a row are one.\<close>

lemma splice_splice: "splice (splice c p a) (p + length a) b = splice c p (a @ b)"
  by (rule nth_equalityI) (auto simp: length_splice nth_splice nth_append)

lemma pwrite_pwrite: "pwrite (pwrite c p a) (p + length a) b = pwrite c p (a @ b)"
proof (cases "a = [] \<or> b = []")
  case True
  then show ?thesis by (auto simp: pwrite_def)
next
  case False
  then show ?thesis by (simp add: pwrite_splice splice_splice)
qed

text \<open>The temporary file may lack trailing zero bytes; the content is the file at its length.\<close>

lemma set_len_pwrite:
  assumes "length c \<le> n"
  shows "set_len (pwrite c p b) (max n (p + length b)) = splice (set_len c n) p b"
proof (cases "b = []")
  case True
  then show ?thesis using assms
    by (intro nth_equalityI) (auto simp: length_splice nth_splice nth_set_len pwrite_def)
next
  case False
  then show ?thesis using assms
    by (intro nth_equalityI) (auto simp: length_splice nth_splice nth_set_len pwrite_splice)
qed

lemma length_pwrite: "length (pwrite c p b) \<le> max (length c) (p + length b)"
  by (cases "b = []") (simp add: pwrite_def, simp add: pwrite_splice length_splice)

section \<open>Write handles\<close>

text \<open>A write handle on the content \<open>c\<close> at position \<open>p\<close>, in append mode or not.\<close>

definition write_at :: "bytes \<Rightarrow> nat \<Rightarrow> bool \<Rightarrow> file_handle \<Rightarrow> bool" where
  "write_at c p app h \<longleftrightarrow> unat (h_pos h) = p \<and>
     (\<exists>f len d. h_state h = WriteState f len app d \<and> length f \<le> unat len \<and> set_len f (unat len) = c)"

lemma temp_call_ok [simp]: "temp_call no_temp_faults k a = Inr a"
  by (simp add: temp_call_def no_temp_faults_def)

lemma write_all_ok [simp]: "write_all no_temp_faults f p b = (pwrite f p b, Inr ())"
  by (simp add: write_all_def no_temp_faults_def)

lemma temp_seek_ok: "unat pos < 2 ^ 63 \<Longrightarrow> temp_seek no_temp_faults pos = Inr (unat pos)"
  by (simp add: temp_seek_def)

lemma write_bytes_at:
  assumes at: "write_at c p app h" and q: "q = (if app then length c else p)"
    and small: "q < 2 ^ 63" "q + length b < 2 ^ 64"
  shows "\<exists>h'. write_bytes no_temp_faults h b = (h', Inr ()) \<and> write_at (splice c q b) (q + length b) app h'
    \<and> (\<exists>f len. h_state h' = WriteState f len app True) \<and> h_node_id h' = h_node_id h"
proof -
  obtain f len d where st: "h_state h = WriteState f len app d" and f: "length f \<le> unat len"
    and c: "set_len f (unat len) = c" and p: "unat (h_pos h) = p"
    using at by (auto simp: write_at_def)
  let ?pos = "if app then len else h_pos h"
  have pos: "unat ?pos = q" using p q c by auto
  have "unat (of_nat (length b) :: u64) = length b" using small by (simp add: unat_of_nat_small)
  then have pos': "unat (?pos + of_nat (length b)) = q + length b"
    using pos small by (subst unat_add_no_wrap) simp_all
  have mx: "unat (max len (?pos + of_nat (length b))) = max (unat len) (q + length b)"
    using pos' by (auto simp: max_def word_le_nat_alt)
  let ?h = "h\<lparr>h_pos := ?pos + of_nat (length b),
      h_state := WriteState (pwrite f q b) (max len (?pos + of_nat (length b))) app True\<rparr>"
  have "temp_seek no_temp_faults ?pos = Inr q" using pos small temp_seek_ok [of ?pos] by simp
  then have "write_bytes no_temp_faults h b = (?h, Inr ())" using st by (simp add: write_bytes_def Let_def)
  moreover have "length (pwrite f q b) \<le> max (unat len) (q + length b)"
    using length_pwrite [of f q b] f by simp
  then have "write_at (splice c q b) (q + length b) app ?h"
    using set_len_pwrite [OF f, of q b] c mx pos' by (fastforce simp: write_at_def)
  ultimately show ?thesis by fastforce
qed

text \<open>\<open>write_buf\<close> is \<open>write_bytes\<close> of all its slices together.\<close>

lemma write_slices_concat:
  "write_slices no_temp_faults f p pos bufs = (pwrite f p (concat bufs), Inr (pos + of_nat (length (concat bufs))))"
proof (induction bufs arbitrary: f p pos)
  case (Cons b bufs)
  then show ?case by (simp add: pwrite_pwrite add.assoc)
qed (simp add: pwrite_def)

lemma write_buf_concat: "write_buf no_temp_faults h bufs = write_bytes no_temp_faults h (concat bufs)"
  by (cases "h_state h") (simp_all add: write_buf_def write_bytes_def write_slices_concat Let_def split: sum.splits)

end
