(* ===== verification/Vfs_Inv.thy ===== *)
theory Vfs_Inv
  imports Dav_Fs Handle_Refine Storage_Properties Meta_Properties
begin

text \<open>
  The invariant of the whole file system: the metadata store's, the blob store's, and the
  one that joins them: every version of every file can be read, because each chunk it names
  is a blob of the length it names. Every operation of theories \<open>Dav_Fs\<close> and
  \<open>File_Handle\<close> keeps it, garbage collection included, whatever fails.
\<close>

section \<open>The invariant\<close>

definition readable :: "blake3_lib \<Rightarrow> db \<Rightarrow> disk \<Rightarrow> bool" where
  "readable B d k \<longleftrightarrow>
     (\<forall>w m. w \<in> set (versions d) \<and> version_manifest B d w m \<longrightarrow> manifest_content (blobs_of B k) m \<noteq> None)"

definition vfs_ok :: "blake3_lib \<Rightarrow> 't fs_state \<Rightarrow> bool" where
  "vfs_ok B s \<longleftrightarrow> store_ok B (fs_db s) \<and> disk_ok B (fs_disk s) \<and> readable B (fs_db s) (fs_disk s)"

text \<open>What the operations need of their environment; any call in it may fail.\<close>

definition env_ok :: "blake3_lib \<Rightarrow> 't env \<Rightarrow> bool" where
  "env_ok B E \<longleftrightarrow> e_b3 E = B \<and> blake3_ok B \<and> fastcdc_ok (e_cdc E)
     \<and> valid_config (e_cdc E) (e_chunker E) \<and> valid_config (e_cdc E) (e_media E)"

definition env_quiet :: "'t env \<Rightarrow> bool" where
  "env_quiet E \<longleftrightarrow> e_io E = no_faults \<and> e_sql E = no_sql_faults"

lemma vfs_okD:
  assumes "vfs_ok B s"
  shows "store_ok B (fs_db s)" and "disk_ok B (fs_disk s)" and "readable B (fs_db s) (fs_disk s)"
    and "db_ok (fs_db s)" and "sql_ok (fs_db s)" and "tree_ok (fs_db s)" and "history_ok (fs_db s)"
    and "content_ok B (fs_db s)"
  using assms by (auto simp: vfs_ok_def store_ok_def db_ok_def)

lemma env_okD:
  assumes "env_ok B E"
  shows "e_b3 E = B" and "blake3_ok B" and "fastcdc_ok (e_cdc E)" and "valid_config (e_cdc E) (chunker_for E nm)"
  using assms by (auto simp: env_ok_def chunker_for_def)

lemma vfs_ok_index [simp]: "vfs_ok B (s\<lparr>fs_index := t\<rparr>) = vfs_ok B s"
  by (simp add: vfs_ok_def)

lemma vfs_ok_same: "fs_db s' = fs_db s \<Longrightarrow> fs_disk s' = fs_disk s \<Longrightarrow> vfs_ok B s' = vfs_ok B s"
  by (simp add: vfs_ok_def)

section \<open>Reading manifests back\<close>

text \<open>What a failing statement cannot do is answer wrongly.\<close>

lemma read_manifest_faulty: "read_manifest B sf d v = Inr m \<Longrightarrow> read_manifest B no_sql_faults d v = Inr m"
  by (simp add: read_manifest_def)

lemma load_manifest_faulty: "load_manifest B sf d i = Inr m \<Longrightarrow> load_manifest B no_sql_faults d i = Inr m"
  by (auto simp: load_manifest_def intro: read_manifest_faulty split: option.splits)

lemma get_node_faulty: "get_node sf d i = Inr n \<Longrightarrow> get_node no_sql_faults d i = Inr n"
  by (simp add: get_node_def)

lemma version_manifest_unique:
  "blake3_ok B \<Longrightarrow> version_manifest B d w m \<Longrightarrow> version_manifest B d w m' \<Longrightarrow> m = m'"
  using version_manifest_read [of B d w] by (metis Inr_inject)

text \<open>A version that is gone reads as an empty manifest, without an error.\<close>

lemma chunk_rows_deleted: "sql_ok d \<Longrightarrow> v \<notin> version_ids d \<Longrightarrow> chunk_rows d v = []"
proof -
  assume "sql_ok d" "v \<notin> version_ids d"
  then have "filter (\<lambda>r. c_version r = v) (vchunks d) = []"
    unfolding filter_empty_conv sql_ok_def by blast
  then show ?thesis by (simp add: chunk_rows_def)
qed

lemma read_manifest_deleted:
  "sql_ok d \<Longrightarrow> v \<notin> version_ids d \<Longrightarrow> read_manifest B no_sql_faults d v = Inr manifest_default"
  "sql_ok d \<Longrightarrow> v \<notin> version_ids d \<Longrightarrow> read_manifest B sf d v = Inr m \<Longrightarrow> m = manifest_default"
  using read_manifest_faulty [of B sf d v m] by (simp_all add: read_manifest_def chunk_rows_deleted)

lemma read_manifest_readable:
  assumes "vfs_ok B s" and "blake3_ok B" and "w \<in> set (versions (fs_db s))"
  obtains m data where "read_manifest B no_sql_faults (fs_db s) (v_id w) = Inr m"
    and "version_manifest B (fs_db s) w m" and "manifest_content (blobs_of B (fs_disk s)) m = Some data"
proof -
  obtain m where m: "version_manifest B (fs_db s) w m"
    using content_okE vfs_okD(8) [OF assms(1)] assms(3) by blast
  moreover have "manifest_content (blobs_of B (fs_disk s)) m \<noteq> None"
    using vfs_okD(3) [OF assms(1)] m assms(3) by (auto simp: readable_def)
  ultimately show thesis using that version_manifest_read [OF assms(2)] by blast
qed

lemma read_version_readable:
  assumes "vfs_ok B s" and "blake3_ok B" and "v \<in> version_ids (fs_db s)"
    and "read_manifest B sf (fs_db s) v = Inr m"
  shows "manifest_content (blobs_of B (fs_disk s)) m \<noteq> None"
proof -
  obtain w where w: "w \<in> set (versions (fs_db s))" "v_id w = v" using assms(3) by (auto simp: version_ids_def)
  obtain m' data where "read_manifest B no_sql_faults (fs_db s) (v_id w) = Inr m'"
    and "manifest_content (blobs_of B (fs_disk s)) m' = Some data"
    using read_manifest_readable [OF assms(1,2) w(1)] by blast
  then show ?thesis using read_manifest_faulty [OF assms(4)] w(2) by simp
qed

lemma load_manifest_readable:
  assumes "vfs_ok B s" and "blake3_ok B" and "load_manifest B sf (fs_db s) i = Inr m"
  shows "manifest_content (blobs_of B (fs_disk s)) m \<noteq> None"
proof -
  have "m = manifest_default \<or> (\<exists>v. v \<in> version_ids (fs_db s) \<and> read_manifest B sf (fs_db s) v = Inr m)"
    using assms(3) find_version_None [of "fs_db s"]
    by (auto simp: load_manifest_def split: option.splits) (metis not_None_eq)+
  then show ?thesis using read_version_readable [OF assms(1,2)] by auto
qed

section \<open>Changes of the database\<close>

text \<open>\<open>d'\<close> keeps some of the versions of \<open>d\<close>, with their chunks, and adds none.\<close>

definition sub_history :: "db \<Rightarrow> db \<Rightarrow> bool" where
  "sub_history d' d \<longleftrightarrow> set (versions d') \<subseteq> set (versions d)
     \<and> (\<forall>w \<in> set (versions d'). chunk_rows d' (v_id w) = chunk_rows d (v_id w))"

lemma sub_history_refl [simp]: "sub_history d d"
  by (simp add: sub_history_def)

lemma sub_history_same: "versions d' = versions d \<Longrightarrow> vchunks d' = vchunks d \<Longrightarrow> sub_history d' d"
  by (simp add: sub_history_def chunk_rows_def)

lemma readable_sub: "readable B d k \<Longrightarrow> sub_history d' d \<Longrightarrow> readable B d' k"
  unfolding readable_def sub_history_def version_manifest_def by (metis subsetD)

lemma live_sub: "sub_history d' d \<Longrightarrow> live_hashes B d' \<subseteq> live_hashes B d"
  unfolding live_hashes_def sub_history_def version_manifest_def by fastforce

lemma readable_mono: "readable B d k \<Longrightarrow> blobs_of B k \<subseteq>\<^sub>m blobs_of B k' \<Longrightarrow> readable B d k'"
  unfolding readable_def by (metis manifest_content_mono not_None_eq)

lemma vfs_ok_db: "vfs_ok B s \<Longrightarrow> store_ok B d \<Longrightarrow> sub_history d (fs_db s) \<Longrightarrow> vfs_ok B (s\<lparr>fs_db := d\<rparr>)"
  by (auto simp: vfs_ok_def intro: readable_sub)

lemma vfs_ok_disk:
  "vfs_ok B s \<Longrightarrow> disk_ok B k \<Longrightarrow> blobs_of B (fs_disk s) \<subseteq>\<^sub>m blobs_of B k \<Longrightarrow> vfs_ok B (s\<lparr>fs_disk := k\<rparr>)"
  by (auto simp: vfs_ok_def intro: readable_mono)

lemma sub_history_delete_node: "sql_ok d \<Longrightarrow> sub_history (delete_node_row i d) d"
  by (auto simp: sub_history_def delete_node_versions chunk_rows_delete_node)

lemma sub_history_delete_version: "sql_ok d \<Longrightarrow> sub_history (delete_version_rows gone d) d"
  by (auto simp: sub_history_def chunk_rows_delete_version)

text \<open>Setting content that can be read.\<close>

lemma readable_add_version:
  assumes B: "blake3_ok B" and sql: "sql_ok d" and rd: "readable B d k" and fresh: "v_id w \<notin> version_ids d"
    and m: "manifest_content (blobs_of B k) m \<noteq> None" and sz: "v_size w = u64_as_i64 (total_size m)"
  shows "readable B (add_version B w m d) k"
  unfolding readable_def
proof (intro allI impI)
  fix w' m' assume a: "w' \<in> set (versions (add_version B w m d)) \<and> version_manifest B (add_version B w m d) w' m'"
  note rows = chunk_rows_add_version [OF sql fresh]
  show "manifest_content (blobs_of B k) m' \<noteq> None"
  proof (cases "w' = w")
    case True
    have "wf_manifest m" using m by (auto simp: manifest_content_def split: if_splits)
    then have "version_manifest B (add_version B w m d) w m" using rows sz by (simp add: version_manifest_def)
    then show ?thesis using version_manifest_unique [OF B] a True m by blast
  next
    case False
    then have w': "w' \<in> set (versions d)" using a by auto
    then have "v_id w' \<noteq> v_id w" using fresh unfolding version_ids_def by (metis image_eqI)
    then have "version_manifest B d w' m'" using a rows by (simp add: version_manifest_def)
    then show ?thesis using rd w' by (auto simp: readable_def)
  qed
qed

lemma set_content_vfs_ok:
  assumes B: "blake3_ok B" and ok: "vfs_ok B s" and m: "manifest_content (blobs_of B (fs_disk s)) m \<noteq> None"
    and is_file: "\<And>r. find_node (fs_db s) i = Some r \<Longrightarrow> n_is_dir r = 0"
    and run: "set_file_content B sf now (fs_db s) i m = (d', r)"
  shows "vfs_ok B (s\<lparr>fs_db := d'\<rparr>)"
proof -
  have wf: "wf_manifest m" using m by (auto simp: manifest_content_def split: if_splits)
  have sql: "sql_ok (fs_db s)" using ok by (rule vfs_okD)
  have "store_ok B d'"
    using set_file_content_keeps [OF run vfs_okD(4) [OF ok] is_file]
      set_file_content_content [OF run sql vfs_okD(8) [OF ok] wf] by (simp add: store_ok_def)
  moreover have "readable B d' (fs_disk s)"
  proof (cases r)
    case (Inl e)
    then show ?thesis using run set_file_content_Inl vfs_okD(3) [OF ok] by blast
  next
    case (Inr t)
    with run have "set_file_content B sf now (fs_db s) i m = (d', Inr t)" by simp
    then show ?thesis
      using vfs_okD(3) [OF ok] new_version_fresh readable_add_version [OF B sql vfs_okD(3) [OF ok] _ m]
      by (cases rule: set_file_content_cases) auto
  qed
  ultimately show ?thesis using vfs_okD(2) [OF ok] by (simp add: vfs_ok_def)
qed

end
