(* ===== verification/Vfs_Keep.thy ===== *)
theory Vfs_Keep
  imports Vfs_Inv
begin

text \<open>Every operation of the file system keeps the invariant of theory \<open>Vfs_Inv\<close>.\<close>

section \<open>Lookups\<close>

lemma resolve_Inr:
  assumes "vfs_ok B s" and "resolve E s path = Inr n"
  shows "\<exists>r. n = row_to_node r \<and> find_node (fs_db s) (n_id r) = Some r \<and> path_to (fs_db s) (n_id r) (segments path)"
proof -
  have ok: "sql_ok (fs_db s)" "tree_ok (fs_db s)" using assms(1) by (auto dest: vfs_okD)
  obtain r where "n = row_to_node r" "r \<in> set (nodes (fs_db s))" "path_to (fs_db s) (n_id r) (segments path)"
    using lookup_path_Inr [OF ok, of "e_sql E" "segments path" n] assms(2) by (auto simp: resolve_def meta_lookup_def)
  then show ?thesis using find_node_self [OF ok(1)] by blast
qed

lemma resolve_file_resolve:
  "resolve_file E s path = Inr n \<Longrightarrow> resolve E s path = Inr n \<and> \<not> is_dir n"
  by (auto simp: resolve_file_def resolve_def split: if_splits)

lemma split_parent_Inr:
  assumes "vfs_ok B s" and "split_parent E s path = Inr (parent, nm)"
  shows "\<exists>r. parent = row_to_node r \<and> find_node (fs_db s) (n_id r) = Some r \<and> n_is_dir r \<noteq> 0
    \<and> path_to (fs_db s) (n_id r) (butlast (segments path)) \<and> nm = last (segments path) \<and> segments path \<noteq> []"
proof -
  have ok: "sql_ok (fs_db s)" "tree_ok (fs_db s)" using assms(1) by (auto dest: vfs_okD)
  obtain r where r: "parent = row_to_node r" "r \<in> set (nodes (fs_db s))"
      "path_to (fs_db s) (n_id r) (butlast (segments path))"
    using lookup_path_Inr [OF ok, of "e_sql E" "butlast (segments path)" parent] assms(2)
    by (auto simp: split_parent_def meta_lookup_def Let_def split: if_splits)
  moreover have "is_dir parent" "nm = last (segments path)" "segments path \<noteq> []"
    using assms(2) by (auto simp: split_parent_def Let_def split: if_splits)
  ultimately show ?thesis using find_node_self [OF ok(1)] by auto
qed

lemma child_of_Inr:
  assumes "vfs_ok B s" and "child_of E s parent nm = Inr c"
  shows "c = map_option row_to_node (find_child (fs_db s) (node_id parent) nm)"
    and "c = Some x \<Longrightarrow> \<exists>r. x = row_to_node r \<and> find_node (fs_db s) (n_id r) = Some r
      \<and> n_parent r = Some (node_id parent) \<and> n_name r = nm"
proof -
  have sql: "sql_ok (fs_db s)" using assms(1) by (rule vfs_okD)
  show 1: "c = map_option row_to_node (find_child (fs_db s) (node_id parent) nm)"
    using assms(2) by (auto simp: child_of_def lookup_child_def)
  then show "\<exists>r. x = row_to_node r \<and> find_node (fs_db s) (n_id r) = Some r
      \<and> n_parent r = Some (node_id parent) \<and> n_name r = nm" if "c = Some x"
    using that find_child_Some find_node_self [OF sql] by fastforce
qed

lemma ancestor_walk_Inr:
  "tree_ok d \<Longrightarrow> ancestor_walk sf d fuel a i = Inr b \<Longrightarrow> b \<longleftrightarrow> anc d a i"
proof (induction fuel arbitrary: i)
  case (Suc fuel)
  show ?case
  proof (cases "i = a")
    case True
    then show ?thesis using Suc.prems by (auto intro: anc_self)
  next
    case False
    then obtain n where n: "get_node sf d i = Inr n"
      and b: "(case parent_id n of Some p \<Rightarrow> ancestor_walk sf d fuel a p | None \<Rightarrow> Inr False) = Inr b"
      using Suc.prems(2) by auto
    obtain r where r: "find_node d i = Some r" "n = row_to_node r" using get_node_Inr [OF n] by blast
    have step: "anc d a i \<longleftrightarrow> (\<exists>p. n_parent r = Some p \<and> anc d a p)"
      using False r(1) by (subst anc_step_simp) auto
    show ?thesis using b r(2) step Suc.IH [OF Suc.prems(1)] by (auto split: option.splits)
  qed
qed simp

text \<open>A file is above nothing but itself.\<close>

lemma file_above:
  assumes "sql_ok d" and "tree_ok d" and "find_node d i = Some f" and "n_is_dir f = 0"
  shows "anc d i j \<Longrightarrow> j = i"
proof (induction rule: anc.induct)
  case (anc_step j r p)
  then have "find_node d p = Some f" using assms(3) by simp
  then show ?case using tree_okD(2) [OF assms(2) anc_step(1,2)] assms(4) by blast
qed simp

lemma anc_delete:
  assumes "sql_ok d"
  shows "anc (delete_node_row x d) i j \<Longrightarrow> anc d i j"
proof (induction rule: anc.induct)
  case (anc_step j r p)
  then have "find_node d j = Some r" by (simp add: find_node_delete [OF assms] split: if_splits)
  then show ?case using anc_step anc.anc_step by metis
qed (rule anc_self)

section \<open>Namespace operations\<close>

lemma insert_vfs_ok:
  assumes ok: "vfs_ok B s" and run: "insert_node sf now (fs_db s) p nm dir = (d', r)"
    and dir: "\<And>q. find_node (fs_db s) p = Some q \<Longrightarrow> n_is_dir q \<noteq> 0"
  shows "vfs_ok B (s\<lparr>fs_db := d'\<rparr>)" and "sub_history d' (fs_db s)"
proof -
  have same: "versions d' = versions (fs_db s) \<and> vchunks d' = vchunks (fs_db s)" using insert_node_same [OF run] .
  then have st: "store_ok B d'"
    using insert_node_keeps [OF run vfs_okD(4) [OF ok] dir] content_same_versions vfs_okD(8) [OF ok]
    by (auto simp: store_ok_def)
  show sub: "sub_history d' (fs_db s)" using same by (auto intro: sub_history_same)
  show "vfs_ok B (s\<lparr>fs_db := d'\<rparr>)" by (rule vfs_ok_db [OF ok st sub])
qed

lemma set_modified_vfs_ok:
  assumes ok: "vfs_ok B s" and run: "set_modified sf (fs_db s) i tm = (d', r)"
  shows "vfs_ok B (s\<lparr>fs_db := d'\<rparr>)" and "sub_history d' (fs_db s)"
proof -
  have same: "versions d' = versions (fs_db s) \<and> vchunks d' = vchunks (fs_db s)" using set_modified_same [OF run] .
  then have st: "store_ok B d'"
    using set_modified_keeps [OF run vfs_okD(4) [OF ok]] content_same_versions vfs_okD(8) [OF ok]
    by (auto simp: store_ok_def)
  show sub: "sub_history d' (fs_db s)" using same by (auto intro: sub_history_same)
  show "vfs_ok B (s\<lparr>fs_db := d'\<rparr>)" by (rule vfs_ok_db [OF ok st sub])
qed

lemma rename_vfs_ok:
  assumes ok: "vfs_ok B s" and run: "Meta_Store.rename sf (fs_db s) i p nm = (d', r)"
    and dir: "\<And>q. find_node (fs_db s) p = Some q \<Longrightarrow> n_is_dir q \<noteq> 0" and np: "\<not> anc (fs_db s) i p"
  shows "vfs_ok B (s\<lparr>fs_db := d'\<rparr>)" and "sub_history d' (fs_db s)"
proof -
  have same: "versions d' = versions (fs_db s) \<and> vchunks d' = vchunks (fs_db s)" using rename_same [OF run] .
  then have st: "store_ok B d'"
    using rename_keeps [OF run vfs_okD(4) [OF ok] dir np] content_same_versions vfs_okD(8) [OF ok]
    by (auto simp: store_ok_def)
  show sub: "sub_history d' (fs_db s)" using same by (auto intro: sub_history_same)
  show "vfs_ok B (s\<lparr>fs_db := d'\<rparr>)" by (rule vfs_ok_db [OF ok st sub])
qed

lemma remove_file_vfs_ok:
  assumes ok: "vfs_ok B s" and run: "Meta_Store.remove_file sf (fs_db s) i = (d', r)"
  shows "vfs_ok B (s\<lparr>fs_db := d'\<rparr>)" and "sub_history d' (fs_db s)"
proof -
  have sql: "sql_ok (fs_db s)" using ok by (rule vfs_okD)
  have st: "store_ok B d'"
    using remove_file_keeps [OF run vfs_okD(4) [OF ok]] remove_file_content [OF run sql vfs_okD(8) [OF ok]]
    by (simp add: store_ok_def)
  show sub: "sub_history d' (fs_db s)"
    using run by (cases r) (auto dest!: remove_Inl remove_file_Inr intro: sub_history_delete_node [OF sql])
  show "vfs_ok B (s\<lparr>fs_db := d'\<rparr>)" by (rule vfs_ok_db [OF ok st sub])
qed

lemma remove_dir_vfs_ok:
  assumes ok: "vfs_ok B s" and run: "Meta_Store.remove_dir sf (fs_db s) i = (d', r)" and "i \<noteq> ROOT_ID"
  shows "vfs_ok B (s\<lparr>fs_db := d'\<rparr>)" and "sub_history d' (fs_db s)"
proof -
  have sql: "sql_ok (fs_db s)" using ok by (rule vfs_okD)
  have st: "store_ok B d'"
    using remove_dir_keeps [OF run vfs_okD(4) [OF ok] assms(3)] remove_dir_content [OF run sql vfs_okD(8) [OF ok]]
    by (simp add: store_ok_def)
  show sub: "sub_history d' (fs_db s)"
    using run by (cases r) (auto dest!: remove_Inl remove_dir_Inr intro: sub_history_delete_node [OF sql])
  show "vfs_ok B (s\<lparr>fs_db := d'\<rparr>)" by (rule vfs_ok_db [OF ok st sub])
qed

lemma delete_version_vfs_ok:
  assumes ok: "vfs_ok B s" and run: "delete_version sf (fs_db s) i k = (d', r)"
  shows "vfs_ok B (s\<lparr>fs_db := d'\<rparr>)" and "sub_history d' (fs_db s)"
proof -
  have sql: "sql_ok (fs_db s)" using ok by (rule vfs_okD)
  have st: "store_ok B d'"
    using delete_version_keeps [OF run vfs_okD(4) [OF ok]] delete_version_content [OF run sql vfs_okD(8) [OF ok]]
    by (simp add: store_ok_def)
  show sub: "sub_history d' (fs_db s)"
    using run by (cases r)
      (auto dest!: delete_version_Inl elim!: delete_version_Inr intro: sub_history_delete_version [OF sql])
  show "vfs_ok B (s\<lparr>fs_db := d'\<rparr>)" by (rule vfs_ok_db [OF ok st sub])
qed

lemma reindex_vfs_ok [simp]: "vfs_ok B (reindex E s i) = vfs_ok B s"
  and deindex_vfs_ok [simp]: "vfs_ok B (deindex E s i) = vfs_ok B s"
  by (rule vfs_ok_same; simp)+

section \<open>Content operations\<close>

lemma reference_vfs_ok:
  assumes E: "env_ok B E" and ok: "vfs_ok B s"
    and is_file: "\<And>r. find_node (fs_db s) i = Some r \<Longrightarrow> n_is_dir r = 0"
    and ld: "\<And>m. ld (fs_db s) = Inr m \<Longrightarrow> manifest_content (blobs_of B (fs_disk s)) m \<noteq> None"
    and run: "reference_under_guard E s i ld = (s', r)"
  shows "vfs_ok B s'"
proof (cases "ld (fs_db s)")
  case (Inl e)
  then show ?thesis using run ok by (simp add: reference_under_guard_def)
next
  case (Inr m)
  obtain d' t where d': "set_file_content B (e_sql E) (e_now E) (fs_db s) i m = (d', t)" by fastforce
  then have "s' = s\<lparr>fs_db := d'\<rparr>"
    using run Inr env_okD(1) [OF E] by (cases t) (simp_all add: reference_under_guard_def)
  then show ?thesis using set_content_vfs_ok [OF env_okD(2) [OF E] ok ld [OF Inr] is_file d'] by simp
qed

lemma store_content_vfs_ok:
  assumes E: "env_ok B E" and ok: "vfs_ok B s" and small: "length f < 2 ^ 64"
    and coll: "collision_free B (ran (blobs_of B (fs_disk s)) \<union> slices f)"
    and is_file: "\<And>r. find_node (fs_db s) i = Some r \<Longrightarrow> n_is_dir r = 0"
    and run: "store_content E tf s i f = (s', r)"
  shows "vfs_ok B s'"
proof (cases "temp_call tf TmpOpen ()")
  case (Inl e)
  then show ?thesis using run ok by (simp add: store_content_def)
next
  case (Inr u)
  note env = env_okD [OF E]
  show ?thesis
  proof (cases "get_node (e_sql E) (fs_db s) i")
    case (Inl e)
    then show ?thesis using run ok Inr by (simp add: store_content_def)
  next
    case n: (Inr n)
    obtain k res where st: "store_file B (e_cdc E) (e_io E) (fs_disk s) (reader_of f) (chunker_for E (node_name n)) = (k, res)"
      by fastforce
    note disk = store_file_disk [OF env(2) vfs_okD(2) [OF ok] st]
    have ok1: "vfs_ok B (s\<lparr>fs_disk := k\<rparr>)" by (rule vfs_ok_disk [OF ok disk])
    show ?thesis
    proof (cases res)
      case (Inl e)
      then show ?thesis using run Inr n st ok1 env(1) by (simp add: store_content_def)
    next
      case m: (Inr m)
      have "manifest_content (blobs_of B k) m = Some f"
        using store_file_content(1) [OF env(2) vfs_okD(2) [OF ok] env(3,4) st [unfolded m] small]
          coll by (simp add: slices_def)
      moreover obtain d' t where d': "set_file_content B (e_sql E) (e_now E) (fs_db s) i m = (d', t)" by fastforce
      ultimately have "vfs_ok B (s\<lparr>fs_disk := k, fs_db := d'\<rparr>)"
        using set_content_vfs_ok [OF env(2) ok1, of m i "e_sql E" "e_now E" d' t] is_file by simp
      then show ?thesis using run Inr n st m d' env(1) by (cases t) (simp_all add: store_content_def)
    qed
  qed
qed

text \<open>What \<open>flush\<close> may store: the content the handle holds.\<close>

definition pending :: "file_handle \<Rightarrow> bytes" where
  "pending h = (case h_state h of ReadState m c \<Rightarrow> [] | WriteState f len app d \<Rightarrow> set_len f (unat len))"

lemma flush_vfs_ok:
  assumes E: "env_ok B E" and ok: "vfs_ok B s"
    and coll: "collision_free B (ran (blobs_of B (fs_disk s)) \<union> slices (pending h))"
    and is_file: "\<And>r. find_node (fs_db s) (h_node_id h) = Some r \<Longrightarrow> n_is_dir r = 0"
    and run: "flush E tf s h = ((s', h'), r)"
  shows "vfs_ok B s'"
proof (cases "h_state h")
  case (ReadState m c)
  then show ?thesis using run ok by (simp add: flush_def)
next
  case (WriteState f len app d)
  show ?thesis
  proof (cases "d \<and> tf_err tf TmpFlush = None \<and> tf_err tf TmpSetLen = None")
    case False
    then have "s' = s"
      using run WriteState by (auto simp: flush_def temp_call_def split: option.splits if_splits)
    then show ?thesis using ok by simp
  next
    case True
    obtain s1 r1 where st: "store_content E tf s (h_node_id h) (set_len f (unat len)) = (s1, r1)" by fastforce
    have "length (set_len f (unat len)) < 2 ^ 64" using u64_bound [of len] by simp
    then have "vfs_ok B s1"
      using store_content_vfs_ok [OF E ok _ _ is_file st] coll WriteState by (simp add: pending_def)
    then show ?thesis using run WriteState True st
      by (cases r1) (auto simp: flush_def temp_call_def Let_def)
  qed
qed

end
