(* ===== verification/Opening.thy ===== *)
theory Opening
  imports Vfs_Inv Sample_Env
begin

text \<open>
  Opening a store: \<open>DavFs::open\<close> (\<open>crates/vfs/src/davfs.rs\<close>) with the parts it opens,
  \<open>BlobStore::open\<close>, \<open>MetaStore::open\<close> and \<open>SearchIndex::open\<close>, over what an earlier process
  left in the data directory. Each call into the system can fail and leaves what was made so far.

  A process that stops, in the middle of a call or between two, leaves its database and
  its blobs as that call would on failing there, perhaps with the temporary files of its uploads.
  The system itself is taken to keep running: what a power failure does to writes that were
  never synchronised is not modelled.
\<close>

section \<open>The data directory\<close>

text \<open>A part is \<^const>\<open>None\<close> before it is first created.\<close>

record 't data_dir =
  dd_blobs :: "disk option"
  dd_db :: "db option"
  dd_index :: "'t option"
  dd_tmp :: bool

definition fresh_data :: "'t data_dir" where
  "fresh_data = \<lparr>dd_blobs = None, dd_db = None, dd_index = None, dd_tmp = False\<rparr>"

text \<open>The unfinished uploads of a process that stopped, as regular files among the shards.\<close>

type_synonym uploads = "(string \<times> bytes) list"

definition with_uploads :: "uploads \<Rightarrow> disk \<Rightarrow> disk" where
  "with_uploads ups k = k @ map (\<lambda>(n, b). (n, RootFile b)) ups"

definition left_behind :: "uploads \<Rightarrow> 't fs_state \<Rightarrow> 't data_dir" where
  "left_behind ups s =
     \<lparr>dd_blobs = Some (with_uploads ups (fs_disk s)), dd_db = Some (fs_db s), dd_index = Some (fs_index s),
      dd_tmp = True\<rparr>"

section \<open>What can fail\<close>

datatype dir_step = CreateData | CreateBlobs | CreateIndex | CreateTmp

datatype conn_step =
  OpenConnection | SetJournalMode | SetForeignKeys | SetBusyTimeout | CreateTables | InsertRoot

record open_faults =
  of_dir :: "dir_step \<Rightarrow> io_error option"
  of_sql :: "conn_step \<Rightarrow> sqlite_error option"

definition no_open_faults :: open_faults where
  "no_open_faults = \<lparr>of_dir = (\<lambda>_. None), of_sql = (\<lambda>_. None)\<rparr>"

lemma no_open_faults_sel [simp]: "of_dir no_open_faults st = None" "of_sql no_open_faults c = None"
  by (simp_all add: no_open_faults_def)

text \<open>
  The engine's part: the conversion of an I/O error, \<open>MmapDirectory::open\<close>, \<open>Index::open_or_create\<close>
  on what the directory holds, and the making of a reader and of a writer.
\<close>

record 't opener_lib =
  op_of_io :: "io_error \<Rightarrow> tantivy_error"
  op_mmap :: "tantivy_error option"
  op_open_or_create :: "'t option \<Rightarrow> tantivy_error + 't"
  op_reader :: "'t \<Rightarrow> tantivy_error + 't"
  op_writer :: "'t \<Rightarrow> tantivy_error + 't"

section \<open>Opening the parts\<close>

definition blob_store_open :: "open_faults \<Rightarrow> disk option \<Rightarrow> disk option \<times> (io_error + unit)" where
  "blob_store_open flt b =
     (case of_dir flt CreateBlobs of
        Some e \<Rightarrow> (b, Inl e)
      | None \<Rightarrow> (Some (case b of None \<Rightarrow> [] | Some k \<Rightarrow> k), Inr ()))"

definition no_tables :: db where
  "no_tables = \<lparr>nodes = [], versions = [], vchunks = []\<rparr>"

text \<open>\<open>from_connection\<close>: three settings of the connection, then \<open>migrate\<close>.\<close>

definition from_connection :: "open_faults \<Rightarrow> system_time \<Rightarrow> db \<Rightarrow> db \<times> (meta_error + unit)" where
  "from_connection flt now d =
     (case of_sql flt SetJournalMode of Some e \<Rightarrow> (d, Inl (MetaSqlite e)) | None \<Rightarrow>
      case of_sql flt SetForeignKeys of Some e \<Rightarrow> (d, Inl (MetaSqlite e)) | None \<Rightarrow>
      case of_sql flt SetBusyTimeout of Some e \<Rightarrow> (d, Inl (MetaSqlite e)) | None \<Rightarrow>
      case of_sql flt CreateTables of Some e \<Rightarrow> (d, Inl (MetaSqlite e)) | None \<Rightarrow>
      case of_sql flt InsertRoot of Some e \<Rightarrow> (d, Inl (MetaSqlite e)) | None \<Rightarrow>
      (migrate now d, Inr ()))"

definition meta_store_open :: "open_faults \<Rightarrow> system_time \<Rightarrow> db option \<Rightarrow> db option \<times> (meta_error + unit)" where
  "meta_store_open flt now f =
     (case of_sql flt OpenConnection of
        Some e \<Rightarrow> (f, Inl (MetaSqlite e))
      | None \<Rightarrow> (case from_connection flt now (case f of None \<Rightarrow> no_tables | Some d \<Rightarrow> d) of
          (d, r) \<Rightarrow> (Some d, r)))"

definition search_index_open :: "'t opener_lib \<Rightarrow> open_faults \<Rightarrow> 't option \<Rightarrow> 't option \<times> (index_error + unit)" where
  "search_index_open L flt x =
     (case of_dir flt CreateIndex of Some e \<Rightarrow> (x, Inl (Tantivy (op_of_io L e))) | None \<Rightarrow>
      case op_mmap L of Some e \<Rightarrow> (x, Inl (Tantivy e)) | None \<Rightarrow>
      case op_open_or_create L x of Inl e \<Rightarrow> (x, Inl (Tantivy e)) | Inr t \<Rightarrow>
      case op_reader L t of Inl e \<Rightarrow> (Some t, Inl (Tantivy e)) | Inr t \<Rightarrow>
      case op_writer L t of Inl e \<Rightarrow> (Some t, Inl (Tantivy e)) | Inr t \<Rightarrow>
      (Some t, Inr ()))"

section \<open>Opening the file system\<close>

text \<open>The open \<open>Inner\<close>: the three stores and the two chunker configurations.\<close>

record 't dav_fs =
  df_state :: "'t fs_state"
  df_chunker :: chunker_config
  df_media :: chunker_config

text \<open>\<^const>\<open>None\<close> is the panic of a built-in configuration that the chunker refuses.\<close>

definition dav_fs_open ::
  "'t opener_lib \<Rightarrow> fastcdc_lib \<Rightarrow> open_faults \<Rightarrow> system_time \<Rightarrow> 't data_dir \<Rightarrow> 't data_dir \<times> (vfs_error + 't dav_fs) option"
where
  "dav_fs_open L F flt now D =
     (case of_dir flt CreateData of Some e \<Rightarrow> (D, Some (Inl (VfsIo e))) | None \<Rightarrow>
      case blob_store_open flt (dd_blobs D) of
        (b, Inl e) \<Rightarrow> (D\<lparr>dd_blobs := b\<rparr>, Some (Inl (VfsIo e)))
      | (b, Inr _) \<Rightarrow>
      case meta_store_open flt now (dd_db D) of
        (f, Inl e) \<Rightarrow> (D\<lparr>dd_blobs := b, dd_db := f\<rparr>, Some (Inl (VfsMeta e)))
      | (f, Inr _) \<Rightarrow>
      case search_index_open L flt (dd_index D) of
        (x, Inl e) \<Rightarrow> (D\<lparr>dd_blobs := b, dd_db := f, dd_index := x\<rparr>, Some (Inl (VfsIndex e)))
      | (x, Inr _) \<Rightarrow>
      case of_dir flt CreateTmp of
        Some e \<Rightarrow> (D\<lparr>dd_blobs := b, dd_db := f, dd_index := x\<rparr>, Some (Inl (VfsIo e)))
      | None \<Rightarrow>
      (\<lparr>dd_blobs = b, dd_db = f, dd_index = x, dd_tmp = True\<rparr>,
       case (config_default F, config_media F) of
         (Some c, Some m) \<Rightarrow>
           Some (Inr \<lparr>df_state = \<lparr>fs_db = the f, fs_disk = the b, fs_index = the x\<rparr>, df_chunker = c, df_media = m\<rparr>)
       | _ \<Rightarrow> None))"

text \<open>Any number of attempts, each with its own failures (a data directory of a server that is restarted).\<close>

definition open_attempt :: "'t opener_lib \<Rightarrow> fastcdc_lib \<Rightarrow> 't data_dir \<Rightarrow> 't data_dir \<Rightarrow> bool" where
  "open_attempt L F D D' \<longleftrightarrow> (\<exists>flt now r. dav_fs_open L F flt now D = (D', r))"

section \<open>What tantivy promises\<close>

text \<open>
  A fresh index is empty, an existing one keeps its committed documents; a reader starts at the
  last commit, and so does a writer.
\<close>

definition index_open_ok :: "'t opener_lib \<Rightarrow> 't tantivy_views \<Rightarrow> bool" where
  "index_open_ok L V \<longleftrightarrow>
     (\<forall>x t. op_open_or_create L x = Inr t \<longrightarrow> committed V t = (case x of None \<Rightarrow> [] | Some t0 \<Rightarrow> committed V t0)) \<and>
     (\<forall>t t'. op_reader L t = Inr t' \<longrightarrow> committed V t' = committed V t \<and> docs V t' = committed V t) \<and>
     (\<forall>t t'. op_writer L t = Inr t' \<longrightarrow>
        committed V t' = committed V t \<and> docs V t' = docs V t \<and> staged V t' = committed V t)"

text \<open>Opening that meets no error of the engine.\<close>

definition opener_reliable :: "'t opener_lib \<Rightarrow> bool" where
  "opener_reliable L \<longleftrightarrow> op_mmap L = None \<and> (\<forall>x. \<not> isl (op_open_or_create L x))
     \<and> (\<forall>t. \<not> isl (op_reader L t)) \<and> (\<forall>t. \<not> isl (op_writer L t))"

section \<open>What each part is opened with\<close>

definition blobs_in :: "'t data_dir \<Rightarrow> disk" where
  "blobs_in D = (case dd_blobs D of None \<Rightarrow> [] | Some k \<Rightarrow> k)"

definition db_in :: "'t data_dir \<Rightarrow> db" where
  "db_in D = (case dd_db D of None \<Rightarrow> no_tables | Some d \<Rightarrow> d)"

definition index_in :: "'t tantivy_views \<Rightarrow> 't data_dir \<Rightarrow> (u64 \<times> bytes) list" where
  "index_in V D = (case dd_index D of None \<Rightarrow> [] | Some t \<Rightarrow> committed V t)"

lemma left_behind_in [simp]:
  "blobs_in (left_behind ups s) = with_uploads ups (fs_disk s)" "db_in (left_behind ups s) = fs_db s"
  "index_in V (left_behind ups s) = committed V (fs_index s)"
  by (simp_all add: left_behind_def blobs_in_def db_in_def index_in_def)

lemma fresh_data_in [simp]: "blobs_in fresh_data = []" "db_in fresh_data = no_tables" "index_in V fresh_data = []"
  by (simp_all add: fresh_data_def blobs_in_def db_in_def index_in_def)

lemma blob_store_open_eq:
  "blob_store_open flt b = (b', r) \<Longrightarrow>
     (case b' of None \<Rightarrow> [] | Some k \<Rightarrow> k) = (case b of None \<Rightarrow> [] | Some k \<Rightarrow> k) \<and> (r = Inr () \<longrightarrow> b' \<noteq> None)"
  by (auto simp: blob_store_open_def split: option.splits)

lemma meta_store_open_cases:
  assumes "meta_store_open flt now f = (f', r)"
  shows "(case f' of None \<Rightarrow> no_tables | Some d \<Rightarrow> d) = (if isl r then id else migrate now) (case f of None \<Rightarrow> no_tables | Some d \<Rightarrow> d)"
    and "r = Inr () \<Longrightarrow> f' \<noteq> None"
  using assms by (auto simp: meta_store_open_def from_connection_def split: option.splits prod.splits)

lemma search_index_open_cases:
  assumes L: "index_open_ok L V" and run: "search_index_open L flt x = (x', r)"
  shows "(case x' of None \<Rightarrow> [] | Some t \<Rightarrow> committed V t) = (case x of None \<Rightarrow> [] | Some t \<Rightarrow> committed V t)"
    and "r = Inr () \<Longrightarrow> \<exists>t. x' = Some t \<and> staged V t = committed V t \<and> docs V t = committed V t"
  using run L [unfolded index_open_ok_def]
  by (auto simp: search_index_open_def split: option.splits sum.splits)

text \<open>
  Every outcome leaves the blobs and the committed documents as they were, and the database either as
  it was or with its root made.
\<close>

lemma dav_fs_open_keeps:
  assumes L: "index_open_ok L V" and run: "dav_fs_open L F flt now D = (D', r)"
  shows "blobs_in D' = blobs_in D" and "db_in D' = db_in D \<or> db_in D' = migrate now (db_in D)"
    and "index_in V D' = index_in V D"
    and "r = Some (Inr fs) \<Longrightarrow> config_default F = Some (df_chunker fs) \<and> config_media F = Some (df_media fs)
      \<and> fs_disk (df_state fs) = blobs_in D \<and> fs_db (df_state fs) = migrate now (db_in D)
      \<and> docs V (fs_index (df_state fs)) = index_in V D \<and> staged V (fs_index (df_state fs)) = index_in V D
      \<and> committed V (fs_index (df_state fs)) = index_in V D"
proof -
  obtain b rb where b: "blob_store_open flt (dd_blobs D) = (b, rb)" by fastforce
  obtain f rf where f: "meta_store_open flt now (dd_db D) = (f, rf)" by fastforce
  obtain x rx where x: "search_index_open L flt (dd_index D) = (x, rx)" by fastforce
  note run = run [unfolded dav_fs_open_def b f x]
  note ins = blobs_in_def db_in_def index_in_def
  show "blobs_in D' = blobs_in D"
    using run blob_store_open_eq [OF b] by (auto simp: ins split: option.splits sum.splits)
  show "db_in D' = db_in D \<or> db_in D' = migrate now (db_in D)"
    using run meta_store_open_cases(1) [OF f] by (auto simp: ins split: option.splits sum.splits if_splits)
  show "index_in V D' = index_in V D"
    using run search_index_open_cases(1) [OF L x] by (auto simp: ins split: option.splits sum.splits)
  show "config_default F = Some (df_chunker fs) \<and> config_media F = Some (df_media fs)
      \<and> fs_disk (df_state fs) = blobs_in D \<and> fs_db (df_state fs) = migrate now (db_in D)
      \<and> docs V (fs_index (df_state fs)) = index_in V D \<and> staged V (fs_index (df_state fs)) = index_in V D
      \<and> committed V (fs_index (df_state fs)) = index_in V D" if "r = Some (Inr fs)"
  proof -
    have ok: "rb = Inr ()" "rf = Inr ()" "rx = Inr ()"
      and c: "config_default F = Some (df_chunker fs)" "config_media F = Some (df_media fs)"
      and st: "df_state fs = \<lparr>fs_db = the f, fs_disk = the b, fs_index = the x\<rparr>"
      using run that by (auto split: option.splits sum.splits)
    obtain t where t: "x = Some t" "staged V t = committed V t" "docs V t = committed V t"
      using search_index_open_cases(2) [OF L x ok(3)] by blast
    obtain k d where "b = Some k" "f = Some d"
      using blob_store_open_eq [OF b] meta_store_open_cases(2) [OF f ok(2)] ok(1) by auto
    then show ?thesis
      using c st t blob_store_open_eq [OF b] meta_store_open_cases(1) [OF f] search_index_open_cases(1) [OF L x] ok(2)
      by (simp add: ins)
  qed
qed

lemma dav_fs_open_no_panic: "fastcdc_limits_ok F \<Longrightarrow> dav_fs_open L F flt now D = (D', r) \<Longrightarrow> r \<noteq> None"
  by (auto simp: dav_fs_open_def config_builtin split: option.splits sum.splits prod.splits)

lemma dav_fs_open_succeeds:
  assumes "fastcdc_limits_ok F" and "opener_reliable L"
  shows "\<exists>D' fs. dav_fs_open L F no_open_faults now D = (D', Some (Inr fs))"
proof -
  have eng: "\<exists>t. op_open_or_create L x = Inr t" "\<exists>t. op_reader L y = Inr t" "\<exists>t. op_writer L y = Inr t" for x y
    using assms(2) unfolding opener_reliable_def by (metis isl_def sum.exhaust)+
  obtain t1 where t1: "op_open_or_create L (dd_index D) = Inr t1" using eng(1) by blast
  obtain t2 where t2: "op_reader L t1 = Inr t2" using eng(2) by blast
  obtain t3 where t3: "op_writer L t2 = Inr t3" using eng(3) by blast
  have "search_index_open L no_open_faults (dd_index D) = (Some t3, Inr ())"
    using assms(2) t1 t2 t3 by (simp add: search_index_open_def opener_reliable_def)
  then show ?thesis using assms(1)
    by (simp add: dav_fs_open_def blob_store_open_def meta_store_open_def from_connection_def config_builtin)
qed

section \<open>After a process\<close>

lemma shard_of_uploads [simp]: "shard_of (with_uploads ups k) s = shard_of k s"
proof -
  have up: "e \<in> set (map (\<lambda>(n, b). (n, RootFile b)) ups) \<Longrightarrow> \<exists>b. snd e = RootFile b" for e by auto
  show ?thesis
    by (auto simp: shard_of_def with_uploads_def map_add_def split: option.splits root_entry.splits
        dest!: map_of_SomeD up)
qed

lemma blobs_of_uploads [simp]: "blobs_of B (with_uploads ups k) = blobs_of B k"
  by (simp add: fun_eq_iff blobs_of_def entry_at_def)

lemma disk_ok_uploads: "disk_ok B k \<Longrightarrow> distinct (map fst (with_uploads ups k)) \<Longrightarrow> disk_ok B (with_uploads ups k)"
  by (simp add: disk_ok_iff)

lemma migrate_root: "tree_ok d \<Longrightarrow> migrate now d = d"
  by (elim tree_ok_rootE) (simp add: migrate_def)

lemma open_in_memory_eq: "open_in_memory now = migrate now no_tables"
  by (simp add: open_in_memory_def no_tables_def)

lemma migrate_twice: "migrate now' (migrate now d) = migrate now d"
proof (cases "find_node d ROOT_ID")
  case None
  then have "find_node (migrate now d) ROOT_ID \<noteq> None" by (auto simp: migrate_def find_node_def find_None_iff)
  then show ?thesis by (simp add: migrate_def [of now'])
qed (simp add: migrate_def)

text \<open>What a directory of this shape is opened as, however often opening it failed before.\<close>

lemma attempts_keep:
  assumes L: "index_open_ok L V" and "(open_attempt L F)\<^sup>*\<^sup>* D D'"
  shows "blobs_in D' = blobs_in D" and "db_in D' = db_in D \<or> (\<exists>now. db_in D' = migrate now (db_in D))"
    and "index_in V D' = index_in V D"
proof -
  have "blobs_in D' = blobs_in D \<and> (db_in D' = db_in D \<or> (\<exists>now. db_in D' = migrate now (db_in D)))
      \<and> index_in V D' = index_in V D"
    using assms(2)
  proof (induction rule: rtranclp_induct)
    case (step D1 D2)
    then obtain flt now r where run: "dav_fs_open L F flt now D1 = (D2, r)" by (auto simp: open_attempt_def)
    show ?case using step.IH dav_fs_open_keeps(1-3) [OF L run] migrate_twice by metis
  qed simp
  then show "blobs_in D' = blobs_in D" and "db_in D' = db_in D \<or> (\<exists>now. db_in D' = migrate now (db_in D))"
    and "index_in V D' = index_in V D" by blast+
qed

text \<open>
  A process stops in the state \<open>s\<close>, with unfinished uploads under names of their own; then, after any
  number of failed attempts, opening what it left succeeds.
\<close>

definition reopens :: "'t opener_lib \<Rightarrow> fastcdc_lib \<Rightarrow> uploads \<Rightarrow> 't fs_state \<Rightarrow> 't dav_fs \<Rightarrow> bool" where
  "reopens L F ups s fs \<longleftrightarrow> distinct (map fst (with_uploads ups (fs_disk s)))
     \<and> (\<exists>D flt now D'. (open_attempt L F)\<^sup>*\<^sup>* (left_behind ups s) D
          \<and> dav_fs_open L F flt now D = (D', Some (Inr fs)))"

lemma reopened:
  assumes ok: "vfs_ok B s" and "reopens L F ups s fs"
  shows "fs_db (df_state fs) = fs_db s" and "fs_disk (df_state fs) = with_uploads ups (fs_disk s)"
    and "vfs_ok B (df_state fs)"
    and "index_open_ok L V \<Longrightarrow> docs V (fs_index (df_state fs)) = committed V (fs_index s)
      \<and> staged V (fs_index (df_state fs)) = committed V (fs_index s)"
    and "config_default F = Some (df_chunker fs) \<and> config_media F = Some (df_media fs)"
proof -
  let ?V = "\<lparr>staged = \<lambda>_. [], committed = \<lambda>_. [], docs = \<lambda>_. []\<rparr>"
  have L: "index_open_ok L ?V" by (simp add: index_open_ok_def split: option.splits)
  obtain D flt now D' where fresh: "distinct (map fst (with_uploads ups (fs_disk s)))"
    and tries: "(open_attempt L F)\<^sup>*\<^sup>* (left_behind ups s) D" and run: "dav_fs_open L F flt now D = (D', Some (Inr fs))"
    using assms(2) unfolding reopens_def by blast
  note root = migrate_root [OF vfs_okD(6) [OF ok]]
  have "db_in D = fs_db s" using attempts_keep(2) [OF L tries] root by auto
  then show d: "fs_db (df_state fs) = fs_db s" using dav_fs_open_keeps(4) [OF L run refl] root by simp
  show k: "fs_disk (df_state fs) = with_uploads ups (fs_disk s)"
    using dav_fs_open_keeps(4) [OF L run refl] attempts_keep(1) [OF L tries] by simp
  have "disk_ok B (with_uploads ups (fs_disk s))" by (rule disk_ok_uploads [OF vfs_okD(2) [OF ok] fresh])
  moreover have "readable B (fs_db s) (with_uploads ups (fs_disk s))"
    using vfs_okD(3) [OF ok] by (simp add: readable_def)
  ultimately show "vfs_ok B (df_state fs)" using d k vfs_okD(1) [OF ok] by (simp add: vfs_ok_def)
  show "docs V (fs_index (df_state fs)) = committed V (fs_index s)
      \<and> staged V (fs_index (df_state fs)) = committed V (fs_index s)" if "index_open_ok L V"
    using dav_fs_open_keeps(4) [OF that run refl] attempts_keep(3) [OF that tries] by simp
  show "config_default F = Some (df_chunker fs) \<and> config_media F = Some (df_media fs)"
    using dav_fs_open_keeps(4) [OF L run refl] by blast
qed

section \<open>The small engine\<close>

definition sample_opener :: "sample_engine opener_lib" where
  "sample_opener =
     \<lparr>op_of_io = (\<lambda>_. ''io''), op_mmap = None,
      op_open_or_create = (\<lambda>x. Inr (case x of None \<Rightarrow> ([], [], []) | Some t \<Rightarrow> t)),
      op_reader = (\<lambda>(s, c, d). Inr (s, c, c)),
      op_writer = (\<lambda>(s, c, d). Inr (c, c, d))\<rparr>"

lemma sample_opener_ok: "index_open_ok sample_opener sample_views"
  by (auto simp: index_open_ok_def sample_opener_def sample_views_def split: option.splits)

lemma sample_opener_reliable: "opener_reliable sample_opener"
  by (auto simp: opener_reliable_def sample_opener_def)

end
