(* ===== verification/Vfs_Run.thy ===== *)
theory Vfs_Run
  imports Vfs_Keep Opening
begin

text \<open>
  Runs of the file system: the operations as \<open>dav-server\<close> and the router issue them, in any
  order and with any failures, with garbage collections between them and restarts of the process.
  Every state of a run satisfies the invariant.
\<close>

section \<open>The operations keep the invariant\<close>

lemma create_at_vfs_ok:
  assumes ok: "vfs_ok B s" and sp: "split_parent E s path = Inr (parent, nm)"
    and run: "insert_node sf now (fs_db s) (node_id parent) nm dir = (d', r)"
  shows "vfs_ok B (s\<lparr>fs_db := d'\<rparr>)"
proof (rule insert_vfs_ok(1) [OF ok run])
  fix q assume "find_node (fs_db s) (node_id parent) = Some q"
  then show "n_is_dir q \<noteq> 0" using split_parent_Inr [OF ok sp] by auto
qed

lemma open_vfs_ok:
  assumes ok: "vfs_ok B s" and run: "dav_open E tf s path opts = (s', r)"
  shows "vfs_ok B s'"
proof -
  consider "s' = s"
    | parent nm where "split_parent E s path = Inr (parent, nm)" and "open_new E tf s parent nm opts = (s', r)"
    using run by (auto simp: dav_open_def split: sum.splits option.splits prod.splits)
  then show ?thesis
  proof cases
    case 1
    then show ?thesis using ok by simp
  next
    case 2
    then show ?thesis using ok create_at_vfs_ok [OF ok 2(1)]
      by (auto simp: open_new_def create_file_def split: if_splits prod.splits sum.splits)
  qed
qed

lemma create_dir_vfs_ok:
  assumes ok: "vfs_ok B s" and run: "dav_create_dir E s path = (s', r)"
  shows "vfs_ok B s'"
  using run ok create_at_vfs_ok [OF ok]
  by (auto simp: dav_create_dir_def create_dir_def split: sum.splits prod.splits)

lemma dav_remove_dir_vfs_ok:
  assumes ok: "vfs_ok B s" and run: "dav_remove_dir E s path = (s', r)"
  shows "vfs_ok B s'"
  using run ok remove_dir_vfs_ok(1) [OF ok]
  by (auto simp: dav_remove_dir_def split: sum.splits prod.splits if_splits)

lemma dav_remove_file_vfs_ok:
  assumes ok: "vfs_ok B s" and run: "dav_remove_file E s path = (s', r)"
  shows "vfs_ok B s'"
  using run ok remove_file_vfs_ok(1) [OF ok]
  by (auto simp: dav_remove_file_def Let_def split: sum.splits prod.splits if_splits)

lemma dav_set_modified_vfs_ok:
  assumes ok: "vfs_ok B s" and run: "dav_set_modified E s path tm = (s', r)"
  shows "vfs_ok B s'"
  using run ok set_modified_vfs_ok(1) [OF ok] by (auto simp: dav_set_modified_def split: sum.splits prod.splits)

lemma prune_vfs_ok:
  assumes ok: "vfs_ok B s" and run: "prune_version E s path k = (s', r)"
  shows "vfs_ok B s'"
  using run ok delete_version_vfs_ok(1) [OF ok] by (auto simp: prune_version_def split: sum.splits prod.splits)

lemma resolve_file_find:
  assumes "vfs_ok B s" and "resolve_file E s path = Inr n"
  obtains r where "n = row_to_node r" and "find_node (fs_db s) (n_id r) = Some r" and "n_is_dir r = 0"
    and "path_to (fs_db s) (n_id r) (segments path)"
proof -
  have res: "resolve E s path = Inr n" "\<not> is_dir n" using resolve_file_resolve [OF assms(2)] by auto
  obtain r where "n = row_to_node r" "find_node (fs_db s) (n_id r) = Some r"
      "path_to (fs_db s) (n_id r) (segments path)"
    using resolve_Inr [OF assms(1) res(1)] by blast
  then show thesis using that res(2) by simp
qed

lemma version_by_number_Inr:
  assumes "version_by_number sf d i k = Inr v"
  shows "\<exists>w. find_number d i (u64_as_i64 k) = Some w \<and> v = row_to_version w \<and> w \<in> set (versions d)
    \<and> v_node w = i \<and> version_id v = v_id w"
proof -
  obtain w where w: "find_number d i (u64_as_i64 k) = Some w" "v = row_to_version w"
    using assms by (auto simp: version_by_number_def)
  then show ?thesis using find_Some_conv by (fastforce simp: find_number_def row_to_version_def)
qed

lemma revert_vfs_ok:
  assumes E: "env_ok B E" and ok: "vfs_ok B s" and run: "revert_to_version E s path k = (s', r)"
  shows "vfs_ok B s'"
proof (cases "and_then (resolve_file E s path) (\<lambda>n. and_then (map_err VfsMeta
    (version_by_number (e_sql E) (fs_db s) (node_id n) k)) (\<lambda>v. Inr (n, version_id v)))")
  case (Inl e)
  then show ?thesis using run ok by (simp add: revert_to_version_def)
next
  case (Inr p)
  then obtain n v where n: "resolve_file E s path = Inr n" and p: "p = (n, version_id v)"
    and v: "version_by_number (e_sql E) (fs_db s) (node_id n) k = Inr v" by auto
  obtain row where row: "n = row_to_node row" "find_node (fs_db s) (n_id row) = Some row" "n_is_dir row = 0"
    using resolve_file_find [OF ok n] by blast
  obtain w where w: "w \<in> set (versions (fs_db s))" "version_id v = v_id w"
    using version_by_number_Inr [OF v] by blast
  obtain s1 r1 where ref: "reference_under_guard E s (node_id n)
      (\<lambda>d. load_version_manifest (e_b3 E) (e_sql E) d (version_id v)) = (s1, r1)" by fastforce
  have "vfs_ok B s1"
  proof (rule reference_vfs_ok [OF E ok _ _ ref])
    show "n_is_dir q = 0" if "find_node (fs_db s) (node_id n) = Some q" for q using that row by simp
    have v_in: "v_id w \<in> version_ids (fs_db s)" using w(1) by (simp add: version_ids_def)
    show "manifest_content (blobs_of B (fs_disk s)) m \<noteq> None"
      if "load_version_manifest (e_b3 E) (e_sql E) (fs_db s) (version_id v) = Inr m" for m
      using that read_version_readable [OF ok env_okD(2) [OF E] v_in] env_okD(1) [OF E] w(2)
      by (simp add: load_version_manifest_def)
  qed
  then show ?thesis using run Inr p ref
    by (cases r1) (auto simp: revert_to_version_def)
qed

text \<open>The checks before a rename or copy rule out a destination below the source.\<close>

lemma not_inside:
  assumes ok: "vfs_ok B s" and src: "find_node (fs_db s) (n_id f) = Some f"
    and par: "find_node (fs_db s) (n_id p) = Some p" "n_is_dir p \<noteq> 0"
    and chk: "check_not_inside E s (row_to_node f) (row_to_node p) = Inr u"
  shows "\<not> anc (fs_db s) (n_id f) (n_id p)"
proof (cases "n_is_dir f = 0")
  case True
  then show ?thesis
    using file_above [OF vfs_okD(5,6) [OF ok] src] par src by (metis option.inject)
next
  case False
  then have "is_ancestor_or_self (e_sql E) (fs_db s) (n_id f) (n_id p) = Inr False"
    using chk by (auto simp: check_not_inside_def split: if_splits)
  then show ?thesis using ancestor_walk_Inr [OF vfs_okD(6) [OF ok]] by (auto simp: is_ancestor_or_self_def)
qed

lemma clobber_cases:
  assumes ok: "vfs_ok B s" and run: "clobber E s x = (s1, r)"
  shows "vfs_ok B s1" and "anc (fs_db s1) a i \<Longrightarrow> anc (fs_db s) a i"
    and "find_node (fs_db s1) i = Some q \<Longrightarrow> find_node (fs_db s) i = Some q"
proof -
  have sql: "sql_ok (fs_db s)" using ok by (rule vfs_okD)
  consider "s1 = s"
    | y :: node and d u where "Meta_Store.remove_file (e_sql E) (fs_db s) (node_id y) = (d, u)"
        and "fs_db s1 = d" and "fs_disk s1 = fs_disk s"
  proof (cases "\<exists>y. x = Some y \<and> \<not> is_dir y")
    case True
    then obtain y where y: "x = Some y" "\<not> is_dir y" by blast
    obtain d u where rm: "Meta_Store.remove_file (e_sql E) (fs_db s) (node_id y) = (d, u)" by fastforce
    have "fs_db s1 = d \<and> fs_disk s1 = fs_disk s"
      using run y rm by (cases u) (auto simp: clobber_def Let_def)
    then show thesis by (intro that(2) [OF rm]) simp_all
  next
    case False
    then have "s1 = s" using run by (auto simp: clobber_def split: option.splits if_splits)
    then show thesis by (rule that(1))
  qed
  then have "vfs_ok B s1 \<and> (anc (fs_db s1) a i \<longrightarrow> anc (fs_db s) a i)
    \<and> (find_node (fs_db s1) i = Some q \<longrightarrow> find_node (fs_db s) i = Some q)"
  proof cases
    case 1
    then show ?thesis using ok by simp
  next
    case 2
    have "vfs_ok B (s\<lparr>fs_db := d\<rparr>)" by (rule remove_file_vfs_ok(1) [OF ok 2(1)])
    then have 1: "vfs_ok B s1" using vfs_ok_same [of s1 "s\<lparr>fs_db := d\<rparr>"] 2(2,3) by simp
    have "d = fs_db s \<or> d = delete_node_row (node_id y) (fs_db s)"
      using 2(1) by (cases u) (auto dest!: remove_Inl remove_file_Inr)
    then show ?thesis using 1 2(2) anc_delete [OF sql] by (auto simp: find_node_delete [OF sql] split: if_splits)
  qed
  then show "vfs_ok B s1" and "anc (fs_db s1) a i \<Longrightarrow> anc (fs_db s) a i"
    and "find_node (fs_db s1) i = Some q \<Longrightarrow> find_node (fs_db s) i = Some q" by blast+
qed

lemma dav_rename_Inr_cases:
  assumes run: "dav_rename E s from_path to_path = (s', r)"
  obtains (early) "s' = s"
  | (go) src parent nm existing s1 r1 where "resolve E s from_path = Inr src" and "node_id src \<noteq> ROOT_ID"
      and "split_parent E s to_path = Inr (parent, nm)" and "check_not_inside E s src parent = Inr ()"
      and "child_of E s parent nm = Inr existing" and "clobber E s existing = (s1, r1)"
      and "case r1 of Inl e \<Rightarrow> s' = s1 \<and> r = Inl e
        | Inr _ \<Rightarrow> (\<exists>d' u. Meta_Store.rename (e_sql E) (fs_db s1) (node_id src) (node_id parent) nm = (d', u)
            \<and> s' = s1\<lparr>fs_db := d'\<rparr> \<and> r = map_err meta_to_fs u)"
proof (cases "and_then (resolve E s from_path) (\<lambda>src.
         and_then (if node_id src = ROOT_ID then Inl FsForbidden else Inr ()) (\<lambda>_.
         and_then (split_parent E s to_path) (\<lambda>(parent, nm).
         and_then (check_not_inside E s src parent) (\<lambda>_.
         and_then (child_of E s parent nm) (\<lambda>existing. Inr (src, parent, nm, existing))))))")
  case (Inl e)
  then show thesis using run early by (simp add: dav_rename_def)
next
  case (Inr x)
  then obtain src parent nm existing where x: "x = (src, parent, nm, existing)"
    and 1: "resolve E s from_path = Inr src" "node_id src \<noteq> ROOT_ID" "split_parent E s to_path = Inr (parent, nm)"
      "check_not_inside E s src parent = Inr ()" "child_of E s parent nm = Inr existing"
    by (auto split: if_splits)
  obtain s1 r1 where cl: "clobber E s existing = (s1, r1)" by fastforce
  obtain d' u where "Meta_Store.rename (e_sql E) (fs_db s1) (node_id src) (node_id parent) nm = (d', u)" by fastforce
  then have "case r1 of Inl e \<Rightarrow> s' = s1 \<and> r = Inl e
        | Inr _ \<Rightarrow> (\<exists>d' u. Meta_Store.rename (e_sql E) (fs_db s1) (node_id src) (node_id parent) nm = (d', u)
            \<and> s' = s1\<lparr>fs_db := d'\<rparr> \<and> r = map_err meta_to_fs u)"
    using run Inr x cl by (cases r1) (auto simp: dav_rename_def)
  then show thesis using go 1 cl by blast
qed

lemma dav_rename_vfs_ok:
  assumes ok: "vfs_ok B s" and run: "dav_rename E s from_path to_path = (s', r)"
  shows "vfs_ok B s'"
  using run
proof (cases rule: dav_rename_Inr_cases)
  case early
  then show ?thesis using ok by simp
next
  case (go src parent nm existing s1 r1)
  obtain f where f: "src = row_to_node f" "find_node (fs_db s) (n_id f) = Some f"
    using resolve_Inr [OF ok go(1)] by blast
  obtain p where p: "parent = row_to_node p" "find_node (fs_db s) (n_id p) = Some p" "n_is_dir p \<noteq> 0"
    using split_parent_Inr [OF ok go(3)] by blast
  note cl = clobber_cases [OF ok go(6)]
  have np: "\<not> anc (fs_db s1) (n_id f) (n_id p)"
    using not_inside [OF ok f(2) p(2,3)] go(4) f(1) p(1) cl(2) by blast
  have dir: "n_is_dir q \<noteq> 0" if "find_node (fs_db s1) (n_id p) = Some q" for q
    using cl(3) [OF that] p by simp
  show ?thesis
  proof (cases r1)
    case (Inl e)
    then show ?thesis using go(7) cl(1) by simp
  next
    case (Inr u)
    then show ?thesis using go(7) rename_vfs_ok(1) [OF cl(1) _ dir np] f(1) p(1) by auto
  qed
qed

lemma copy_file_vfs_ok:
  assumes E: "env_ok B E" and ok: "vfs_ok B s" and sp: "split_parent E s to_path = Inr (parent, nm)"
    and ch: "child_of E s parent nm = Inr existing"
    and kind: "\<And>x. existing = Some x \<Longrightarrow> \<not> is_dir x"
    and run: "copy_file E s src parent nm existing = (s', r)"
  shows "vfs_ok B s'"
proof -
  obtain s1 r1 where tgt: "copy_target E s parent nm existing = (s1, r1)" by fastforce
  have ok1: "vfs_ok B s1"
    using tgt ok create_at_vfs_ok [OF ok sp]
    by (auto simp: copy_target_def create_file_def split: option.splits prod.splits sum.splits)
  show ?thesis
  proof (cases r1)
    case (Inl e)
    then show ?thesis using run tgt ok1 by (simp add: copy_file_def)
  next
    case (Inr p)
    obtain dst ex where p: "p = (dst, ex)" by fastforce
    have is_file: "n_is_dir q = 0" if "find_node (fs_db s1) dst = Some q" for q
    proof (cases existing)
      case (Some x)
      then have "s1 = s" "dst = node_id x" using tgt Inr p by (auto simp: copy_target_def)
      then show ?thesis using that child_of_Inr(2) [OF ok ch Some] kind [OF Some] by auto
    next
      case None
      then obtain d' n where cr: "create_file (e_sql E) (e_now E) (fs_db s) (node_id parent) nm = (d', Inr n)"
        "s1 = s\<lparr>fs_db := d'\<rparr>" "dst = node_id n"
        using tgt Inr p by (auto simp: copy_target_def split: prod.splits sum.splits)
      then obtain i where row: "insert_node_row (fs_db s) (node_id parent) nm 0 (time_to_millis (e_now E)) = Inr (d', i)"
        and "i = dst"
        by (auto simp: create_file_def insert_node_def Let_def split: sum.splits prod.splits)
      then show ?thesis
        using that insert_node_row_Inr(1,2) [OF row] cr(2) find_node_add by (fastforce split: if_splits)
    qed
    obtain s2 r2 where ref: "reference_under_guard E s1 dst (\<lambda>d. load_manifest (e_b3 E) (e_sql E) d (node_id src)) = (s2, r2)"
      by fastforce
    have "vfs_ok B s2"
      by (rule reference_vfs_ok [OF E ok1 is_file _ ref])
        (use load_manifest_readable [OF ok1 env_okD(2) [OF E]] env_okD(1) [OF E] in auto)
    then show ?thesis using run tgt Inr p ref ok1
      by (cases r2) (auto simp: copy_file_def split: if_splits)
  qed
qed

lemma dav_copy_vfs_ok:
  assumes E: "env_ok B E" and ok: "vfs_ok B s" and run: "dav_copy E s from_path to_path = (s', r)"
  shows "vfs_ok B s'"
proof (cases "and_then (resolve E s from_path) (\<lambda>src.
         and_then (split_parent E s to_path) (\<lambda>(parent, nm).
         and_then (check_not_inside E s src parent) (\<lambda>_.
         and_then (child_of E s parent nm) (\<lambda>existing.
         if (case existing of Some x \<Rightarrow> is_dir x \<noteq> is_dir src | None \<Rightarrow> False) then Inl FsExists
         else Inr (src, parent, nm, existing)))))")
  case (Inl e)
  then show ?thesis using run ok by (simp add: dav_copy_def)
next
  case (Inr x)
  then obtain src parent nm existing where x: "x = (src, parent, nm, existing)"
    and sp: "split_parent E s to_path = Inr (parent, nm)" and ch: "child_of E s parent nm = Inr existing"
    and kind: "\<And>y. existing = Some y \<Longrightarrow> is_dir y = is_dir src"
    by (auto split: if_splits option.splits)
  have go: "(if is_dir src then copy_dir E s parent nm existing else copy_file E s src parent nm existing) = (s', r)"
    using run Inr x by (simp add: dav_copy_def)
  show ?thesis
  proof (cases "is_dir src")
    case True
    then show ?thesis using go ok create_at_vfs_ok [OF ok sp]
      by (auto simp: copy_dir_def create_dir_def split: if_splits prod.splits sum.splits)
  next
    case False
    then show ?thesis using go copy_file_vfs_ok [OF E ok sp ch] kind by simp
  qed
qed

section \<open>Garbage collection\<close>

lemma sweep_keeps:
  assumes B: "blake3_ok B"
  shows "disk_ok B k \<Longrightarrow> sweep B flt live hs k st = (k', st') \<Longrightarrow>
    disk_ok B k' \<and> blobs_of B k' \<subseteq>\<^sub>m blobs_of B k \<and> (\<forall>h. h \<in> live \<or> h \<notin> set hs \<longrightarrow> blobs_of B k' h = blobs_of B k h)"
proof (induction hs arbitrary: k st)
  case (Cons h hs)
  show ?case
  proof (cases "h \<in> live")
    case True
    then show ?thesis using Cons.IH [OF Cons.prems(1)] Cons.prems(2) by (fastforce simp: Let_def)
  next
    case False
    obtain k1 r1 where rm: "Blob_Store.remove B (flt h) k h = (k1, r1)" by fastforce
    have k1: "disk_ok B k1" "blobs_of B k1 = blobs_of B k \<or> blobs_of B k1 = (blobs_of B k)(h := None)"
      using remove_cases(1,2) [OF B Cons.prems(1) rm] by auto
    have "\<exists>st1. sweep B flt live hs k1 st1 = (k', st')"
      using False rm Cons.prems(2) by (cases r1) (auto simp: Let_def)
    then have "disk_ok B k' \<and> blobs_of B k' \<subseteq>\<^sub>m blobs_of B k1
        \<and> (\<forall>x. x \<in> live \<or> x \<notin> set hs \<longrightarrow> blobs_of B k' x = blobs_of B k1 x)"
      using Cons.IH [OF k1(1)] by blast
    moreover have "blobs_of B k1 \<subseteq>\<^sub>m blobs_of B k" using k1(2) by (auto simp: map_le_def split: if_splits)
    ultimately show ?thesis using k1(2) False by (auto intro: map_le_trans)
  qed
qed simp

lemma referenced_faulty:
  "referenced_chunk_hashes B sf d = Inr live \<Longrightarrow> referenced_chunk_hashes B no_sql_faults d = Inr live"
  by (simp add: referenced_chunk_hashes_def)

lemma manifest_live: "w \<in> set (versions d) \<Longrightarrow> version_manifest B d w m \<Longrightarrow> h \<in> manifest_hashes m \<Longrightarrow> h \<in> live_hashes B d"
  by (auto simp: live_hashes_def)

lemma readable_live:
  assumes "readable B d k" and "\<And>h. h \<in> live_hashes B d \<Longrightarrow> blobs_of B k' h = blobs_of B k h"
  shows "readable B d k'"
  unfolding readable_def
proof (intro allI impI)
  fix w m assume a: "w \<in> set (versions d) \<and> version_manifest B d w m"
  then have "manifest_content (blobs_of B k') m = manifest_content (blobs_of B k) m"
    using manifest_live assms(2) by (intro manifest_content_cong) blast
  then show "manifest_content (blobs_of B k') m \<noteq> None" using assms(1) a by (simp add: readable_def)
qed

lemma gc_cases:
  assumes E: "env_ok B E" and ok: "vfs_ok B s" and run: "gc E flt sf s = (s', r)"
  shows "vfs_ok B s'" and "fs_db s' = fs_db s"
    and "h \<in> live_hashes B (fs_db s) \<Longrightarrow> blobs_of B (fs_disk s') h = blobs_of B (fs_disk s) h"
proof -
  note env = env_okD [OF E]
  have all: "vfs_ok B s' \<and> fs_db s' = fs_db s
      \<and> (h \<in> live_hashes B (fs_db s) \<longrightarrow> blobs_of B (fs_disk s') h = blobs_of B (fs_disk s) h)"
  proof (cases "and_then (map_err VfsMeta (referenced_chunk_hashes (e_b3 E) (e_sql E) (fs_db s))) (\<lambda>live.
         and_then (map_err VfsIo (list_hashes (e_b3 E) (e_io E) sf (fs_disk s))) (\<lambda>hs. Inr (live, hs)))")
    case (Inl e)
    then show ?thesis using run ok by (simp add: gc_def)
  next
    case (Inr p)
    then obtain live hs where p: "p = (live, hs)" and ref: "referenced_chunk_hashes B (e_sql E) (fs_db s) = Inr live"
      using env(1) by auto
    have live: "live = live_hashes B (fs_db s)"
      using referenced_faulty [OF ref] referenced_live [OF env(2) vfs_okD(5,8) [OF ok]] by simp
    obtain k st where sw: "sweep B flt live hs (fs_disk s) gc_stats_default = (k, st)" by fastforce
    then have s': "s' = s\<lparr>fs_disk := k\<rparr>" using run Inr p env(1) by (simp add: gc_def)
    note keep = sweep_keeps [OF env(2) vfs_okD(2) [OF ok] sw]
    have "readable B (fs_db s) k" using readable_live [OF vfs_okD(3) [OF ok]] keep live by blast
    then show ?thesis using s' keep live vfs_okD(1) [OF ok] by (simp add: vfs_ok_def)
  qed
  then show "vfs_ok B s'" and "fs_db s' = fs_db s"
    and "h \<in> live_hashes B (fs_db s) \<Longrightarrow> blobs_of B (fs_disk s') h = blobs_of B (fs_disk s) h" by blast+
qed

section \<open>Runs\<close>

text \<open>
  A step is one operation under some environment (which calls fail, the clock, the search
  engine). A write handle may be flushed at any time after it was opened, so \<open>h\<close> in a
  flush step is any handle whose node is not a collection by now, and whose content does
  not collide with another stored byte string. In \<open>vr_reopen\<close> the process stops and another one opens
  what it left.
\<close>

inductive vfs_run :: "blake3_lib \<Rightarrow> 't fs_state \<Rightarrow> bool" for B :: blake3_lib where
  vr_start: "vfs_run B \<lparr>fs_db = open_in_memory now, fs_disk = [], fs_index = t\<rparr>"
| vr_open: "vfs_run B s \<Longrightarrow> env_ok B E \<Longrightarrow> dav_open E tf s path opts = (s', r) \<Longrightarrow> vfs_run B s'"
| vr_flush: "vfs_run B s \<Longrightarrow> env_ok B E
    \<Longrightarrow> collision_free B (ran (blobs_of B (fs_disk s)) \<union> slices (pending h))
    \<Longrightarrow> (\<forall>q. find_node (fs_db s) (h_node_id h) = Some q \<longrightarrow> n_is_dir q = 0)
    \<Longrightarrow> flush E tf s h = ((s', h'), u) \<Longrightarrow> vfs_run B s'"
| vr_create_dir: "vfs_run B s \<Longrightarrow> env_ok B E \<Longrightarrow> dav_create_dir E s path = (s', u) \<Longrightarrow> vfs_run B s'"
| vr_remove_dir: "vfs_run B s \<Longrightarrow> env_ok B E \<Longrightarrow> dav_remove_dir E s path = (s', u) \<Longrightarrow> vfs_run B s'"
| vr_remove_file: "vfs_run B s \<Longrightarrow> env_ok B E \<Longrightarrow> dav_remove_file E s path = (s', u) \<Longrightarrow> vfs_run B s'"
| vr_rename: "vfs_run B s \<Longrightarrow> env_ok B E \<Longrightarrow> dav_rename E s path to_path = (s', u) \<Longrightarrow> vfs_run B s'"
| vr_copy: "vfs_run B s \<Longrightarrow> env_ok B E \<Longrightarrow> dav_copy E s path to_path = (s', u) \<Longrightarrow> vfs_run B s'"
| vr_set_modified: "vfs_run B s \<Longrightarrow> env_ok B E \<Longrightarrow> dav_set_modified E s path tm = (s', u) \<Longrightarrow> vfs_run B s'"
| vr_revert: "vfs_run B s \<Longrightarrow> env_ok B E \<Longrightarrow> revert_to_version E s path k = (s', v) \<Longrightarrow> vfs_run B s'"
| vr_prune: "vfs_run B s \<Longrightarrow> env_ok B E \<Longrightarrow> prune_version E s path k = (s', v) \<Longrightarrow> vfs_run B s'"
| vr_gc: "vfs_run B s \<Longrightarrow> env_ok B E \<Longrightarrow> gc E flt sf s = (s', g) \<Longrightarrow> vfs_run B s'"
| vr_reopen: "vfs_run B s \<Longrightarrow> reopens L F ups s fs \<Longrightarrow> vfs_run B (df_state fs)"

lemma vfs_ok_start: "vfs_ok B \<lparr>fs_db = open_in_memory now, fs_disk = [], fs_index = t\<rparr>"
  using migrate_keeps [of now] content_open [of B now]
  by (simp add: vfs_ok_def store_ok_def readable_def)
    (simp add: open_in_memory_def migrate_def find_node_def)

lemma vfs_run_ok: "vfs_run B s \<Longrightarrow> vfs_ok B s"
proof (induction rule: vfs_run.induct)
  case (vr_start now t)
  then show ?case by (rule vfs_ok_start)
next
  case (vr_flush s E h tf s' h' u)
  then show ?case by (intro flush_vfs_ok [of B E s h tf s' h' u]) auto
next
  case (vr_reopen s L F ups fs)
  then show ?case using reopened(3) by blast
qed (auto intro: open_vfs_ok create_dir_vfs_ok dav_remove_dir_vfs_ok dav_remove_file_vfs_ok dav_rename_vfs_ok
    dav_copy_vfs_ok dav_set_modified_vfs_ok revert_vfs_ok prune_vfs_ok gc_cases(1))

end
