(* ===== verification/Vfs_Effect.thy ===== *)
theory Vfs_Effect
  imports Vfs_Run
begin

text \<open>
  What the content operations do when nothing fails, in terms of the bytes of a file
  (\<open>file_bytes\<close>) and of a version (\<open>version_bytes\<close>).
\<close>

section \<open>Bytes of files and versions\<close>

definition file_bytes :: "blake3_lib \<Rightarrow> 't fs_state \<Rightarrow> i64 \<Rightarrow> bytes option" where
  "file_bytes B s i = (case load_manifest B no_sql_faults (fs_db s) i of
     Inl e \<Rightarrow> None | Inr m \<Rightarrow> manifest_content (blobs_of B (fs_disk s)) m)"

definition version_bytes :: "blake3_lib \<Rightarrow> 't fs_state \<Rightarrow> i64 \<Rightarrow> bytes option" where
  "version_bytes B s v = (case read_manifest B no_sql_faults (fs_db s) v of
     Inl e \<Rightarrow> None | Inr m \<Rightarrow> manifest_content (blobs_of B (fs_disk s)) m)"

lemma env_quietD: "env_quiet E \<Longrightarrow> e_io E = no_faults" "env_quiet E \<Longrightarrow> e_sql E = no_sql_faults"
  by (simp_all add: env_quiet_def)

lemma view_of_blob_get:
  "env_ok B E \<Longrightarrow> env_quiet E \<Longrightarrow> view_of (blob_get E s) = blobs_of B (fs_disk s)"
  by (simp add: blob_get_def env_ok_def env_quiet_def view_of_get no_faults_step)

lemma file_bytes_cong:
  "fs_db s' = fs_db s \<Longrightarrow> fs_disk s' = fs_disk s \<Longrightarrow> file_bytes B s' i = file_bytes B s i"
  by (simp add: file_bytes_def split: sum.split)

lemma file_bytes_reindex [simp]: "file_bytes B (reindex E s j) i = file_bytes B s i"
  by (rule file_bytes_cong) simp_all

lemma version_bytes_reindex [simp]: "version_bytes B (reindex E s j) v = version_bytes B s v"
  by (simp add: version_bytes_def split: sum.split)

lemma version_bytes_readable:
  assumes "vfs_ok B s" and "blake3_ok B" and "w \<in> set (versions (fs_db s))"
  obtains m data where "read_manifest B no_sql_faults (fs_db s) (v_id w) = Inr m"
    and "manifest_content (blobs_of B (fs_disk s)) m = Some data" and "version_bytes B s (v_id w) = Some data"
    and "as_u64 (v_size w) = of_nat (length data)"
proof -
  obtain m data where m: "read_manifest B no_sql_faults (fs_db s) (v_id w) = Inr m"
    "version_manifest B (fs_db s) w m" "manifest_content (blobs_of B (fs_disk s)) m = Some data"
    using read_manifest_readable [OF assms] .
  have "as_u64 (v_size w) = total_size m" using m(2) by (simp add: version_manifest_def)
  also have "\<dots> = of_nat (length data)" using manifest_content_length [OF m(3)] by simp
  finally show thesis using that m by (simp add: version_bytes_def)
qed

text \<open>A file's bytes are those of its current version, and its node caches their number.\<close>

lemma file_bytes_current:
  assumes ok: "vfs_ok B s" and B: "blake3_ok B" and r: "find_node (fs_db s) i = Some r"
  shows "n_current r = Some v \<Longrightarrow> v \<in> version_ids (fs_db s) \<and> file_bytes B s i = version_bytes B s v"
    and "n_current r = None \<Longrightarrow> file_bytes B s i = Some [] \<and> load_manifest B no_sql_faults (fs_db s) i = Inr manifest_default"
    and "\<exists>m data. load_manifest B no_sql_faults (fs_db s) i = Inr m
      \<and> manifest_content (blobs_of B (fs_disk s)) m = Some data \<and> file_bytes B s i = Some data
      \<and> as_u64 (n_size r) = of_nat (length data)"
proof -
  have rin: "r \<in> set (nodes (fs_db s))" using find_node_Some [OF r] by blast
  note hist = vfs_okD(7) [OF ok]
  have cur: "\<exists>w. w \<in> set (versions (fs_db s)) \<and> v_id w = v \<and> v_size w = n_size r
      \<and> load_manifest B no_sql_faults (fs_db s) i = read_manifest B no_sql_faults (fs_db s) v" if v: "n_current r = Some v" for v
  proof -
    obtain w where w: "w \<in> set (versions (fs_db s))" "v_id w = v" "v_size w = n_size r"
      using current_okE [OF hist rin v] by blast
    then have "v \<in> version_ids (fs_db s)" by (auto simp: version_ids_def)
    then show ?thesis using w load_manifest_eq [OF r v] by blast
  qed
  show "v \<in> version_ids (fs_db s) \<and> file_bytes B s i = version_bytes B s v" if "n_current r = Some v"
    using cur [OF that] by (auto simp: version_ids_def file_bytes_def version_bytes_def)
  show none: "file_bytes B s i = Some [] \<and> load_manifest B no_sql_faults (fs_db s) i = Inr manifest_default"
    if "n_current r = None"
    using load_manifest_none [OF r that] by (simp add: file_bytes_def)
  show "\<exists>m data. load_manifest B no_sql_faults (fs_db s) i = Inr m
      \<and> manifest_content (blobs_of B (fs_disk s)) m = Some data \<and> file_bytes B s i = Some data
      \<and> as_u64 (n_size r) = of_nat (length data)"
  proof (cases "n_current r")
    case None
    then show ?thesis using none [OF None] current_ok_none(1) [OF hist rin None] by (simp add: as_u64_def)
  next
    case (Some v)
    obtain w where w: "w \<in> set (versions (fs_db s))" "v_id w = v" "v_size w = n_size r"
      "load_manifest B no_sql_faults (fs_db s) i = read_manifest B no_sql_faults (fs_db s) v"
      using cur [OF Some] by blast
    obtain m data where "read_manifest B no_sql_faults (fs_db s) (v_id w) = Inr m"
      "manifest_content (blobs_of B (fs_disk s)) m = Some data" "as_u64 (v_size w) = of_nat (length data)"
      using version_bytes_readable [OF ok B w(1)] by blast
    then show ?thesis using w by (simp add: file_bytes_def)
  qed
qed

section \<open>Setting content\<close>

lemma same_tree_set_content:
  "set_file_content B sf now d i m = (d', r) \<Longrightarrow> same_tree d d'"
proof (cases r)
  case (Inl e)
  moreover assume "set_file_content B sf now d i m = (d', r)"
  ultimately show ?thesis using set_file_content_Inl by (fastforce simp: same_tree_def)
next
  case (Inr t)
  moreover assume "set_file_content B sf now d i m = (d', r)"
  ultimately have "set_file_content B sf now d i m = (d', Inr t)" by simp
  then show ?thesis
    by (cases rule: set_file_content_cases) (simp add: same_tree_def, simp add: same_tree_add_version)
qed

lemma set_content_effect:
  assumes B: "blake3_ok B" and ok: "vfs_ok B s" and r: "find_node (fs_db s) i = Some r" "n_is_dir r = 0"
    and m: "manifest_content (blobs_of B (fs_disk s)) m = Some data"
  shows "\<exists>d' t. set_file_content B no_sql_faults now (fs_db s) i m = (d', Inr t)
    \<and> vfs_ok B (s\<lparr>fs_db := d'\<rparr>) \<and> same_tree (fs_db s) d'
    \<and> file_bytes B (s\<lparr>fs_db := d'\<rparr>) i = Some data
    \<and> (\<forall>j. j \<noteq> i \<longrightarrow> file_bytes B (s\<lparr>fs_db := d'\<rparr>) j = file_bytes B s j)
    \<and> (\<forall>v \<in> version_ids (fs_db s). version_bytes B (s\<lparr>fs_db := d'\<rparr>) v = version_bytes B s v)"
proof -
  have wf: "wf_manifest m" using content_wf [OF m] by blast
  obtain d' t where run: "set_file_content B no_sql_faults now (fs_db s) i m = (d', Inr t)"
    and rd: "load_manifest B no_sql_faults d' i = Inr m"
      "\<And>v. v \<in> version_ids (fs_db s) \<Longrightarrow> read_manifest B no_sql_faults d' v = read_manifest B no_sql_faults (fs_db s) v"
      "\<And>j. j \<noteq> i \<Longrightarrow> load_manifest B no_sql_faults d' j = load_manifest B no_sql_faults (fs_db s) j"
    using set_content_readback [OF B vfs_okD(1) [OF ok] r wf] by metis
  have "vfs_ok B (s\<lparr>fs_db := d'\<rparr>)"
    by (rule set_content_vfs_ok [OF B ok _ _ run]) (use m r in auto)
  then show ?thesis
    using run same_tree_set_content [OF run] rd m
    by (auto simp: file_bytes_def version_bytes_def split: sum.split)
qed

text \<open>More blobs change no bytes.\<close>

lemma more_blobs_bytes:
  assumes ok: "vfs_ok B s" and B: "blake3_ok B" and mono: "blobs_of B (fs_disk s) \<subseteq>\<^sub>m blobs_of B k"
  shows "find_node (fs_db s) i \<noteq> None \<Longrightarrow> file_bytes B (s\<lparr>fs_disk := k\<rparr>) i = file_bytes B s i"
    and "v \<in> version_ids (fs_db s) \<Longrightarrow> version_bytes B (s\<lparr>fs_disk := k\<rparr>) v = version_bytes B s v"
proof -
  assume "find_node (fs_db s) i \<noteq> None"
  then obtain r where "find_node (fs_db s) i = Some r" by auto
  then obtain m data where "load_manifest B no_sql_faults (fs_db s) i = Inr m"
    and "manifest_content (blobs_of B (fs_disk s)) m = Some data" and "file_bytes B s i = Some data"
    using file_bytes_current(3) [OF ok B] by blast
  then show "file_bytes B (s\<lparr>fs_disk := k\<rparr>) i = file_bytes B s i"
    using manifest_content_mono [OF mono] by (simp add: file_bytes_def)
next
  assume "v \<in> version_ids (fs_db s)"
  then obtain w where "w \<in> set (versions (fs_db s))" "v_id w = v" by (auto simp: version_ids_def)
  then obtain m data where "read_manifest B no_sql_faults (fs_db s) v = Inr m"
    and "manifest_content (blobs_of B (fs_disk s)) m = Some data" and "version_bytes B s v = Some data"
    using version_bytes_readable [OF ok B] by metis
  then show "version_bytes B (s\<lparr>fs_disk := k\<rparr>) v = version_bytes B s v"
    using manifest_content_mono [OF mono] by (simp add: version_bytes_def)
qed

section \<open>Storing a file's content\<close>

lemma get_node_quiet: "find_node d i = Some r \<Longrightarrow> get_node no_sql_faults d i = Inr (row_to_node r)"
  by (simp add: get_node_eq)

lemma store_content_effect:
  assumes E: "env_ok B E" and q: "env_quiet E" and ok: "vfs_ok B s" and free: "shards_free B (fs_disk s)"
    and small: "length f < 2 ^ 64" and coll: "collision_free B (ran (blobs_of B (fs_disk s)) \<union> slices f)"
    and r: "find_node (fs_db s) i = Some r" "n_is_dir r = 0"
  shows "\<exists>s' t. store_content E no_temp_faults s i f = (s', Inr t) \<and> vfs_ok B s'
    \<and> same_tree (fs_db s) (fs_db s') \<and> blobs_of B (fs_disk s) \<subseteq>\<^sub>m blobs_of B (fs_disk s')
    \<and> file_bytes B s' i = Some f
    \<and> (\<forall>j. j \<noteq> i \<and> find_node (fs_db s) j \<noteq> None \<longrightarrow> file_bytes B s' j = file_bytes B s j)
    \<and> (\<forall>v \<in> version_ids (fs_db s). version_bytes B s' v = version_bytes B s v)"
proof -
  note env = env_okD [OF E] and quiet = env_quietD [OF q]
  let ?cfg = "chunker_for E (n_name r)"
  obtain k m where st: "store_file B (e_cdc E) no_faults (fs_disk s) (reader_of f) ?cfg = (k, Inr m)"
    using store_file_succeeds [OF free env(3,4)] by blast
  note disk = store_file_disk [OF env(2) vfs_okD(2) [OF ok] st]
  let ?s = "s\<lparr>fs_disk := k\<rparr>"
  have ok1: "vfs_ok B ?s" by (rule vfs_ok_disk [OF ok disk])
  have "manifest_content (blobs_of B (fs_disk ?s)) m = Some f"
    using store_file_content(1) [OF env(2) vfs_okD(2) [OF ok] env(3,4) st small] coll by (simp add: slices_def)
  then obtain d' t where run: "set_file_content B no_sql_faults (e_now E) (fs_db s) i m = (d', Inr t)"
    and ok2: "vfs_ok B (?s\<lparr>fs_db := d'\<rparr>)" and tree: "same_tree (fs_db s) d'"
    and bytes: "file_bytes B (?s\<lparr>fs_db := d'\<rparr>) i = Some f"
      "\<And>j. j \<noteq> i \<Longrightarrow> file_bytes B (?s\<lparr>fs_db := d'\<rparr>) j = file_bytes B ?s j"
      "\<And>v. v \<in> version_ids (fs_db s) \<Longrightarrow> version_bytes B (?s\<lparr>fs_db := d'\<rparr>) v = version_bytes B ?s v"
    using set_content_effect [OF env(2) ok1, of i r m f "e_now E"] r by auto
  have "store_content E no_temp_faults s i f = (s\<lparr>fs_disk := k, fs_db := d'\<rparr>, Inr t)"
    using st run r by (simp add: store_content_def env(1) quiet get_node_quiet)
  then show ?thesis
    using ok2 tree bytes disk more_blobs_bytes [OF ok env(2) disk(2)] by auto
qed

section \<open>Paths\<close>

lemma path_lookups:
  assumes q: "env_quiet E" and ok: "vfs_ok B s" and path: "path_to (fs_db s) i (segments path)"
    and r: "find_node (fs_db s) i = Some r"
  shows "resolve E s path = Inr (row_to_node r)"
    and "n_is_dir r = 0 \<Longrightarrow> resolve_file E s path = Inr (row_to_node r)"
    and "segments path \<noteq> [] \<Longrightarrow> \<exists>p. split_parent E s path = Inr (row_to_node p, last (segments path))
      \<and> child_of E s (row_to_node p) (last (segments path)) = Inr (Some (row_to_node r))"
proof -
  note okd = vfs_okD(5,6) [OF ok] and quiet = env_quietD(2) [OF q]
  have l: "lookup_path no_sql_faults (fs_db s) (segments path) = Inr (row_to_node r)"
    using lookup_path_to [OF okd path] r by auto
  then show "resolve E s path = Inr (row_to_node r)" by (simp add: resolve_def meta_lookup_def quiet)
  show "n_is_dir r = 0 \<Longrightarrow> resolve_file E s path = Inr (row_to_node r)"
    using l by (simp add: resolve_file_def meta_lookup_def quiet)
  assume ne: "segments path \<noteq> []"
  obtain p segs where up: "n_parent r = Some p" "path_to (fs_db s) p segs" "segments path = segs @ [n_name r]"
    using path by (cases rule: path_to.cases) (use ne r in auto)
  obtain pr where pr: "find_node (fs_db s) p = Some pr" "lookup_path no_sql_faults (fs_db s) segs = Inr (row_to_node pr)"
    using lookup_path_to [OF okd up(2)] by blast
  have "n_is_dir pr \<noteq> 0" using tree_okD(2) [OF okd(2) r up(1) pr(1)] .
  moreover have "find_child (fs_db s) (n_id pr) (n_name r) = Some r"
    using find_node_Some [OF r] find_node_Some [OF pr(1)] up(1) by (simp add: find_child_iff [OF okd(1)])
  ultimately show "\<exists>p. split_parent E s path = Inr (row_to_node p, last (segments path))
      \<and> child_of E s (row_to_node p) (last (segments path)) = Inr (Some (row_to_node r))"
    using pr(2) up(3) ne by (intro exI [of _ pr])
      (simp add: split_parent_def meta_lookup_def quiet Let_def child_of_def lookup_child_def)
qed

section \<open>Reading a file\<close>

lemma read_all_bytes:
  assumes "env_ok B E" and "env_quiet E" and "manifest_content (blobs_of B (fs_disk s)) m = Some data"
  shows "read_all (blob_get E s) m = Inr data"
  by (rule read_all_content) (simp add: view_of_blob_get [OF assms(1,2)] assms(3))

lemma read_current_bytes:
  assumes E: "env_ok B E" and q: "env_quiet E" and ok: "vfs_ok B s"
    and path: "path_to (fs_db s) i (segments path)" and r: "find_node (fs_db s) i = Some r" "n_is_dir r = 0"
    and bytes: "file_bytes B s i = Some data" and fits: "of_nat (length data) \<le> mx"
  shows "read_current E s path mx = Inr data"
proof -
  obtain m where m: "load_manifest B no_sql_faults (fs_db s) i = Inr m"
    "manifest_content (blobs_of B (fs_disk s)) m = Some data" "as_u64 (n_size r) = of_nat (length data)"
    using file_bytes_current(3) [OF ok env_okD(2) [OF E] r(1)] bytes by auto
  have "n_id r = i" using find_node_Some [OF r(1)] by simp
  then show ?thesis
    using path_lookups(2) [OF q ok path r] m fits read_all_bytes [OF E q m(2)]
    by (simp add: read_current_def reconstruct_def env_okD(1) [OF E] env_quietD(2) [OF q] not_less)
qed

lemma open_read_bytes:
  assumes E: "env_ok B E" and q: "env_quiet E" and ok: "vfs_ok B s"
    and path: "path_to (fs_db s) i (segments path)" and r: "find_node (fs_db s) i = Some r" "n_is_dir r = 0"
    and bytes: "file_bytes B s i = Some data" and opts: "\<not> o_write opts" "\<not> o_create_new opts"
    and ne: "segments path \<noteq> []"
  shows "\<exists>h. dav_open E tf s path opts = (s, Inr h) \<and> read_at (blob_get E s) data 0 h
    \<and> handle_len h = of_nat (length data)"
proof -
  obtain m where m: "load_manifest B no_sql_faults (fs_db s) i = Inr m"
    "manifest_content (blobs_of B (fs_disk s)) m = Some data"
    using file_bytes_current(3) [OF ok env_okD(2) [OF E] r(1)] bytes by auto
  have i: "n_id r = i" using find_node_Some [OF r(1)] by simp
  have view: "manifest_content (view_of (blob_get E s)) m = Some data"
    using m(2) by (simp add: view_of_blob_get [OF E q])
  obtain p where "split_parent E s path = Inr (row_to_node p, last (segments path))"
    "child_of E s (row_to_node p) (last (segments path)) = Inr (Some (row_to_node r))"
    using path_lookups(3) [OF q ok path r(1) ne] by blast
  then have "dav_open E tf s path opts = (s, Inr (new_read (row_to_node r) m))"
    using m(1) i r(2) opts
    by (simp add: dav_open_def open_existing_def env_okD(1) [OF E] env_quietD(2) [OF q])
  moreover have "handle_len (new_read (row_to_node r) m) = of_nat (length data)"
    using manifest_content_length [OF m(2)] by (simp add: handle_len_def new_read_def)
  ultimately show ?thesis using read_at_new [OF view] by blast
qed

section \<open>Opening a file for writing\<close>

text \<open>A write handle with nothing in it yet, to be flushed whatever is written.\<close>

definition fresh_write :: "file_handle \<Rightarrow> bool" where
  "fresh_write h \<longleftrightarrow> (\<exists>app. write_at [] 0 app h) \<and> (\<exists>f len app. h_state h = WriteState f len app True)"

lemma new_write_fresh:
  "\<exists>h. new_write gt no_temp_faults n app None True = Inr h \<and> fresh_write h \<and> h_node_id h = node_id n"
  by (auto simp: new_write_def fresh_write_def write_at_def set_len_def Let_def)

lemma create_file_quiet:
  assumes "find_node d p = Some q" and "find_child d p nm = None"
  shows "\<exists>r. create_file no_sql_faults now d p nm = (add_node r d, Inr (row_to_node r)) \<and> n_parent r = Some p
    \<and> n_name r = nm \<and> n_is_dir r = 0 \<and> n_id r \<notin> node_ids d \<and> n_current r = None \<and> n_size r = 0"
proof -
  obtain d' i where row: "insert_node_row d p nm 0 (time_to_millis now) = Inr (d', i)"
    using assms by (simp add: insert_node_row_def Let_def)
  note eff = insert_node_row_Inr [OF row]
  have "create_file no_sql_faults now d p nm = (d', Inr (row_to_node
      \<lparr>n_id = i, n_parent = Some p, n_name = nm, n_is_dir = 0, n_size = 0,
       n_created = time_to_millis now, n_modified = time_to_millis now, n_current = None\<rparr>))"
    using row by (simp add: create_file_def insert_node_def row_to_node_def as_u64_def Let_def)
  then show ?thesis using eff(1,2) by (intro exI conjI) (assumption | simp)+
qed

lemma load_manifest_add_node:
  "n_id r \<notin> node_ids d \<Longrightarrow> j \<noteq> n_id r \<Longrightarrow> load_manifest B sf (add_node r d) j = load_manifest B sf d j"
proof -
  assume a: "n_id r \<notin> node_ids d" "j \<noteq> n_id r"
  have same: "find_version (add_node r d) = find_version d" "read_manifest B sf (add_node r d) = read_manifest B sf d"
    by (simp_all add: fun_eq_iff find_version_def read_manifest_def chunk_rows_def)
  show ?thesis unfolding load_manifest_def same using a by (simp add: find_node_add)
qed

text \<open>The two ways a path whose parent exists can go: to an existing node, or to a new file.\<close>

lemma existing_at:
  assumes ok: "vfs_ok B s" and sp: "split_parent E s path = Inr (parent, nm)"
    and ch: "child_of E s parent nm = Inr (Some x)"
  shows "\<exists>r. x = row_to_node r \<and> find_node (fs_db s) (n_id r) = Some r \<and> path_to (fs_db s) (n_id r) (segments path)"
proof -
  obtain p where p: "parent = row_to_node p" "path_to (fs_db s) (n_id p) (butlast (segments path))"
    "nm = last (segments path)" "segments path \<noteq> []"
    using split_parent_Inr [OF ok sp] by blast
  obtain r where r: "x = row_to_node r" "find_node (fs_db s) (n_id r) = Some r" "n_parent r = Some (n_id p)" "n_name r = nm"
    using child_of_Inr(2) [OF ok ch refl] p(1) by auto
  moreover have "butlast (segments path) @ [n_name r] = segments path" using p(3,4) r(4) by simp
  ultimately show ?thesis using path_step [OF r(2,3) p(2)] by auto
qed

lemma create_file_at:
  assumes q: "env_quiet E" and ok: "vfs_ok B s" and sp: "split_parent E s path = Inr (parent, nm)"
    and ch: "child_of E s parent nm = Inr None"
  shows "\<exists>r s1. create_file no_sql_faults now (fs_db s) (node_id parent) nm = (fs_db s1, Inr (row_to_node r))
    \<and> s1 = s\<lparr>fs_db := add_node r (fs_db s)\<rparr> \<and> n_is_dir r = 0 \<and> n_current r = None \<and> n_id r \<notin> node_ids (fs_db s)
    \<and> vfs_ok B s1 \<and> find_node (fs_db s1) (n_id r) = Some r \<and> path_to (fs_db s1) (n_id r) (segments path)
    \<and> (\<forall>j. find_node (fs_db s) j \<noteq> None \<longrightarrow> j \<noteq> n_id r \<and> find_node (fs_db s1) j \<noteq> None \<and> file_bytes B s1 j = file_bytes B s j)"
proof -
  obtain p where p: "parent = row_to_node p" "find_node (fs_db s) (n_id p) = Some p"
    "path_to (fs_db s) (n_id p) (butlast (segments path))" "nm = last (segments path)" "segments path \<noteq> []"
    using split_parent_Inr [OF ok sp] by blast
  have "find_child (fs_db s) (n_id p) nm = None" using child_of_Inr(1) [OF ok ch] p(1) by simp
  then obtain r where cr: "create_file no_sql_faults now (fs_db s) (n_id p) nm = (add_node r (fs_db s), Inr (row_to_node r))"
    and r: "n_parent r = Some (n_id p)" "n_name r = nm" "n_is_dir r = 0" "n_id r \<notin> node_ids (fs_db s)" "n_current r = None"
    using create_file_quiet [OF p(2)] by blast
  let ?s1 = "s\<lparr>fs_db := add_node r (fs_db s)\<rparr>"
  note find = find_node_add [OF r(4)]
  have "path_to (fs_db ?s1) (n_id p) (butlast (segments path))"
    by (rule path_to_mono [OF _ p(3)]) (use r(4) find_node_None [of "fs_db s" "n_id r"] in \<open>auto simp: find\<close>)
  moreover have "butlast (segments path) @ [n_name r] = segments path" using p(4,5) r(2) by simp
  ultimately have "path_to (fs_db ?s1) (n_id r) (segments path)"
    using path_step [of "fs_db ?s1" "n_id r" r "n_id p" "butlast (segments path)"] r(1) by (simp add: find)
  moreover have "vfs_ok B ?s1"
    by (rule create_at_vfs_ok [OF ok sp]) (use cr p(1) in \<open>simp add: create_file_def\<close>)
  moreover have "file_bytes B ?s1 j = file_bytes B s j" if "j \<noteq> n_id r" for j
    using load_manifest_add_node [OF r(4) that] by (simp add: file_bytes_def split: sum.split)
  moreover have "j \<noteq> n_id r" if "find_node (fs_db s) j \<noteq> None" for j
    using that r(4) find_node_None [of "fs_db s" "n_id r"] by auto
  ultimately show ?thesis using cr p(1) r(3-5)
    by (intro exI [where x = r] exI [where x = ?s1]) (simp add: find)
qed

text \<open>A truncating, creating open of a path whose parent exists.\<close>

lemma open_write_effect:
  assumes E: "env_ok B E" and q: "env_quiet E" and ok: "vfs_ok B s"
    and sp: "split_parent E s path = Inr (parent, nm)" and ch: "child_of E s parent nm = Inr c"
    and kind: "\<forall>x. c = Some x \<longrightarrow> \<not> is_dir x"
    and opts: "o_write opts" "o_truncate opts" "o_create opts" "\<not> o_create_new opts"
  shows "\<exists>s1 h r. dav_open E no_temp_faults s path opts = (s1, Inr h) \<and> fresh_write h \<and> h_node_id h = n_id r
    \<and> vfs_ok B s1 \<and> fs_disk s1 = fs_disk s \<and> find_node (fs_db s1) (n_id r) = Some r \<and> n_is_dir r = 0
    \<and> path_to (fs_db s1) (n_id r) (segments path)
    \<and> (\<forall>j. find_node (fs_db s) j \<noteq> None \<longrightarrow> find_node (fs_db s1) j \<noteq> None \<and> file_bytes B s1 j = file_bytes B s j)"
proof (cases c)
  case (Some x)
  obtain r where r: "x = row_to_node r" "find_node (fs_db s) (n_id r) = Some r" "path_to (fs_db s) (n_id r) (segments path)"
    using existing_at [OF ok sp] ch Some by blast
  obtain h where "new_write (blob_get E s) no_temp_faults x (o_append opts) None True = Inr h"
    "fresh_write h" "h_node_id h = node_id x"
    using new_write_fresh by blast
  moreover from this have "dav_open E no_temp_faults s path opts = (s, Inr h)"
    using sp ch Some kind opts by (simp add: dav_open_def open_existing_def)
  ultimately show ?thesis using r ok kind Some by auto
next
  case None
  obtain r s1 where cr: "create_file no_sql_faults (e_now E) (fs_db s) (node_id parent) nm = (fs_db s1, Inr (row_to_node r))"
    "s1 = s\<lparr>fs_db := add_node r (fs_db s)\<rparr>" "n_is_dir r = 0" "vfs_ok B s1" "find_node (fs_db s1) (n_id r) = Some r"
    "path_to (fs_db s1) (n_id r) (segments path)"
    "\<forall>j. find_node (fs_db s) j \<noteq> None \<longrightarrow> j \<noteq> n_id r \<and> find_node (fs_db s1) j \<noteq> None \<and> file_bytes B s1 j = file_bytes B s j"
    using create_file_at [OF q ok sp, of "e_now E"] ch None by blast
  obtain h where h: "new_write (blob_get E s) no_temp_faults (row_to_node r) False None True = Inr h"
    "fresh_write h" "h_node_id h = n_id r"
    using new_write_fresh by fastforce
  then have "dav_open E no_temp_faults s path opts = (s1, Inr h)"
    using sp ch None opts cr(1,2) by (simp add: dav_open_def open_new_def env_quietD(2) [OF q])
  then show ?thesis using h cr by (intro exI [where x = s1] exI [where x = h] exI [where x = r]) simp
qed

end
