(* ===== verification/Sample_Vfs.thy ===== *)
theory Sample_Vfs
  imports Vfs_Effect
begin

text \<open>
  A small file system for the witnesses: the metadata store \<open>sample_db\<close> (a collection
  \<open>docs\<close> with a file \<open>a.md\<close>), the one blob its version names, and an empty index.
\<close>

definition sample_env :: "sample_engine env" where
  "sample_env = \<lparr>e_b3 = sample_blake3, e_cdc = sample_fastcdc, e_tv = sample_tantivy, e_chunker = sample_config,
     e_media = sample_config, e_io = no_faults, e_sql = no_sql_faults, e_now = 5000000\<rparr>"

definition sample_vfs :: "sample_engine fs_state" where
  "sample_vfs = \<lparr>fs_db = sample_db,
     fs_disk = persist [] (blob_path sample_blake3 (hash_of sample_blake3 ''hello'')) ''hello'',
     fs_index = ([], [], [])\<rparr>"

lemma sample_env_ok: "env_ok sample_blake3 sample_env"
  by (simp add: env_ok_def sample_env_def sample_blake3_ok sample_fastcdc_ok sample_config_valid)

lemma sample_env_quiet: "env_quiet sample_env"
  by (simp add: env_quiet_def sample_env_def)

lemma sample_env_sel [simp]:
  "e_b3 sample_env = sample_blake3" "e_io sample_env = no_faults" "e_sql sample_env = no_sql_faults"
  "e_tv sample_env = sample_tantivy" "e_now sample_env = 5000000"
  by (simp_all add: sample_env_def)

lemma sample_vfs_sel [simp]: "fs_db sample_vfs = sample_db"
  by (simp add: sample_vfs_def)

lemma sample_vfs_blobs:
  "blobs_of sample_blake3 (fs_disk sample_vfs) = [hash_of sample_blake3 ''hello'' \<mapsto> ''hello'']"
proof -
  have "blobs_of sample_blake3 [] = Map.empty"
    by (simp add: fun_eq_iff blobs_of_def entry_at_def shard_of_def)
  then show ?thesis by (simp add: sample_vfs_def blobs_of_persist [OF sample_blake3_ok])
qed

lemma sample_vfs_free: "shards_free sample_blake3 (fs_disk sample_vfs)"
  by (simp add: sample_vfs_def persist_def shards_free_update) (simp add: shards_free_def)

lemma sample_hello_content:
  "manifest_content (blobs_of sample_blake3 (fs_disk sample_vfs)) sample_hello = Some ''hello''"
  using sample_manifests_wf(1) by (simp add: manifest_content_def sample_vfs_blobs) (simp add: sample_hello_def)

lemma sample_version:
  "w \<in> set (versions sample_db) \<Longrightarrow> version_manifest sample_blake3 sample_db w m \<Longrightarrow> m = sample_hello"
proof -
  assume w: "w \<in> set (versions sample_db)" and m: "version_manifest sample_blake3 sample_db w m"
  have "version_manifest sample_blake3 sample_db w sample_hello"
    using w sample_manifests_wf(1)
    by (simp add: version_manifest_def sample_db_def chunk_rows_def)
      (simp add: sample_hello_def u64_as_i64_def)
  then show ?thesis using m version_manifest_unique [OF sample_blake3_ok] by blast
qed

lemma sample_vfs_ok: "vfs_ok sample_blake3 sample_vfs"
proof -
  have "disk_ok sample_blake3 (fs_disk sample_vfs)"
    by (simp add: sample_vfs_def disk_ok_persist)
  moreover have "readable sample_blake3 sample_db (fs_disk sample_vfs)"
    using sample_version sample_hello_content unfolding readable_def by fastforce
  ultimately show ?thesis using sample_db_ok(1) by (simp add: vfs_ok_def)
qed

lemma sample_vfs_collision:
  assumes "length data \<le> 31"
  shows "collision_free sample_blake3 (ran (blobs_of sample_blake3 (fs_disk sample_vfs)) \<union> slices data)"
proof (rule sample_collision_free)
  fix x assume "x \<in> ran (blobs_of sample_blake3 (fs_disk sample_vfs)) \<union> slices data"
  then consider "x = ''hello''" | "x \<in> slices data" by (auto simp: sample_vfs_blobs)
  then show "length x \<le> 31" using length_slices [of x data] assms by cases simp_all
qed

section \<open>Its paths\<close>

lemma sample_segments:
  "segments ''/docs/a.md'' = [''docs'', ''a.md'']" "segments ''/docs/b.md'' = [''docs'', ''b.md'']"
  "segments ''/docs'' = [''docs'']" "segments ''/'' = []"
  by (simp_all add: segments_def)

lemma sample_path: "path_to sample_db 3 [''docs'', ''a.md'']" "path_to sample_db 2 [''docs'']" "path_to sample_db 1 []"
proof -
  show r: "path_to sample_db 1 []"
    by (rule path_root [of _ _ "sample_node 1 None [] 1"]) (simp_all add: sample_db_def sample_simps)
  show d: "path_to sample_db 2 [''docs'']"
    using path_step [OF sample_lookups(2) _ r] by (simp add: sample_node_def)
  show "path_to sample_db 3 [''docs'', ''a.md'']"
    using path_step [OF sample_lookups(1) _ d] by (simp add: sample_file_def sample_node_def)
qed

lemma sample_split:
  "split_parent sample_env sample_vfs ''/docs/a.md'' = Inr (row_to_node (sample_node 2 (Some 1) ''docs'' 1), ''a.md'')"
  "split_parent sample_env sample_vfs ''/docs/b.md'' = Inr (row_to_node (sample_node 2 (Some 1) ''docs'' 1), ''b.md'')"
  by (simp_all add: split_parent_def sample_segments meta_lookup_def lookup_path_def get_node_eq lookup_child_def
      sample_db_def sample_simps)

lemma sample_child:
  "child_of sample_env sample_vfs (row_to_node (sample_node 2 (Some 1) ''docs'' 1)) ''a.md'' = Inr (Some (row_to_node sample_file))"
  "child_of sample_env sample_vfs (row_to_node (sample_node 2 (Some 1) ''docs'' 1)) ''b.md'' = Inr None"
  by (simp_all add: child_of_def lookup_child_def sample_db_def sample_file_def sample_simps)

lemma sample_bytes: "file_bytes sample_blake3 sample_vfs 3 = Some ''hello''"
proof -
  have "load_manifest sample_blake3 no_sql_faults sample_db 3 = Inr sample_hello"
  proof -
    have "1 \<in> version_ids sample_db" by (simp add: version_ids_def sample_db_def)
    then have "load_manifest sample_blake3 no_sql_faults sample_db 3 = read_manifest sample_blake3 no_sql_faults sample_db 1"
      by (rule load_manifest_eq [OF sample_lookups(1,4)])
    also have "\<dots> = Inr sample_hello"
      by (rule read_manifest_encoded [OF sample_blake3_ok sample_manifests_wf(1)])
        (simp add: sample_db_def chunk_rows_def sample_hello_def)
    finally show ?thesis .
  qed
  then show ?thesis by (simp add: file_bytes_def sample_hello_content)
qed

text \<open>The options of a \<open>PUT\<close> and of a \<open>GET\<close>.\<close>

definition put_options :: open_options where
  "put_options = \<lparr>o_write = True, o_append = False, o_truncate = True, o_create = True, o_create_new = False\<rparr>"

definition get_options :: open_options where
  "get_options = \<lparr>o_write = False, o_append = False, o_truncate = False, o_create = False, o_create_new = False\<rparr>"

end
