(* ===== verification/File_Properties.thy ===== *)
theory File_Properties
  imports Sample_Vfs
begin

text \<open>
  The properties of open files (\<open>crates/vfs/src/file.rs\<close>) and of a file's way through the
  whole system: written through a handle, stored in chunks, recorded as a version, and read
  back.
\<close>

section \<open>A whole upload\<close>

lemma write_fresh:
  assumes "fresh_write h" and small: "length (concat bufs) < 2 ^ 63"
  shows "\<exists>h1 f len app. write_buf no_temp_faults h bufs = (h1, Inr ()) \<and> h_node_id h1 = h_node_id h
    \<and> h_state h1 = WriteState f len app True \<and> set_len f (unat len) = concat bufs"
proof -
  obtain app where at: "write_at [] 0 app h" using assms(1) by (auto simp: fresh_write_def)
  have "(2::nat) ^ 63 < 2 ^ 64" by simp
  then have s: "(0::nat) < 2 ^ 63" "0 + length (concat bufs) < 2 ^ 64" using small by (simp, linarith)
  have q: "0 = (if app then length ([]::bytes) else 0)" by simp
  obtain h1 where h1: "write_bytes no_temp_faults h (concat bufs) = (h1, Inr ())"
    "write_at (splice [] 0 (concat bufs)) (0 + length (concat bufs)) app h1"
    "\<exists>f len. h_state h1 = WriteState f len app True" "h_node_id h1 = h_node_id h"
    using write_bytes_at [OF at q s] by blast
  then obtain f len where st: "h_state h1 = WriteState f len app True" by blast
  then have "set_len f (unat len) = splice [] 0 (concat bufs)" using h1(2) by (simp add: write_at_def)
  also have "\<dots> = concat bufs" by (simp add: splice_def)
  finally show ?thesis using h1 st by (auto simp: write_buf_concat)
qed

lemma flush_fresh:
  assumes E: "env_ok B E" and q: "env_quiet E" and ok: "vfs_ok B s" and free: "shards_free B (fs_disk s)"
    and st: "h_state h = WriteState f len app True" "set_len f (unat len) = data"
    and coll: "collision_free B (ran (blobs_of B (fs_disk s)) \<union> slices data)"
    and r: "find_node (fs_db s) (h_node_id h) = Some r" "n_is_dir r = 0"
  shows "\<exists>s' h'. flush E no_temp_faults s h = ((s', h'), Inr ()) \<and> vfs_ok B s'
    \<and> same_tree (fs_db s) (fs_db s') \<and> blobs_of B (fs_disk s) \<subseteq>\<^sub>m blobs_of B (fs_disk s')
    \<and> file_bytes B s' (h_node_id h) = Some data
    \<and> (\<forall>j. j \<noteq> h_node_id h \<and> find_node (fs_db s) j \<noteq> None \<longrightarrow> file_bytes B s' j = file_bytes B s j)
    \<and> (\<forall>v \<in> version_ids (fs_db s). version_bytes B s' v = version_bytes B s v)"
proof -
  have "length data < 2 ^ 64" using st(2) u64_bound [of len] length_set_len by metis
  then obtain s1 t where s1: "store_content E no_temp_faults s (h_node_id h) data = (s1, Inr t)" "vfs_ok B s1"
    "same_tree (fs_db s) (fs_db s1)" "blobs_of B (fs_disk s) \<subseteq>\<^sub>m blobs_of B (fs_disk s1)"
    "file_bytes B s1 (h_node_id h) = Some data"
    "\<forall>j. j \<noteq> h_node_id h \<and> find_node (fs_db s) j \<noteq> None \<longrightarrow> file_bytes B s1 j = file_bytes B s j"
    "\<forall>v \<in> version_ids (fs_db s). version_bytes B s1 v = version_bytes B s v"
    using store_content_effect [OF E q ok free _ coll r] by blast
  let ?h = "h\<lparr>h_modified := t, h_state := WriteState data len app False\<rparr>"
  have "flush E no_temp_faults s h = ((reindex E s1 (h_node_id h), ?h), Inr ())"
    using s1(1) st by (simp add: flush_def Let_def)
  then show ?thesis using s1
    by (intro exI [of _ "reindex E s1 (h_node_id h)"] exI [of _ ?h]) simp
qed

text \<open>A node's kind and id survive an operation that keeps the tree.\<close>

lemma same_tree_file:
  "same_tree d d' \<Longrightarrow> find_node d i = Some r \<Longrightarrow> n_is_dir r = 0 \<Longrightarrow> \<exists>r'. find_node d' i = Some r' \<and> n_is_dir r' = 0"
  using same_treeD by metis

section \<open>The properties\<close>




lemma sample_read_at: "read_at sample_get ''hello'' 0 (new_read (row_to_node sample_file) sample_manifest)"
  by (rule read_at_new [OF sample_manifest_content])


text \<open>
  C26. A write handle is a byte string with a position: \<open>write_bytes\<close> splices the buffer in at
  the position (at the end in append mode, wherever the position is), filling a gap behind
  the old end with zero bytes and keeping what lies beyond the buffer, and moves the position
  behind it. \<open>write_buf\<close> of several buffers is \<open>write_bytes\<close> of their concatenation. What is
  written is then read back through the same handle.
\<close>

theorem handle_write_refines:
  assumes at: "write_at c p app h" and q: "q = (if app then length c else p)"
    and small: "q < 2 ^ 63" "q + length (concat bufs) < 2 ^ 64"
  shows "\<exists>h'. write_buf no_temp_faults h bufs = (h', Inr ())
    \<and> write_bytes no_temp_faults h (concat bufs) = (h', Inr ())
    \<and> write_at (splice c q (concat bufs)) (q + length (concat bufs)) app h'
    \<and> handle_len h' = of_nat (max (length c) (q + length (concat bufs)))"
proof -
  obtain h' where h': "write_bytes no_temp_faults h (concat bufs) = (h', Inr ())"
    "write_at (splice c q (concat bufs)) (q + length (concat bufs)) app h'"
    using write_bytes_at [OF at q small] by blast
  then obtain f len d where st: "h_state h' = WriteState f len app d" "set_len f (unat len) = splice c q (concat bufs)"
    by (auto simp: write_at_def)
  have "unat len = length (set_len f (unat len))" by simp
  also have "\<dots> = max (length c) (q + length (concat bufs))" unfolding st(2) by (rule length_splice)
  finally have len: "unat len = max (length c) (q + length (concat bufs))" .
  have "handle_len h' = of_nat (unat len)" using st(1) by (simp add: handle_len_def)
  then have "handle_len h' = of_nat (max (length c) (q + length (concat bufs)))" by (simp only: len)
  then show ?thesis using h' by (auto simp: write_buf_concat)
qed

definition sample_handle :: file_handle where
  "sample_handle = \<lparr>h_node_id = 3, h_created = 0, h_modified = 0, h_pos = 7, h_state = WriteState ''hello'' 5 False False\<rparr>"

lemma handle_write_refines_witness:
  "\<exists>h'. write_buf no_temp_faults sample_handle [''a'', ''bc''] = (h', Inr ())
    \<and> write_at (''hello'' @ [CHR 0x00, CHR 0x00] @ ''abc'') 10 False h' \<and> handle_len h' = 10"
proof -
  have at: "write_at ''hello'' 7 False sample_handle"
    by (auto simp: write_at_def sample_handle_def set_len_def)
  have sp: "splice ''hello'' 7 (concat [''a'', ''bc'']) = ''hello'' @ [CHR 0x00, CHR 0x00] @ ''abc''"
    by (simp add: splice_def zeros_def numeral_eq_Suc)
  show ?thesis
    using handle_write_refines [OF at, of 7 "[''a'', ''bc'']"] unfolding sp by simp blast
qed

end
