(* ===== verification/Vfs_Properties.thy ===== *)
theory Vfs_Properties
  imports Sample_Vfs
begin

text \<open>
  The properties of the file system (\<open>crates/vfs/src/davfs.rs\<close>) across its components: the
  invariant of every run, garbage collection, reverting and copying, renaming, the search
  index and searching.
\<close>

section \<open>Lemmas the properties share\<close>

text \<open>A sweep with nothing failing: every dead blob it meets goes, and the numbers add up.\<close>

lemma sweep_exact:
  assumes B: "blake3_ok B"
  shows "disk_ok B k \<Longrightarrow> distinct hs \<Longrightarrow> set hs \<subseteq> dom (blobs_of B k) \<Longrightarrow>
    \<exists>k'. sweep B (\<lambda>_. no_faults) live hs k st = (k',
        st\<lparr>blobs_scanned := blobs_scanned st + of_nat (length hs),
           blobs_removed := blobs_removed st + of_nat (length (filter (\<lambda>h. h \<notin> live) hs)),
           bytes_reclaimed := bytes_reclaimed st
             + of_nat (\<Sum>h\<leftarrow>filter (\<lambda>h. h \<notin> live) hs. length (the (blobs_of B k h)))\<rparr>)
      \<and> disk_ok B k' \<and> blobs_of B k' = blobs_of B k |` (- (set hs - live))"
proof (induction hs arbitrary: k st)
  case Nil
  then show ?case by simp
next
  case (Cons h hs)
  show ?case
  proof (cases "h \<in> live")
    case True
    then have "- (set (h # hs) - live) = - (set hs - live)" by auto
    then show ?thesis using Cons.IH [of k "st\<lparr>blobs_scanned := blobs_scanned st + 1\<rparr>"] Cons.prems True
      by (simp add: Let_def add.assoc)
  next
    case False
    obtain b where b: "blobs_of B k h = Some b" using Cons.prems(3) by auto
    let ?k = "unlink k (blob_path B h)"
    let ?st = "st\<lparr>blobs_scanned := blobs_scanned st + 1, bytes_reclaimed := bytes_reclaimed st + of_nat (length b),
      blobs_removed := blobs_removed st + 1\<rparr>"
    have rm: "Blob_Store.remove B no_faults k h = (?k, Inr (of_nat (length b)))"
      by (rule remove_no_faults [OF B Cons.prems(1) b])
    have view: "blobs_of B ?k = (blobs_of B k)(h := None)" by (rule blobs_of_unlink [OF B])
    have "set hs \<subseteq> dom (blobs_of B ?k)" "distinct hs" using Cons.prems(2,3) view by auto
    then obtain k' where k': "sweep B (\<lambda>_. no_faults) live hs ?k ?st = (k',
        ?st\<lparr>blobs_scanned := blobs_scanned ?st + of_nat (length hs),
           blobs_removed := blobs_removed ?st + of_nat (length (filter (\<lambda>h. h \<notin> live) hs)),
           bytes_reclaimed := bytes_reclaimed ?st
             + of_nat (\<Sum>h\<leftarrow>filter (\<lambda>h. h \<notin> live) hs. length (the (blobs_of B ?k h)))\<rparr>)"
      "disk_ok B k'" "blobs_of B k' = blobs_of B ?k |` (- (set hs - live))"
      using Cons.IH [OF disk_ok_unlink [OF Cons.prems(1)], where st = ?st] by blast
    have "(\<Sum>h\<leftarrow>filter (\<lambda>h. h \<notin> live) hs. length (the (blobs_of B ?k h)))
        = (\<Sum>h\<leftarrow>filter (\<lambda>h. h \<notin> live) hs. length (the (blobs_of B k h)))"
      using Cons.prems(2) by (intro arg_cong [of _ _ sum_list] map_cong) (auto simp: view)
    moreover have "blobs_of B k' = blobs_of B k |` (- (set (h # hs) - live))"
      using k'(3) view False by (auto simp: restrict_map_def fun_eq_iff)
    ultimately show ?thesis using k'(1,2) rm False b by (simp add: Let_def add.assoc add.left_commute)
  qed
qed

lemma sum_list_card: "distinct hs \<Longrightarrow> (\<Sum>h\<leftarrow>filter P hs. f h) = (\<Sum>h \<in> {h \<in> set hs. P h}. f h)"
  by (simp add: sum_list_distinct_conv_sum_set set_filter)

lemma length_card: "distinct hs \<Longrightarrow> length (filter P hs) = card {h \<in> set hs. P h}"
  using distinct_card [of "filter P hs"] by (simp add: set_filter)

section \<open>The invariant\<close>


text \<open>A short run: an upload that is still open, then a garbage collection.\<close>

definition sample_start :: "sample_engine fs_state" where
  "sample_start = \<lparr>fs_db = open_in_memory 0, fs_disk = [], fs_index = ([], [], [])\<rparr>"

definition sample_run :: "sample_engine fs_state" where
  "sample_run = fst (gc sample_env (\<lambda>_. no_faults) no_scan_faults
     (fst (dav_open sample_env no_temp_faults sample_start ''/a.md'' put_options)))"

lemma sample_opened_run: "vfs_run sample_blake3 (fst (dav_open sample_env no_temp_faults sample_start ''/a.md'' put_options))"
  unfolding sample_start_def by (intro vr_open [OF _ sample_env_ok prod.collapse [symmetric]] vr_start)

lemma sample_run_run: "vfs_run sample_blake3 sample_run"
  unfolding sample_run_def
  by (rule vr_gc [OF sample_opened_run sample_env_ok prod.collapse [symmetric]])

lemma sample_run_file: "\<exists>r. find_node (fs_db sample_run) 2 = Some r \<and> n_name r = ''a.md'' \<and> n_size r = 0"
proof -
  have "fs_db sample_run = fs_db (fst (dav_open sample_env no_temp_faults sample_start ''/a.md'' put_options))"
    using gc_cases(2) [OF sample_env_ok vfs_run_ok [OF sample_opened_run] prod.collapse [symmetric]]
    by (simp add: sample_run_def)
  then show ?thesis
    by (simp add: sample_start_def dav_open_def open_new_def put_options_def split_parent_def segments_def
        meta_lookup_def lookup_path_def get_node_eq open_in_memory_def migrate_def find_node_def row_to_node_def
        child_of_def lookup_child_def find_child_def create_file_def insert_node_def insert_node_row_def
        next_rowid_def Let_def ROOT_ID_def)
qed


section \<open>Garbage collection\<close>

text \<open>
  C3. \<open>gc\<close> when nothing fails: exactly the blobs that some version of some file names are kept,
  with their content; every other blob goes, and the statistics are exact: the number of blobs
  there were, the number removed, the sum of their sizes, and no failures (as \<open>u64\<close>s). The
  metadata is untouched.
\<close>

theorem gc_exact:
  assumes E: "env_ok B E" and q: "env_quiet E" and ok: "vfs_ok B s"
  shows "\<exists>s'. gc E (\<lambda>_. no_faults) no_scan_faults s = (s', Inr
      \<lparr>blobs_scanned = of_nat (card (dom (blobs_of B (fs_disk s)))),
       blobs_removed = of_nat (card (dom (blobs_of B (fs_disk s)) - live_hashes B (fs_db s))),
       bytes_reclaimed = of_nat (\<Sum>h \<in> dom (blobs_of B (fs_disk s)) - live_hashes B (fs_db s).
         length (the (blobs_of B (fs_disk s) h))),
       blobs_failed = 0\<rparr>)
    \<and> fs_db s' = fs_db s \<and> vfs_ok B s'
    \<and> blobs_of B (fs_disk s') = blobs_of B (fs_disk s) |` live_hashes B (fs_db s)"
proof -
  note env = env_okD [OF E] and quiet = env_quietD [OF q] and disk = vfs_okD(2) [OF ok]
  let ?live = "live_hashes B (fs_db s)" and ?blobs = "blobs_of B (fs_disk s)"
  let ?hs = "scan_root B no_scan_faults (fs_disk s)"
  have hs: "distinct ?hs" "set ?hs = dom ?blobs"
    using scan_root_distinct [OF env(2) disk] scan_root_blobs(2) [OF env(2) disk] by auto
  have dead: "{h \<in> set ?hs. h \<notin> ?live} = dom ?blobs - ?live" using hs(2) by auto
  obtain k' where sw: "sweep B (\<lambda>_. no_faults) ?live ?hs (fs_disk s) gc_stats_default = (k',
        gc_stats_default\<lparr>blobs_scanned := blobs_scanned gc_stats_default + of_nat (length ?hs),
           blobs_removed := blobs_removed gc_stats_default + of_nat (length (filter (\<lambda>h. h \<notin> ?live) ?hs)),
           bytes_reclaimed := bytes_reclaimed gc_stats_default
             + of_nat (\<Sum>h\<leftarrow>filter (\<lambda>h. h \<notin> ?live) ?hs. length (the (?blobs h)))\<rparr>)"
    and view: "blobs_of B k' = ?blobs |` (- (set ?hs - ?live))"
    using sweep_exact [OF env(2) disk hs(1), of ?live gc_stats_default] hs(2) by auto
  have run: "gc E (\<lambda>_. no_faults) no_scan_faults s = (s\<lparr>fs_disk := k'\<rparr>, Inr
      \<lparr>blobs_scanned = of_nat (card (dom ?blobs)), blobs_removed = of_nat (card (dom ?blobs - ?live)),
       bytes_reclaimed = of_nat (\<Sum>h \<in> dom ?blobs - ?live. length (the (?blobs h))), blobs_failed = 0\<rparr>)"
    using sw distinct_card [OF hs(1)] sum_list_card [OF hs(1), of "\<lambda>h. length (the (?blobs h))" "\<lambda>h. h \<notin> ?live"]
      length_card [OF hs(1), of "\<lambda>h. h \<notin> ?live"] dead hs(2)
    by (simp add: gc_def env(1) quiet list_hashes_def no_faults_step referenced_live [OF env(2) vfs_okD(5,8) [OF ok]]
        gc_stats_default_def)
  have "?blobs |` (- (dom ?blobs - ?live)) = ?blobs |` ?live"
    by (auto simp: restrict_map_def fun_eq_iff)
  then have "blobs_of B k' = ?blobs |` ?live" using view hs(2) by simp
  then show ?thesis using run gc_cases(1) [OF E ok run] by auto
qed

text \<open>A second blob, which no version names.\<close>

definition sample_garbage :: "sample_engine fs_state" where
  "sample_garbage = sample_vfs\<lparr>fs_disk := persist (fs_disk sample_vfs) (blob_path sample_blake3 (hash_of sample_blake3 ''old'')) ''old''\<rparr>"

lemma sample_garbage_ok: "vfs_ok sample_blake3 sample_garbage"
proof -
  have "collision_free sample_blake3 {''old'', ''hello''}" by (rule sample_collision_free) auto
  then have "hash_of sample_blake3 ''old'' \<noteq> hash_of sample_blake3 ''hello''"
    using collision_freeD [of sample_blake3 "{''old'', ''hello''}" "''old''" "''hello''"] by auto
  then have "blobs_of sample_blake3 (fs_disk sample_vfs) \<subseteq>\<^sub>m blobs_of sample_blake3 (fs_disk sample_garbage)"
    by (simp add: sample_garbage_def blobs_of_persist [OF sample_blake3_ok] sample_vfs_blobs map_le_def)
  then show ?thesis
    unfolding sample_garbage_def
    by (intro vfs_ok_disk [OF sample_vfs_ok disk_ok_persist [OF vfs_okD(2) [OF sample_vfs_ok]]])
      (simp add: sample_garbage_def)
qed

lemma gc_exact_witness:
  "\<exists>s' st. gc sample_env (\<lambda>_. no_faults) no_scan_faults sample_garbage = (s', Inr st) \<and> blobs_failed st = 0
    \<and> blobs_of sample_blake3 (fs_disk s')
      = blobs_of sample_blake3 (fs_disk sample_garbage) |` live_hashes sample_blake3 (fs_db sample_garbage)"
  using gc_exact [OF sample_env_ok sample_env_quiet sample_garbage_ok] by fastforce

text \<open>
  C4. \<open>gc\<close> whatever fails: the statements, the directory scan, the removal of any blob. It never
  changes what can be read: every file and every version has the same bytes as before, the
  metadata is untouched and no blob appears.
\<close>

theorem gc_keeps_content:
  assumes E: "env_ok B E" and ok: "vfs_ok B s" and run: "gc E flt sf s = (s', r)"
  shows "vfs_ok B s' \<and> fs_db s' = fs_db s \<and> fs_index s' = fs_index s
    \<and> (\<forall>i. find_node (fs_db s) i \<noteq> None \<longrightarrow> file_bytes B s' i = file_bytes B s i)
    \<and> (\<forall>v \<in> version_ids (fs_db s). version_bytes B s' v = version_bytes B s v)"
proof -
  note gc = gc_cases [OF E ok run]
  have B: "blake3_ok B" using env_okD(2) [OF E] .
  have same: "manifest_content (blobs_of B (fs_disk s')) m = manifest_content (blobs_of B (fs_disk s)) m"
    if "w \<in> set (versions (fs_db s))" "version_manifest B (fs_db s) w m" for w m
    using manifest_live [OF that] gc(3) by (intro manifest_content_cong) blast
  have ver: "version_bytes B s' v = version_bytes B s v" if v: "v \<in> version_ids (fs_db s)" for v
  proof -
    obtain w where w: "w \<in> set (versions (fs_db s))" "v_id w = v" using v by (auto simp: version_ids_def)
    obtain m where "read_manifest B no_sql_faults (fs_db s) (v_id w) = Inr m" "version_manifest B (fs_db s) w m"
      using read_manifest_readable [OF ok B w(1)] by blast
    then show ?thesis using same [OF w(1)] w(2) gc(2) by (simp add: version_bytes_def)
  qed
  have "file_bytes B s' i = file_bytes B s i" if i: "find_node (fs_db s) i = Some r" for i r
  proof (cases "n_current r")
    case None
    then show ?thesis using file_bytes_current(2) [OF ok B i] file_bytes_current(2) [OF gc(1) B] gc(2) i by simp
  next
    case (Some v)
    then show ?thesis
      using file_bytes_current(1) [OF ok B i Some] file_bytes_current(1) [OF gc(1) B _ Some] gc(2) i ver by simp
  qed
  moreover have "fs_index s' = fs_index s"
    using run by (auto simp: gc_def split: sum.splits prod.splits)
  ultimately show ?thesis using gc ver by auto
qed

lemma gc_keeps_content_witness:
  "file_bytes sample_blake3 (fst (gc sample_env (\<lambda>_. no_faults(BlobUnlink := Some IoPermissionDenied)) no_scan_faults sample_vfs)) 3
    = Some ''hello''"
  using gc_keeps_content [OF sample_env_ok sample_vfs_ok prod.collapse [symmetric]] sample_lookups(1) sample_bytes
  by simp

end
