(* ===== verification/Opening_Properties.thy ===== *)
theory Opening_Properties
  imports Sample_Vfs
begin

text \<open>
  The properties of opening a store (\<open>DavFs::open\<close> and the parts it opens): a first start, a restart
  after a process stopped, and what a failing start leaves.
\<close>

text \<open>
  A first start, however many attempts failed before it, gives an empty file system: the root alone,
  no blobs, an empty index, and the two built-in chunker configurations, which are valid.
\<close>

theorem first_start:
  assumes L: "index_open_ok L V" and F: "fastcdc_limits_ok F" and tries: "(open_attempt L F)\<^sup>*\<^sup>* fresh_data D"
    and run: "dav_fs_open L F flt now D = (D', r)"
  shows "r \<noteq> None \<and> (opener_reliable L \<and> flt = no_open_faults \<longrightarrow> (\<exists>fs. r = Some (Inr fs)))
    \<and> (\<forall>fs. r = Some (Inr fs) \<longrightarrow> (\<exists>t0. fs_db (df_state fs) = open_in_memory t0) \<and> fs_disk (df_state fs) = []
      \<and> docs V (fs_index (df_state fs)) = [] \<and> staged V (fs_index (df_state fs)) = []
      \<and> valid_config F (df_chunker fs) \<and> valid_config F (df_media fs))"
proof -
  have "\<exists>fs. r = Some (Inr fs)" if "opener_reliable L" "flt = no_open_faults"
    using dav_fs_open_succeeds [OF F that(1), of now D] run that(2) by auto
  moreover have "(\<exists>t0. fs_db (df_state fs) = open_in_memory t0) \<and> fs_disk (df_state fs) = []
      \<and> docs V (fs_index (df_state fs)) = [] \<and> staged V (fs_index (df_state fs)) = []
      \<and> valid_config F (df_chunker fs) \<and> valid_config F (df_media fs)" if "r = Some (Inr fs)" for fs
  proof -
    note opened = dav_fs_open_keeps(4) [OF L run that]
    note kept = attempts_keep [OF L tries]
    have "\<exists>t0. migrate now (db_in D) = open_in_memory t0"
      using kept(2) migrate_twice unfolding open_in_memory_eq by auto
    then show ?thesis using opened kept(1,3) config_builtin_valid [of F] by auto
  qed
  ultimately show ?thesis using dav_fs_open_no_panic [OF F run] by blast
qed

text \<open>A start that fails at the journal setting, then one that does not.\<close>

definition sample_busy :: open_faults where
  "sample_busy = no_open_faults\<lparr>of_sql := (\<lambda>st. if st = SetJournalMode then Some SqliteOther else None)\<rparr>"

definition sample_half :: "sample_engine data_dir" where
  "sample_half = fst (dav_fs_open sample_opener sample_fastcdc sample_busy 0 fresh_data)"

lemma sample_half_attempt: "(open_attempt sample_opener sample_fastcdc)\<^sup>*\<^sup>* fresh_data sample_half"
proof (rule r_into_rtranclp)
  show "open_attempt sample_opener sample_fastcdc fresh_data sample_half"
    unfolding open_attempt_def sample_half_def by (metis prod.collapse)
qed

lemma first_start_witness:
  "dd_db sample_half = Some no_tables \<and> dd_index sample_half = None
    \<and> (\<exists>fs. snd (dav_fs_open sample_opener sample_fastcdc no_open_faults 0 sample_half) = Some (Inr fs)
      \<and> fs_disk (df_state fs) = [])"
proof -
  have half: "dd_db sample_half = Some no_tables" "dd_index sample_half = None"
    by (simp_all add: sample_half_def dav_fs_open_def sample_busy_def blob_store_open_def meta_store_open_def
        from_connection_def fresh_data_def)
  then show ?thesis
    using first_start [OF sample_opener_ok sample_fastcdc_limits sample_half_attempt
        prod.collapse [symmetric], of no_open_faults 0]
      sample_opener_reliable by auto
qed

text \<open>
  C29. A restart loses nothing and leaves nothing dangling. Whatever state a process stopped in, at any of its
  calls and with any unfinished uploads on the disk, and however many attempts to start again
  failed: a start that fails leaves database, blobs and committed index as they were; one that succeeds
  serves the same nodes and versions, each with the bytes it had, satisfies the invariant, and
  searches what was last committed. With no failing call it succeeds.
\<close>

theorem reopening_recovers:
  assumes L: "index_open_ok L V" and F: "fastcdc_limits_ok F" and ok: "vfs_ok B s"
    and fresh: "distinct (map fst (with_uploads ups (fs_disk s)))"
    and tries: "(open_attempt L F)\<^sup>*\<^sup>* (left_behind ups s) D" and run: "dav_fs_open L F flt now D = (D', r)"
  shows "db_in D' = fs_db s \<and> blobs_of B (blobs_in D') = blobs_of B (fs_disk s)
    \<and> index_in V D' = committed V (fs_index s)
    \<and> r \<noteq> None \<and> (opener_reliable L \<and> flt = no_open_faults \<longrightarrow> (\<exists>fs. r = Some (Inr fs)))
    \<and> (\<forall>fs. r = Some (Inr fs) \<longrightarrow> fs_db (df_state fs) = fs_db s \<and> vfs_ok B (df_state fs)
      \<and> (\<forall>i. file_bytes B (df_state fs) i = file_bytes B s i)
      \<and> (\<forall>v. version_bytes B (df_state fs) v = version_bytes B s v)
      \<and> docs V (fs_index (df_state fs)) = committed V (fs_index s)
      \<and> staged V (fs_index (df_state fs)) = committed V (fs_index s))"
proof -
  have tries': "(open_attempt L F)\<^sup>*\<^sup>* (left_behind ups s) D'"
    using tries run by (meson open_attempt_def rtranclp.rtrancl_into_rtrancl)
  note kept = attempts_keep [OF L tries']
  have "db_in D' = fs_db s" using kept(2) migrate_root [OF vfs_okD(6) [OF ok]] by auto
  moreover have "\<exists>fs. r = Some (Inr fs)" if "opener_reliable L" "flt = no_open_faults"
    using dav_fs_open_succeeds [OF F that(1), of now D] run that(2) by auto
  moreover have "fs_db (df_state fs) = fs_db s \<and> vfs_ok B (df_state fs)
      \<and> (\<forall>i. file_bytes B (df_state fs) i = file_bytes B s i)
      \<and> (\<forall>v. version_bytes B (df_state fs) v = version_bytes B s v)
      \<and> docs V (fs_index (df_state fs)) = committed V (fs_index s)
      \<and> staged V (fs_index (df_state fs)) = committed V (fs_index s)" if "r = Some (Inr fs)" for fs
  proof -
    have "reopens L F ups s fs" using fresh tries run that unfolding reopens_def by blast
    from reopened [OF ok this] show ?thesis using L by (simp add: file_bytes_def version_bytes_def split: sum.split)
  qed
  ultimately show ?thesis using kept(1,3) dav_fs_open_no_panic [OF F run] by simp
qed

text \<open>The sample file system, whose process stopped during an upload.\<close>

lemma reopening_recovers_witness:
  "db_in (left_behind [(''.tmpAb12'', ''hel'')] sample_vfs) = sample_db
    \<and> (\<exists>fs. snd (dav_fs_open sample_opener sample_fastcdc no_open_faults 0 (left_behind [(''.tmpAb12'', ''hel'')] sample_vfs))
        = Some (Inr fs)
      \<and> vfs_ok sample_blake3 (df_state fs) \<and> file_bytes sample_blake3 (df_state fs) 3 = Some ''hello'')"
proof -
  let ?ups = "[(''.tmpAb12'', ''hel'')]" and ?p = "blob_path sample_blake3 (hash_of sample_blake3 ''hello'')"
  have "length (fst ?p) \<le> 2" by (simp add: blob_path_def Let_def)
  then have "fst ?p \<noteq> ''.tmpAb12''" by auto
  then have "distinct (map fst (with_uploads ?ups (fs_disk sample_vfs)))"
    by (simp add: with_uploads_def sample_vfs_def persist_def)
  then show ?thesis
    using reopening_recovers [OF sample_opener_ok sample_fastcdc_limits sample_vfs_ok _ rtranclp.rtrancl_refl
        prod.collapse [symmetric], of ?ups no_open_faults 0]
      sample_opener_reliable sample_bytes by auto
qed

end
