(* ===== verification/Dav_Properties.thy ===== *)
theory Dav_Properties
  imports Sample_Vfs
begin

text \<open>
  The properties of the version operations, of \<open>COPY\<close> and \<open>MOVE\<close>, and of the search index
  (\<open>crates/vfs/src/davfs.rs\<close>).
\<close>

section \<open>Lemmas the properties share\<close>

text \<open>Setting content loses no version.\<close>

lemma set_content_keeps_versions:
  assumes "set_file_content B sf now d i m = (d', Inr t)"
  shows "version_ids d \<subseteq> version_ids d'"
  using assms by (cases rule: set_file_content_cases) (auto simp: version_ids_def)

text \<open>Recording a readable manifest as the content of a file, under the guard.\<close>

lemma reference_effect:
  assumes E: "env_ok B E" and q: "env_quiet E" and ok: "vfs_ok B s"
    and r: "find_node (fs_db s) i = Some r" "n_is_dir r = 0"
    and ld: "ld (fs_db s) = Inr m" and m: "manifest_content (blobs_of B (fs_disk s)) m = Some data"
  shows "\<exists>s'. reference_under_guard E s i ld = (s', Inr ()) \<and> vfs_ok B s' \<and> same_tree (fs_db s) (fs_db s')
    \<and> fs_disk s' = fs_disk s \<and> version_ids (fs_db s) \<subseteq> version_ids (fs_db s') \<and> file_bytes B s' i = Some data
    \<and> (\<forall>j. j \<noteq> i \<longrightarrow> file_bytes B s' j = file_bytes B s j)
    \<and> (\<forall>v \<in> version_ids (fs_db s). version_bytes B s' v = version_bytes B s v)"
proof -
  obtain d' t where run: "set_file_content B no_sql_faults (e_now E) (fs_db s) i m = (d', Inr t)"
    "vfs_ok B (s\<lparr>fs_db := d'\<rparr>)" "same_tree (fs_db s) d'" "file_bytes B (s\<lparr>fs_db := d'\<rparr>) i = Some data"
    "\<forall>j. j \<noteq> i \<longrightarrow> file_bytes B (s\<lparr>fs_db := d'\<rparr>) j = file_bytes B s j"
    "\<forall>v \<in> version_ids (fs_db s). version_bytes B (s\<lparr>fs_db := d'\<rparr>) v = version_bytes B s v"
    using set_content_effect [OF env_okD(2) [OF E] ok r m, of "e_now E"] by blast
  moreover have "reference_under_guard E s i ld = (s\<lparr>fs_db := d'\<rparr>, Inr ())"
    using run(1) ld by (simp add: reference_under_guard_def env_okD(1) [OF E] env_quietD(2) [OF q])
  ultimately show ?thesis using set_content_keeps_versions [OF run(1)]
    by (intro exI [of _ "s\<lparr>fs_db := d'\<rparr>"]) simp
qed

lemma version_bytes_add_node [simp]:
  "version_bytes B (s\<lparr>fs_db := add_node r (fs_db s)\<rparr>) v = version_bytes B s v"
  "version_ids (add_node r d) = version_ids d"
  by (simp_all add: version_bytes_def read_manifest_def chunk_rows_def version_ids_def split: sum.split)

lemma find_number_version:
  "find_number d i k = Some w \<Longrightarrow> w \<in> set (versions d) \<and> v_node w = i \<and> v_number w = k"
  by (auto simp: find_number_def dest!: find_Some_conv)

section \<open>Versions\<close>

text \<open>
  C19. Reverting: on a file with a version of the given number, \<open>revert_to_version\<close> succeeds when
  nothing fails; reading the file then gives exactly that version's bytes. The history only
  grows: every version is still there with its bytes, the one that was current included; no
  other file changes and the tree stays as it is. An unknown number is answered with
  \<open>NotFound\<close> and changes nothing.
\<close>

theorem revert_contract:
  assumes E: "env_ok B E" and q: "env_quiet E" and ok: "vfs_ok B s"
    and path: "path_to (fs_db s) i (segments path)" and r: "find_node (fs_db s) i = Some r" "n_is_dir r = 0"
  shows "case find_number (fs_db s) i (u64_as_i64 k) of
      None \<Rightarrow> revert_to_version E s path k = (s, Inl (VfsMeta MetaNotFound))
    | Some w \<Rightarrow> \<exists>s' data. revert_to_version E s path k = (s', Inr ()) \<and> vfs_ok B s'
        \<and> version_bytes B s (v_id w) = Some data \<and> read_current E s' path (of_nat (length data)) = Inr data
        \<and> same_tree (fs_db s) (fs_db s') \<and> version_ids (fs_db s) \<subseteq> version_ids (fs_db s')
        \<and> (\<forall>j. j \<noteq> i \<longrightarrow> file_bytes B s' j = file_bytes B s j)
        \<and> (\<forall>v \<in> version_ids (fs_db s). version_bytes B s' v = version_bytes B s v)"
proof -
  note env = env_okD [OF E] and quiet = env_quietD [OF q]
  have res: "resolve_file E s path = Inr (row_to_node r)" by (rule path_lookups(2) [OF q ok path r])
  have id: "n_id r = i" using find_node_Some [OF r(1)] by simp
  show ?thesis
  proof (cases "find_number (fs_db s) i (u64_as_i64 k)")
    case None
    then show ?thesis using res id by (simp add: revert_to_version_def version_by_number_def quiet)
  next
    case (Some w)
    have w: "w \<in> set (versions (fs_db s))" using find_number_version [OF Some] by blast
    obtain m data where m: "read_manifest B no_sql_faults (fs_db s) (v_id w) = Inr m"
      "manifest_content (blobs_of B (fs_disk s)) m = Some data" "version_bytes B s (v_id w) = Some data"
      using version_bytes_readable [OF ok env(2) w] by blast
    let ?ld = "\<lambda>d. load_version_manifest (e_b3 E) (e_sql E) d (v_id w)"
    have "?ld (fs_db s) = Inr m" using m(1) by (simp add: load_version_manifest_def env(1) quiet)
    then obtain s1 where s1: "reference_under_guard E s i ?ld = (s1, Inr ())" "vfs_ok B s1"
      "same_tree (fs_db s) (fs_db s1)" "version_ids (fs_db s) \<subseteq> version_ids (fs_db s1)"
      "file_bytes B s1 i = Some data" "\<forall>j. j \<noteq> i \<longrightarrow> file_bytes B s1 j = file_bytes B s j"
      "\<forall>v \<in> version_ids (fs_db s). version_bytes B s1 v = version_bytes B s v"
      using reference_effect [where ld = ?ld, OF E q ok r _ m(2)] by blast
    let ?s = "reindex E s1 i"
    have run: "revert_to_version E s path k = (?s, Inr ())"
      using res id Some s1(1)
      by (simp add: revert_to_version_def version_by_number_def quiet row_to_version_def)
    obtain r2 where r2: "find_node (fs_db ?s) i = Some r2" "n_is_dir r2 = 0"
      using same_treeD [OF s1(3) r(1)] r(2) by auto
    have "path_to (fs_db ?s) i (segments path)" using path_to_same_tree [OF s1(3)] path by simp
    then have "read_current E ?s path (of_nat (length data)) = Inr data"
      using read_current_bytes [OF E q _ _ r2] s1(2,5) by simp
    then show ?thesis using Some run s1 m(3) by auto
  qed
qed

lemma revert_contract_witness:
  "\<exists>s'. revert_to_version sample_env sample_vfs ''/docs/a.md'' 1 = (s', Inr ())
    \<and> read_current sample_env s' ''/docs/a.md'' 5 = Inr ''hello''"
proof -
  have "path_to (fs_db sample_vfs) 3 (segments ''/docs/a.md'')" using sample_path(1) by (simp add: sample_segments)
  moreover have "find_node (fs_db sample_vfs) 3 = Some sample_file" using sample_lookups(1) by simp
  moreover have "find_number sample_db 3 (u64_as_i64 1) = Some (hd (versions sample_db))"
    by (simp add: sample_db_def sample_simps)
  moreover have "version_bytes sample_blake3 sample_vfs 1 = Some ''hello''"
    using file_bytes_current(1) [OF sample_vfs_ok sample_blake3_ok _ sample_lookups(4)] sample_lookups(1) sample_bytes
    by simp
  moreover have "v_id (hd (versions sample_db)) = 1" by (simp add: sample_db_def)
  ultimately show ?thesis
    using revert_contract [OF sample_env_ok sample_env_quiet sample_vfs_ok _ _ sample_lookups(3), of 3 "''/docs/a.md''" 1]
    by fastforce
qed

section \<open>Copying\<close>

text \<open>
  C20. Copying a file onto a path whose parent exists (a new name or an existing file) succeeds
  when nothing fails: the destination then holds the source's bytes. Nothing is lost: every
  version in the store, the destination's old ones included, keeps its bytes, and every
  other file, the source included, its content.
\<close>

theorem copy_contract:
  assumes E: "env_ok B E" and q: "env_quiet E" and ok: "vfs_ok B s"
    and path: "path_to (fs_db s) i (segments from_path)" and r: "find_node (fs_db s) i = Some r" "n_is_dir r = 0"
    and sp: "split_parent E s to_path = Inr (parent, nm)" and ch: "child_of E s parent nm = Inr c"
    and kind: "\<forall>x. c = Some x \<longrightarrow> \<not> is_dir x"
  shows "\<exists>s' j. dav_copy E s from_path to_path = (s', Inr ()) \<and> vfs_ok B s'
    \<and> path_to (fs_db s') j (segments to_path) \<and> file_bytes B s' j = file_bytes B s i
    \<and> file_bytes B s' i = file_bytes B s i
    \<and> version_ids (fs_db s) \<subseteq> version_ids (fs_db s')
    \<and> (\<forall>v \<in> version_ids (fs_db s). version_bytes B s' v = version_bytes B s v)
    \<and> (\<forall>l. l \<noteq> j \<and> find_node (fs_db s) l \<noteq> None \<longrightarrow> file_bytes B s' l = file_bytes B s l)"
proof -
  note env = env_okD [OF E] and quiet = env_quietD [OF q]
  have id: "n_id r = i" using find_node_Some [OF r(1)] by simp
  have res: "resolve E s from_path = Inr (row_to_node r)" by (rule path_lookups(1) [OF q ok path r(1)])
  have go: "dav_copy E s from_path to_path = copy_file E s (row_to_node r) parent nm c"
    using res sp ch kind r(2) by (auto simp: dav_copy_def check_not_inside_def split: option.splits)
  show ?thesis
  proof (cases c)
    case (Some x)
    obtain t where t: "x = row_to_node t" "find_node (fs_db s) (n_id t) = Some t" "path_to (fs_db s) (n_id t) (segments to_path)"
      using existing_at [OF ok sp] ch Some by blast
    have tfile: "n_is_dir t = 0" using kind Some t(1) by simp
    obtain m data where m: "load_manifest B no_sql_faults (fs_db s) i = Inr m"
      "manifest_content (blobs_of B (fs_disk s)) m = Some data" "file_bytes B s i = Some data"
      using file_bytes_current(3) [OF ok env(2) r(1)] by blast
    let ?ld = "\<lambda>d. load_manifest (e_b3 E) (e_sql E) d i"
    have "?ld (fs_db s) = Inr m" using m(1) by (simp add: env(1) quiet)
    then obtain s1 where s1: "reference_under_guard E s (n_id t) ?ld = (s1, Inr ())" "vfs_ok B s1"
      "same_tree (fs_db s) (fs_db s1)" "version_ids (fs_db s) \<subseteq> version_ids (fs_db s1)"
      "file_bytes B s1 (n_id t) = Some data" "\<forall>j. j \<noteq> n_id t \<longrightarrow> file_bytes B s1 j = file_bytes B s j"
      "\<forall>v \<in> version_ids (fs_db s). version_bytes B s1 v = version_bytes B s v"
      using reference_effect [where ld = ?ld, OF E q ok t(2) tfile _ m(2)] by blast
    have "dav_copy E s from_path to_path = (reindex E s1 (n_id t), Inr ())"
      using go Some t(1) s1(1) id by (simp add: copy_file_def copy_target_def)
    moreover have "path_to (fs_db s1) (n_id t) (segments to_path)" using path_to_same_tree [OF s1(3)] t(3) by blast
    moreover have "file_bytes B s1 i = file_bytes B s i" using s1(5,6) m(3) by (cases "i = n_id t") auto
    ultimately show ?thesis using s1 m(3)
      by (intro exI [where x = "reindex E s1 (n_id t)"] exI [where x = "n_id t"]) simp
  next
    case None
    obtain t s1 where cr: "create_file no_sql_faults (e_now E) (fs_db s) (node_id parent) nm = (fs_db s1, Inr (row_to_node t))"
      and s1: "s1 = s\<lparr>fs_db := add_node t (fs_db s)\<rparr>" and t: "n_is_dir t = 0" "n_current t = None"
        "n_id t \<notin> node_ids (fs_db s)" "vfs_ok B s1" "find_node (fs_db s1) (n_id t) = Some t"
        "path_to (fs_db s1) (n_id t) (segments to_path)"
      and same: "\<forall>j. find_node (fs_db s) j \<noteq> None \<longrightarrow> j \<noteq> n_id t \<and> find_node (fs_db s1) j \<noteq> None \<and> file_bytes B s1 j = file_bytes B s j"
      using create_file_at [OF q ok sp, of "e_now E"] ch None by blast
    have tgt: "copy_target E s parent nm c = (s1, Inr (n_id t, False))"
      using cr s1 None quiet by (simp add: copy_target_def)
    have keep: "version_ids (fs_db s1) = version_ids (fs_db s)" "\<And>v. version_bytes B s1 v = version_bytes B s v"
      using s1 by simp_all
    have src: "n_id t \<noteq> i" "file_bytes B s1 i = file_bytes B s i" using same r(1) by auto
    show ?thesis
    proof (cases "n_current r")
      case none: None
      have "file_bytes B s1 (n_id t) = Some []" "file_bytes B s i = Some []"
        using file_bytes_current(2) [OF t(4) env(2) t(5,2)] file_bytes_current(2) [OF ok env(2) r(1) none] by auto
      moreover have "dav_copy E s from_path to_path = (s1, Inr ())"
        using go tgt none by (simp add: copy_file_def)
      ultimately show ?thesis using t keep src same
        by (intro exI [where x = s1] exI [where x = "n_id t"]) simp
    next
      case (Some v)
      obtain m data where m: "load_manifest B no_sql_faults (fs_db s) i = Inr m"
        "manifest_content (blobs_of B (fs_disk s)) m = Some data" "file_bytes B s i = Some data"
        using file_bytes_current(3) [OF ok env(2) r(1)] by blast
      let ?ld = "\<lambda>d. load_manifest (e_b3 E) (e_sql E) d i"
      have ld: "?ld (fs_db s1) = Inr m" "manifest_content (blobs_of B (fs_disk s1)) m = Some data"
        using m(1,2) load_manifest_add_node [OF t(3) src(1) [symmetric]] s1 by (simp_all add: env(1) quiet)
      obtain s2 where s2: "reference_under_guard E s1 (n_id t) ?ld = (s2, Inr ())" "vfs_ok B s2"
        "same_tree (fs_db s1) (fs_db s2)" "version_ids (fs_db s1) \<subseteq> version_ids (fs_db s2)"
        "file_bytes B s2 (n_id t) = Some data" "\<forall>j. j \<noteq> n_id t \<longrightarrow> file_bytes B s2 j = file_bytes B s1 j"
        "\<forall>v \<in> version_ids (fs_db s1). version_bytes B s2 v = version_bytes B s1 v"
        using reference_effect [where ld = ?ld, OF E q t(4,5,1) ld] by blast
      have "dav_copy E s from_path to_path = (reindex E s2 (n_id t), Inr ())"
        using go tgt Some s2(1) id by (simp add: copy_file_def)
      moreover have "path_to (fs_db s2) (n_id t) (segments to_path)" using path_to_same_tree [OF s2(3)] t(6) by blast
      ultimately show ?thesis using s2 keep src same m(3)
        by (intro exI [where x = "reindex E s2 (n_id t)"] exI [where x = "n_id t"]) simp
    qed
  qed
qed

lemma copy_contract_witness:
  "\<exists>s' j. dav_copy sample_env sample_vfs ''/docs/a.md'' ''/docs/b.md'' = (s', Inr ())
    \<and> path_to (fs_db s') j [''docs'', ''b.md''] \<and> file_bytes sample_blake3 s' j = Some ''hello''
    \<and> file_bytes sample_blake3 s' 3 = Some ''hello''"
proof -
  have "path_to (fs_db sample_vfs) 3 (segments ''/docs/a.md'')" "find_node (fs_db sample_vfs) 3 = Some sample_file"
    using sample_path(1) sample_lookups(1) by (simp_all add: sample_segments)
  from copy_contract [OF sample_env_ok sample_env_quiet sample_vfs_ok this sample_lookups(3) sample_split(2) sample_child(2)]
  show ?thesis by (simp add: sample_bytes sample_segments) blast
qed

end
