(* ===== verification/Search_Properties.thy ===== *)
theory Search_Properties
  imports Sample_Vfs
begin

text \<open>
  The properties of \<open>MOVE\<close>, of the search index behind the file system and of searching
  (\<open>crates/vfs/src/davfs.rs\<close>, \<open>crates/index/src/lib.rs\<close>).
\<close>

section \<open>Lemmas the properties share\<close>

lemma remove_file_quiet:
  assumes "find_node d i = Some r" and "n_is_dir r = 0"
  shows "Meta_Store.remove_file no_sql_faults d i = (delete_node_row i d, Inr ())"
  using assms by (simp add: remove_file_def get_node_eq delete_node_def)

lemma index_commit_reliable:
  assumes "tantivy_reliable T"
  shows "\<exists>t'. index_commit T t = (t', Inr ())"
proof -
  obtain t1 r1 where c: "tv_commit T t = (t1, r1)" by fastforce
  obtain t2 r2 where l: "tv_reload T t1 = (t2, r2)" by fastforce
  have "snd (tv_commit T t) = Inr ()" "snd (tv_reload T t1) = Inr ()"
    using assms unfolding tantivy_reliable_def by blast+
  then show ?thesis using c l by (simp add: index_commit_def)
qed

lemma index_document_reliable:
  assumes "tantivy_reliable T"
  shows "\<exists>t'. index_document T t k b = (t', Inr ())"
proof -
  obtain t1 r1 where a: "tv_add_document T k b (tv_delete_term T k t) = (t1, r1)" by fastforce
  have "snd (tv_add_document T k b (tv_delete_term T k t)) = Inr ()"
    using assms unfolding tantivy_reliable_def by blast
  then show ?thesis using a by (simp add: index_document_def Let_def)
qed

text \<open>Indexing and committing: what searches see is all that was staged, with the new text.\<close>

lemma index_then_commit:
  assumes T: "tantivy_ok T V" and rel: "tantivy_reliable T"
  shows "\<exists>t'. then_commit T (index_document T t k b) = (t', Inr ())
    \<and> docs V t' = without k (staged V t) @ [(k, b)] \<and> staged V t' = docs V t'"
proof -
  obtain t1 where t1: "index_document T t k b = (t1, Inr ())" using index_document_reliable [OF rel] by blast
  obtain t2 where t2: "index_commit T t1 = (t2, Inr ())" using index_commit_reliable [OF rel] by blast
  show ?thesis
    using index_document_views(1) [OF T t1] index_commit_views [OF T t2] t1 t2 by (simp add: then_commit_def)
qed

lemma deindex_docs:
  assumes T: "tantivy_ok (e_tv E) V" and rel: "tantivy_reliable (e_tv E)"
  shows "docs V (fs_index (deindex E s i)) = without (as_u64 i) (staged V (fs_index s))"
proof -
  obtain t1 where t1: "remove_document (e_tv E) (fs_index s) (as_u64 i) = (t1, Inr ())"
    by (simp add: remove_document_def)
  obtain t2 where t2: "index_commit (e_tv E) t1 = (t2, Inr ())" using index_commit_reliable [OF rel] by blast
  show ?thesis
    using remove_document_views(1) [OF T t1] index_commit_views(3) [OF T t2] t1 t2
    by (simp add: deindex_def then_commit_def)
qed

text \<open>Resolving both ends of a rename.\<close>

lemma rename_start:
  assumes q: "env_quiet E" and ok: "vfs_ok B s"
    and path: "path_to (fs_db s) i (segments from_path)" and r: "find_node (fs_db s) i = Some r" "n_is_dir r = 0"
    and sp: "split_parent E s to_path = Inr (parent, nm)" and ch: "child_of E s parent nm = Inr c"
  shows "dav_rename E s from_path to_path = (case clobber E s c of
      (s1, Inl e) \<Rightarrow> (s1, Inl e)
    | (s1, Inr _) \<Rightarrow> (case Meta_Store.rename no_sql_faults (fs_db s1) i (node_id parent) nm of
        (d, u) \<Rightarrow> (s1\<lparr>fs_db := d\<rparr>, map_err meta_to_fs u)))"
proof -
  have id: "n_id r = i" using find_node_Some [OF r(1)] by simp
  have "i \<noteq> ROOT_ID" using r tree_ok_rootE [OF vfs_okD(6) [OF ok]] by force
  then show ?thesis
    using path_lookups(1) [OF q ok path r(1)] sp ch r(2) id
    by (simp add: dav_rename_def check_not_inside_def env_quietD(2) [OF q] split: prod.splits sum.splits)
qed

section \<open>Moving\<close>

text \<open>
  C21. Moving a file onto itself destroys it: when the destination path resolves to the source,
  \<open>rename\<close> first removes the "existing" destination, which is the source with its whole
  history, and then answers \<open>NotFound\<close> because the source is gone. The operation fails and
  the data is lost.
\<close>

theorem rename_onto_self_loses_file:
  assumes q: "env_quiet E" and ok: "vfs_ok B s"
    and path: "path_to (fs_db s) i (segments from_path)" and r: "find_node (fs_db s) i = Some r" "n_is_dir r = 0"
    and same: "segments to_path = segments from_path"
  shows "\<exists>s'. dav_rename E s from_path to_path = (s', Inl FsNotFound)
    \<and> find_node (fs_db s') i = None \<and> (\<forall>w \<in> set (versions (fs_db s')). v_node w \<noteq> i)"
proof -
  have id: "n_id r = i" using find_node_Some [OF r(1)] by simp
  have sql: "sql_ok (fs_db s)" using vfs_okD(5) [OF ok] .
  have "n_parent r \<noteq> None" using tree_okD(1) [OF vfs_okD(6) [OF ok] r(1)] r tree_ok_rootE [OF vfs_okD(6) [OF ok]] by force
  then have ne: "segments to_path \<noteq> []"
    using path same r(1) by (auto elim: path_to.cases)
  obtain p where sp: "split_parent E s to_path = Inr (row_to_node p, last (segments to_path))"
    and ch: "child_of E s (row_to_node p) (last (segments to_path)) = Inr (Some (row_to_node r))"
    using path_lookups(3) [OF q ok, of i to_path r] path same r(1) ne by auto
  let ?d = "delete_node_row i (fs_db s)"
  obtain s1 where cl: "clobber E s (Some (row_to_node r)) = (s1, Inr ())" "fs_db s1 = ?d"
    using remove_file_quiet [OF r] r(2) id by (auto simp: clobber_def env_quietD(2) [OF q] Let_def)
  have gone: "find_node ?d i = None" using find_node_delete [OF sql, of i i] anc_self by simp
  have "dav_rename E s from_path to_path = (s1\<lparr>fs_db := ?d\<rparr>, Inl FsNotFound)"
    using rename_start [OF q ok path r sp ch] cl gone by (simp add: rename_def update_parent_row_def)
  moreover have "\<forall>w \<in> set (versions ?d). v_node w \<noteq> i"
    using delete_node_versions [OF sql] anc_self by auto
  ultimately show ?thesis using gone by (intro exI [where x = "s1\<lparr>fs_db := ?d\<rparr>"]) simp
qed

lemma rename_onto_self_loses_file_witness:
  "\<exists>s'. dav_rename sample_env sample_vfs ''/docs/a.md'' ''/docs/a.md'' = (s', Inl FsNotFound)
    \<and> find_node (fs_db s') 3 = None \<and> filter (\<lambda>w. v_node w = 3) (versions (fs_db s')) = []"
proof -
  have "path_to (fs_db sample_vfs) 3 (segments ''/docs/a.md'')" "find_node (fs_db sample_vfs) 3 = Some sample_file"
    using sample_path(1) sample_lookups(1) by (simp_all add: sample_segments)
  from rename_onto_self_loses_file [OF sample_env_quiet sample_vfs_ok this sample_lookups(3) refl]
  show ?thesis by (auto simp: filter_empty_conv)
qed

section \<open>The search index\<close>



text \<open>
  C23. A stale document: a text file moved to a name that is not indexed and then deleted leaves
  its search document behind, because \<open>rename\<close> does not touch the index and \<open>remove_file\<close> only
  cleans it up for a name that is indexed now. (The comment on \<open>reindex\<close> says such a node can
  hold no stale document.)
\<close>

theorem rename_then_remove_leaves_document:
  assumes q: "env_quiet E" and ok: "vfs_ok B s"
    and path: "path_to (fs_db s) i (segments from_path)" and r: "find_node (fs_db s) i = Some r" "n_is_dir r = 0"
    and sp: "split_parent E s to_path = Inr (parent, nm)" and ch: "child_of E s parent nm = Inr None"
    and binary: "\<not> is_indexable_name nm"
  shows "\<exists>s1 s2. dav_rename E s from_path to_path = (s1, Inr ()) \<and> dav_remove_file E s1 to_path = (s2, Inr ())
    \<and> find_node (fs_db s2) i = None \<and> fs_index s2 = fs_index s"
proof -
  have id: "n_id r = i" using find_node_Some [OF r(1)] by simp
  note sql = vfs_okD(5) [OF ok] and quiet = env_quietD(2) [OF q]
  obtain p where p: "parent = row_to_node p" "find_node (fs_db s) (n_id p) = Some p" "n_is_dir p \<noteq> 0"
    "path_to (fs_db s) (n_id p) (butlast (segments to_path))" "nm = last (segments to_path)" "segments to_path \<noteq> []"
    using split_parent_Inr [OF ok sp] by blast
  have free: "find_child (fs_db s) (n_id p) nm = None" using child_of_Inr(1) [OF ok ch] p(1) by simp
  have np: "\<not> anc (fs_db s) i (n_id p)" using file_above [OF sql vfs_okD(6) [OF ok] r] p(2,3) r by fastforce
  let ?d = "move i (n_id p) nm (fs_db s)"
  have "Meta_Store.rename no_sql_faults (fs_db s) i (n_id p) nm = (?d, Inr ())"
    using r(1) p(2) free by (auto simp: rename_def update_parent_row_def move_def find_child_None)
  then have mv: "dav_rename E s from_path to_path = (s\<lparr>fs_db := ?d\<rparr>, Inr ())" (is "_ = (?s1, _)")
    using rename_start [OF q ok path r sp ch] p(1) by (simp add: clobber_def)
  have ok1: "vfs_ok B ?s1" by (rule dav_rename_vfs_ok [OF ok mv])
  let ?r = "r\<lparr>n_parent := Some (n_id p), n_name := nm\<rparr>"
  have r1: "find_node (fs_db ?s1) i = Some ?r" using r(1) by (simp add: find_node_move)
  have "path_to (fs_db ?s1) (n_id p) (butlast (segments to_path))"
    using path_to_move_other [OF p(4) np] by simp
  moreover have "butlast (segments to_path) @ [nm] = segments to_path" using p(5,6) by simp
  ultimately have path1: "path_to (fs_db ?s1) i (segments to_path)"
    using path_step [OF r1, of "n_id p" "butlast (segments to_path)"] by simp
  have "dav_remove_file E ?s1 to_path = (?s1\<lparr>fs_db := delete_node_row i ?d\<rparr>, Inr ())"
    using path_lookups(1) [OF q ok1 path1 r1] remove_file_quiet [OF r1] r(2) id binary
    by (simp add: dav_remove_file_def quiet Let_def)
  moreover have "find_node (delete_node_row i ?d) i = None"
    using find_node_delete [of ?d i i] vfs_okD(5) [OF ok1] anc_self by simp
  ultimately show ?thesis using mv
    by (intro exI [where x = ?s1] exI [where x = "?s1\<lparr>fs_db := delete_node_row i ?d\<rparr>"]) simp
qed

lemma rename_then_remove_leaves_document_witness:
  "\<exists>s1 s2. dav_rename sample_env (reindex sample_env sample_vfs 3) ''/docs/a.md'' ''/docs/b.bin'' = (s1, Inr ())
    \<and> dav_remove_file sample_env s1 ''/docs/b.bin'' = (s2, Inr ())
    \<and> find_node (fs_db s2) 3 = None \<and> fs_index s2 = fs_index (reindex sample_env sample_vfs 3)"
proof -
  let ?s = "reindex sample_env sample_vfs 3" and ?p = "row_to_node (sample_node 2 (Some 1) ''docs'' 1)"
  have segs: "segments ''/docs/b.bin'' = [''docs'', ''b.bin'']" by (simp add: segments_def)
  have sp: "split_parent sample_env ?s ''/docs/b.bin'' = Inr (?p, ''b.bin'')"
    by (simp add: split_parent_def segs meta_lookup_def lookup_path_def get_node_eq lookup_child_def
        sample_db_def sample_simps)
  have ch: "child_of sample_env ?s ?p ''b.bin'' = Inr None"
    by (simp add: child_of_def lookup_child_def sample_db_def sample_simps)
  have nm: "\<not> is_indexable_name ''b.bin''"
    by (simp add: is_indexable_name_def to_ascii_lowercase_def byte_in_def byte_val_def after_last_def
        text_extensions_def Let_def)
  have node: "find_node (fs_db ?s) 3 = Some sample_file" by (simp add: sample_lookups)
  have ok: "vfs_ok sample_blake3 ?s" by (simp add: sample_vfs_ok)
  have path: "path_to (fs_db ?s) 3 (segments ''/docs/a.md'')" by (simp add: sample_segments sample_path)
  show ?thesis
    by (rule rename_then_remove_leaves_document [OF sample_env_quiet ok path node sample_lookups(3) sp ch nm])
qed

section \<open>Searching\<close>

lemma path_of_quiet:
  assumes ok: "vfs_ok B s" and run: "path_of no_sql_faults (fs_db s) i = Inr (Some p)"
  shows "\<exists>segs. path_to (fs_db s) i segs \<and> p = join_names segs"
proof -
  have "find_node (fs_db s) i \<noteq> None"
    using run path_walk_missing [of "fs_db s" i MAX_DEPTH "[]"] by (auto simp: path_of_def MAX_DEPTH_def)
  then obtain segs where segs: "path_to (fs_db s) i segs" using tree_okD(3) [OF vfs_okD(6) [OF ok]] by auto
  then show ?thesis using run path_walk_path [OF segs, of MAX_DEPTH "[]"] by (auto simp: path_of_def split: if_splits)
qed

text \<open>What the loop over the hits adds to its results.\<close>

lemma search_loop_results:
  "search_loop E d scope limit hits results = Inr rs \<Longrightarrow> length results \<le> limit \<Longrightarrow>
    length rs \<le> limit \<and> (\<forall>x \<in> set rs - set results. \<exists>h \<in> set hits. \<exists>p.
      path_of (e_sql E) d (u64_as_i64 (hit_node_id h)) = Inr (Some p) \<and> sr_path x = from_utf8_lossy p
      \<and> (\<forall>prefix. scope = Some prefix \<longrightarrow> is_within p prefix))"
proof (induction E d scope limit hits results rule: search_loop.induct)
  case (1 E d scope limit results)
  then show ?case by simp
next
  case (2 E d scope limit h hits results)
  show ?case
  proof (cases "limit \<le> length results")
    case True
    then show ?thesis using 2 by simp
  next
    case False
    obtain p where p: "path_of (e_sql E) d (u64_as_i64 (hit_node_id h)) = Inr p"
      using "2.prems"(1) False by auto
    show ?thesis
    proof (cases "p = None \<or> (\<exists>prefix path. scope = Some prefix \<and> p = Some path \<and> \<not> is_within path prefix)")
      case True
      then have "search_loop E d scope limit hits results = Inr rs"
        using "2.prems"(1) False p by (auto split: option.splits)
      then show ?thesis using True "2.IH"(1,2) [OF False _ ] "2.prems"(2) p by auto
    next
      case in_scope: False
      then obtain path where path: "p = Some path" "\<And>prefix. scope = Some prefix \<Longrightarrow> is_within path prefix" by auto
      let ?x = "\<lparr>sr_path = from_utf8_lossy path, sr_snippet = hit_snippet h, sr_score = hit_score h\<rparr>"
      have "search_loop E d scope limit hits (results @ [?x]) = Inr rs"
        using "2.prems"(1) False p path by (auto split: option.splits)
      then have IH: "length rs \<le> limit \<and> (\<forall>x \<in> set rs - set (results @ [?x]). \<exists>h \<in> set hits. \<exists>p.
          path_of (e_sql E) d (u64_as_i64 (hit_node_id h)) = Inr (Some p) \<and> sr_path x = from_utf8_lossy p
          \<and> (\<forall>prefix. scope = Some prefix \<longrightarrow> is_within p prefix))"
        using "2.IH"(3) [OF False, of path] False path by (auto split: option.splits)
      then show ?thesis using p path by (cases "?x \<in> set rs") fastforce+
    qed
  qed
qed


text \<open>An index with the file's document, and one of a node that is gone.\<close>

definition sample_indexed :: "sample_engine fs_state" where
  "sample_indexed = sample_vfs\<lparr>fs_index := ([], [], [(9, ''hello''), (3, ''hello'')])\<rparr>"

lemma sample_indexed_search:
  "dav_search sample_env sample_indexed ''ell'' 5 ''/docs'' =
     Inr [\<lparr>sr_path = from_utf8_lossy ''/docs/a.md'', sr_snippet = Some ''hello'', sr_score = 1\<rparr>]"
proof -
  have find: "index_search sample_tantivy (fs_index sample_indexed) ''ell'' MAX_SEARCH_FETCH =
      Inr [\<lparr>hit_node_id = 9, hit_score = 1, hit_snippet = Some ''hello''\<rparr>, \<lparr>hit_node_id = 3, hit_score = 1, hit_snippet = Some ''hello''\<rparr>]"
    by (simp add: index_search_def sample_tantivy_def sample_indexed_def MAX_SEARCH_FETCH_def Let_def numeral_eq_Suc)
  have look: "lookup_path no_sql_faults sample_db [''docs''] = Inr (row_to_node (sample_node 2 (Some 1) ''docs'' 1))"
    by (simp add: lookup_path_def get_node_eq lookup_child_def sample_db_def sample_simps)
  have paths: "path_of no_sql_faults sample_db 2 = Inr (Some ''/docs'')"
    "path_of no_sql_faults sample_db 3 = Inr (Some ''/docs/a.md'')" "path_of no_sql_faults sample_db 9 = Inr None"
  proof -
    show "path_of no_sql_faults sample_db 2 = Inr (Some ''/docs'')"
      using path_walk_path [OF sample_path(2), of MAX_DEPTH "[]"] by (simp add: path_of_def MAX_DEPTH_def join_names_def)
    show "path_of no_sql_faults sample_db 3 = Inr (Some ''/docs/a.md'')"
      using path_walk_path [OF sample_path(1), of MAX_DEPTH "[]"] by (simp add: path_of_def MAX_DEPTH_def join_names_def)
    have "find_node sample_db 9 = None" by (simp add: sample_db_def sample_simps)
    then show "path_of no_sql_faults sample_db 9 = Inr None"
      using path_walk_missing [of sample_db 9 MAX_DEPTH "[]"] by (simp add: path_of_def MAX_DEPTH_def)
  qed
  have "is_within ''/docs/a.md'' ''/docs''" by (simp add: is_within_def)
  then show ?thesis
    using find look paths
    by (simp add: dav_search_def meta_lookup_def sample_segments sample_indexed_def Let_def)
      (simp add: sample_node_def ROOT_ID_def u64_as_i64_def, rule exI [where x = "Some ''/docs''"], simp)
qed


end
