(* ===== verification/Gc_Protocol.thy ===== *)
theory Gc_Protocol
  imports Vfs_Effect
begin

text \<open>
  The protocol of \<open>Inner::gc_lock\<close> (\<open>crates/vfs/src/davfs.rs\<close>, \<open>file.rs\<close>): the sections that
  hold the lock, as step relations whose steps interleave with each other and with the
  operations that take no guard. A writer of chunk references (\<open>flush\<close>, and
  \<open>reference_under_guard\<close> for copies and reverts) holds it shared, \<open>gc\<close> exclusively.

  A task is one thread inside such a section, at one of its calls into the stores; every
  call may fail, and with the call the section.
\<close>

section \<open>Tasks\<close>

text \<open>The manifest a reference-only write copies: a file's current one or a version's.\<close>

datatype source = FromFile i64 | FromVersion i64

datatype task =
    Idle
  | Storing i64 "(io_error + chunk) list" manifest
  | Loading i64 source
  | Recording i64 manifest
  | Collecting
  | Marked "hash set"
  | Sweeping "hash set" "hash list"

fun load_source :: "blake3_lib \<Rightarrow> sql_faults \<Rightarrow> db \<Rightarrow> source \<Rightarrow> meta_error + manifest" where
  "load_source B sf d (FromFile i) = load_manifest B sf d i"
| "load_source B sf d (FromVersion v) = load_version_manifest B sf d v"

text \<open>The guards held, and the node a section will write to.\<close>

fun shared :: "task \<Rightarrow> bool" where
  "shared (Storing i items m) = True"
| "shared (Loading i src) = True"
| "shared (Recording i m) = True"
| "shared _ = False"

fun exclusive :: "task \<Rightarrow> bool" where
  "exclusive Collecting = True"
| "exclusive (Marked live) = True"
| "exclusive (Sweeping live hs) = True"
| "exclusive _ = False"

fun target :: "task \<Rightarrow> i64 option" where
  "target (Storing i items m) = Some i"
| "target (Loading i src) = Some i"
| "target (Recording i m) = Some i"
| "target _ = None"

definition no_dir :: "db \<Rightarrow> i64 \<Rightarrow> bool" where
  "no_dir d i \<longleftrightarrow> (\<forall>r. find_node d i = Some r \<longrightarrow> n_is_dir r = 0)"

section \<open>Operations without a guard\<close>

text \<open>The metadata operations, as the handlers call them, with any of their statements failing.\<close>

inductive meta_op :: "db \<Rightarrow> db \<Rightarrow> bool" where
  mo_insert: "insert_node sf now d p nm dir = (d', r)
    \<Longrightarrow> (\<forall>q. find_node d p = Some q \<longrightarrow> n_is_dir q \<noteq> 0) \<Longrightarrow> meta_op d d'"
| mo_rename: "Meta_Store.rename sf d i p nm = (d', u)
    \<Longrightarrow> (\<forall>q. find_node d p = Some q \<longrightarrow> n_is_dir q \<noteq> 0) \<Longrightarrow> \<not> anc d i p \<Longrightarrow> meta_op d d'"
| mo_remove_file: "Meta_Store.remove_file sf d i = (d', u) \<Longrightarrow> meta_op d d'"
| mo_remove_dir: "Meta_Store.remove_dir sf d i = (d', u) \<Longrightarrow> i \<noteq> ROOT_ID \<Longrightarrow> meta_op d d'"
| mo_delete_version: "delete_version sf d i k = (d', u) \<Longrightarrow> meta_op d d'"
| mo_set_modified: "set_modified sf d i tm = (d', u) \<Longrightarrow> meta_op d d'"

section \<open>Steps\<close>

text \<open>
  \<open>gc_step B F U l (tk, s) (tk', s')\<close>: task \<open>p\<close> moves for \<open>l = Some p\<close>, a metadata operation runs
  for \<open>l = None\<close>. \<open>U\<close> holds all byte strings the chunks are cut from. Metadata operations do not
  make a collection of a node that a section is writing to; node ids are reused, so this
  excludes a removal and a creation in between (see \<open>removed_id_is_reused\<close>).
\<close>

type_synonym 't sys = "(nat \<Rightarrow> task) \<times> 't fs_state"

inductive gc_step :: "blake3_lib \<Rightarrow> fastcdc_lib \<Rightarrow> bytes set \<Rightarrow> nat option \<Rightarrow> 't sys \<Rightarrow> 't sys \<Rightarrow> bool"
  for B :: blake3_lib and F :: fastcdc_lib and U :: "bytes set"
where
  gs_meta: "meta_op (fs_db s) d \<Longrightarrow> (\<forall>q i. target (tk q) = Some i \<longrightarrow> no_dir d i)
    \<Longrightarrow> gc_step B F U None (tk, s) (tk, s\<lparr>fs_db := d\<rparr>)"
| gs_flush: "tk p = Idle \<Longrightarrow> (\<forall>q. \<not> exclusive (tk q)) \<Longrightarrow> no_dir (fs_db s) i \<Longrightarrow> valid_config F cfg
    \<Longrightarrow> length (rd_bytes r) < 2 ^ 64 \<Longrightarrow> (\<forall>ck. Inr ck \<in> set (chunk_reader F r cfg) \<longrightarrow> ck_data ck \<in> U)
    \<Longrightarrow> gc_step B F U (Some p) (tk, s) (tk(p := Storing i (chunk_reader F r cfg) manifest_default), s)"
| gs_chunk_err: "tk p = Storing i (Inl e # items) m \<Longrightarrow> gc_step B F U (Some p) (tk, s) (tk(p := Idle), s)"
| gs_put: "tk p = Storing i (Inr ck # items) m \<Longrightarrow> put B flt (fs_disk s) (ck_data ck) = (k, Inr h)
    \<Longrightarrow> gc_step B F U (Some p) (tk, s) (tk(p := Storing i items (push_chunk m h ck)), s\<lparr>fs_disk := k\<rparr>)"
| gs_put_err: "tk p = Storing i (Inr ck # items) m \<Longrightarrow> put B flt (fs_disk s) (ck_data ck) = (k, Inl e)
    \<Longrightarrow> gc_step B F U (Some p) (tk, s) (tk(p := Idle), s\<lparr>fs_disk := k\<rparr>)"
| gs_stored: "tk p = Storing i [] m \<Longrightarrow> gc_step B F U (Some p) (tk, s) (tk(p := Recording i m), s)"
| gs_reference: "tk p = Idle \<Longrightarrow> (\<forall>q. \<not> exclusive (tk q)) \<Longrightarrow> no_dir (fs_db s) i
    \<Longrightarrow> gc_step B F U (Some p) (tk, s) (tk(p := Loading i src), s)"
| gs_load: "tk p = Loading i src \<Longrightarrow> load_source B sf (fs_db s) src = Inr m
    \<Longrightarrow> gc_step B F U (Some p) (tk, s) (tk(p := Recording i m), s)"
| gs_load_err: "tk p = Loading i src \<Longrightarrow> load_source B sf (fs_db s) src = Inl e
    \<Longrightarrow> gc_step B F U (Some p) (tk, s) (tk(p := Idle), s)"
| gs_record: "tk p = Recording i m \<Longrightarrow> set_file_content B sf now (fs_db s) i m = (d, res)
    \<Longrightarrow> gc_step B F U (Some p) (tk, s) (tk(p := Idle), s\<lparr>fs_db := d\<rparr>)"
| gs_gc: "tk p = Idle \<Longrightarrow> (\<forall>q. \<not> shared (tk q) \<and> \<not> exclusive (tk q))
    \<Longrightarrow> gc_step B F U (Some p) (tk, s) (tk(p := Collecting), s)"
| gs_mark: "tk p = Collecting \<Longrightarrow> referenced_chunk_hashes B sf (fs_db s) = Inr live
    \<Longrightarrow> gc_step B F U (Some p) (tk, s) (tk(p := Marked live), s)"
| gs_mark_err: "tk p = Collecting \<Longrightarrow> referenced_chunk_hashes B sf (fs_db s) = Inl e
    \<Longrightarrow> gc_step B F U (Some p) (tk, s) (tk(p := Idle), s)"
| gs_list: "tk p = Marked live \<Longrightarrow> list_hashes B flt sc (fs_disk s) = Inr hs
    \<Longrightarrow> gc_step B F U (Some p) (tk, s) (tk(p := Sweeping live hs), s)"
| gs_list_err: "tk p = Marked live \<Longrightarrow> list_hashes B flt sc (fs_disk s) = Inl e
    \<Longrightarrow> gc_step B F U (Some p) (tk, s) (tk(p := Idle), s)"
| gs_keep: "tk p = Sweeping live (h # hs) \<Longrightarrow> h \<in> live
    \<Longrightarrow> gc_step B F U (Some p) (tk, s) (tk(p := Sweeping live hs), s)"
| gs_remove: "tk p = Sweeping live (h # hs) \<Longrightarrow> h \<notin> live \<Longrightarrow> Blob_Store.remove B flt (fs_disk s) h = (k, res)
    \<Longrightarrow> gc_step B F U (Some p) (tk, s) (tk(p := Sweeping live hs), s\<lparr>fs_disk := k\<rparr>)"
| gs_done: "tk p = Sweeping live [] \<Longrightarrow> gc_step B F U (Some p) (tk, s) (tk(p := Idle), s)"

text \<open>
  The process may stop between any two calls of its sections; the next one opens what it left, with
  no section in progress.
\<close>

inductive gc_run :: "blake3_lib \<Rightarrow> fastcdc_lib \<Rightarrow> bytes set \<Rightarrow> 't sys \<Rightarrow> bool"
  for B :: blake3_lib and F :: fastcdc_lib and U :: "bytes set"
where
  gr_start: "gc_run B F U (\<lambda>_. Idle, \<lparr>fs_db = open_in_memory now, fs_disk = [], fs_index = t\<rparr>)"
| gr_step: "gc_run B F U x \<Longrightarrow> gc_step B F U l x y \<Longrightarrow> gc_run B F U y"
| gr_crash: "gc_run B F U (tk, s) \<Longrightarrow> reopens L F ups s fs \<Longrightarrow> gc_run B F U (\<lambda>_. Idle, df_state fs)"

section \<open>The invariant\<close>

text \<open>
  A section that stores chunks has all chunks so far in the store, in its manifest; one that is
  about to record has a readable manifest; one that sweeps knows a superset of what is
  referenced.
\<close>

definition stored_so_far :: "blake3_lib \<Rightarrow> fastcdc_lib \<Rightarrow> bytes set \<Rightarrow> disk \<Rightarrow> (io_error + chunk) list \<Rightarrow> manifest \<Rightarrow> bool"
where
  "stored_so_far B F U k items m \<longleftrightarrow>
     (\<exists>r cfg cks. valid_config F cfg \<and> length (rd_bytes r) < 2 ^ 64 \<and> (\<forall>ck. Inr ck \<in> set items \<longrightarrow> ck_data ck \<in> U)
       \<and> chunk_reader F r cfg = map Inr cks @ items \<and> m = push_all (hash_of B) manifest_default cks
       \<and> (\<forall>ck \<in> set cks. blobs_of B k (hash_of B (ck_data ck)) = Some (ck_data ck)))"

fun task_ok :: "blake3_lib \<Rightarrow> fastcdc_lib \<Rightarrow> bytes set \<Rightarrow> 't fs_state \<Rightarrow> task \<Rightarrow> bool" where
  "task_ok B F U s (Storing i items m) \<longleftrightarrow> no_dir (fs_db s) i \<and> stored_so_far B F U (fs_disk s) items m"
| "task_ok B F U s (Loading i src) \<longleftrightarrow> no_dir (fs_db s) i"
| "task_ok B F U s (Recording i m) \<longleftrightarrow> no_dir (fs_db s) i \<and> manifest_content (blobs_of B (fs_disk s)) m \<noteq> None"
| "task_ok B F U s (Marked live) \<longleftrightarrow> live_hashes B (fs_db s) \<subseteq> live"
| "task_ok B F U s (Sweeping live hs) \<longleftrightarrow> live_hashes B (fs_db s) \<subseteq> live"
| "task_ok B F U s _ \<longleftrightarrow> True"

definition sys_ok :: "blake3_lib \<Rightarrow> fastcdc_lib \<Rightarrow> bytes set \<Rightarrow> 't sys \<Rightarrow> bool" where
  "sys_ok B F U x = (case x of (tk, s) \<Rightarrow>
     vfs_ok B s \<and> ran (blobs_of B (fs_disk s)) \<subseteq> U
     \<and> (\<forall>p q. exclusive (tk p) \<and> q \<noteq> p \<longrightarrow> tk q = Idle) \<and> (\<forall>p. task_ok B F U s (tk p)))"

lemma idle_iff: "tk = Idle \<longleftrightarrow> \<not> shared tk \<and> \<not> exclusive tk"
  by (cases tk) simp_all

lemma sys_okI:
  assumes "vfs_ok B s" and "ran (blobs_of B (fs_disk s)) \<subseteq> U"
    and "\<And>p q. exclusive (tk p) \<Longrightarrow> q \<noteq> p \<Longrightarrow> tk q = Idle" and "\<And>p. task_ok B F U s (tk p)"
  shows "sys_ok B F U (tk, s)"
  using assms by (auto simp: sys_ok_def)

lemma sys_okD:
  assumes "sys_ok B F U (tk, s)"
  shows "vfs_ok B s" and "ran (blobs_of B (fs_disk s)) \<subseteq> U"
    and "exclusive (tk p) \<Longrightarrow> q \<noteq> p \<Longrightarrow> tk q = Idle" and "task_ok B F U s (tk p)"
  using assms by (auto simp: sys_ok_def)

text \<open>A step of task \<open>p\<close> that leaves the stores alone, and takes no exclusive guard.\<close>

lemma sys_ok_task:
  assumes "sys_ok B F U (tk, s)" and "task_ok B F U s t"
    and "exclusive t \<Longrightarrow> exclusive (tk p) \<or> (\<forall>q. q \<noteq> p \<longrightarrow> tk q = Idle)"
    and "t \<noteq> Idle \<Longrightarrow> tk p \<noteq> Idle \<or> (\<forall>q. \<not> exclusive (tk q))"
  shows "sys_ok B F U (tk(p := t), s)"
proof (rule sys_okI)
  fix q q' assume ex: "exclusive ((tk(p := t)) q)" and ne: "q' \<noteq> q"
  then show "(tk(p := t)) q' = Idle" using assms sys_okD(3) [OF assms(1)] by (auto split: if_splits)
next
  show "task_ok B F U s ((tk(p := t)) q)" for q using assms(2) sys_okD(4) [OF assms(1)] by simp
qed (use sys_okD [OF assms(1)] in blast)+

lemma stored_so_far_mono: "stored_so_far B F U k items m \<Longrightarrow> blobs_of B k \<subseteq>\<^sub>m blobs_of B k' \<Longrightarrow> stored_so_far B F U k' items m"
proof -
  assume le: "blobs_of B k \<subseteq>\<^sub>m blobs_of B k'" and "stored_so_far B F U k items m"
  moreover have "blobs_of B k h = Some b \<Longrightarrow> blobs_of B k' h = Some b" for h b
    using le by (force simp: map_le_def dom_def)
  ultimately show ?thesis unfolding stored_so_far_def by blast
qed

lemma task_ok_more_blobs:
  "task_ok B F U s t \<Longrightarrow> blobs_of B (fs_disk s) \<subseteq>\<^sub>m blobs_of B k \<Longrightarrow> task_ok B F U (s\<lparr>fs_disk := k\<rparr>) t"
  by (cases t) (auto intro: stored_so_far_mono dest: manifest_content_mono)

text \<open>A step that adds blobs.\<close>

lemma sys_ok_more_blobs:
  assumes "sys_ok B F U (tk, s)" and "disk_ok B k" and "blobs_of B (fs_disk s) \<subseteq>\<^sub>m blobs_of B k"
    and "ran (blobs_of B k) \<subseteq> U"
  shows "sys_ok B F U (tk, s\<lparr>fs_disk := k\<rparr>)"
proof (rule sys_okI)
  show "vfs_ok B (s\<lparr>fs_disk := k\<rparr>)" by (rule vfs_ok_disk [OF sys_okD(1) [OF assms(1)] assms(2,3)])
  show "task_ok B F U (s\<lparr>fs_disk := k\<rparr>) (tk p)" for p
    using task_ok_more_blobs [OF sys_okD(4) [OF assms(1)] assms(3)] .
qed (use sys_okD(3) [OF assms(1)] assms(4) in auto)

section \<open>Each kind of step keeps it\<close>

lemma put_stored_so_far:
  assumes B: "blake3_ok B" and coll: "collision_free B U" and k: "disk_ok B k" "ran (blobs_of B k) \<subseteq> U"
    and st: "stored_so_far B F U k (Inr ck # items) m" and run: "put B flt k (ck_data ck) = (k', Inr h)"
  shows "stored_so_far B F U k' items (push_chunk m h ck)" and "ran (blobs_of B k') \<subseteq> U"
proof -
  obtain r cfg cks where r: "valid_config F cfg" "length (rd_bytes r) < 2 ^ 64"
      "chunk_reader F r cfg = map Inr cks @ Inr ck # items" "m = push_all (hash_of B) manifest_default cks"
    and inU: "\<forall>x. Inr x \<in> set (Inr ck # items) \<longrightarrow> ck_data x \<in> U"
    and here: "\<forall>x \<in> set cks. blobs_of B k (hash_of B (ck_data x)) = Some (ck_data x)"
    using st unfolding stored_so_far_def by blast
  have U: "insert (ck_data ck) (ran (blobs_of B k)) \<subseteq> U" using inU k(2) by simp
  have inv: "blake3_ok B \<and> disk_ok B k" using B k(1) by simp
  have new: "blobs_of B k' (hash_of B (ck_data ck)) = Some (ck_data ck)"
    using bs.put_stored [OF inv run] collision_free_mono [OF coll U] by (simp add: collision_free_def)
  have h: "h = hash_of B (ck_data ck)" using bs.put_hash [OF inv run] .
  have le: "blobs_of B k \<subseteq>\<^sub>m blobs_of B k'" using bs.put_mono [OF inv run] .
  have old: "blobs_of B k' (hash_of B (ck_data x)) = Some (ck_data x)" if "x \<in> set cks" for x
  proof -
    have "blobs_of B k (hash_of B (ck_data x)) = Some (ck_data x)" using here that by blast
    then show ?thesis using le by (force simp: map_le_def dom_def)
  qed
  have "chunk_reader F r cfg = map Inr (cks @ [ck]) @ items" using r(3) by simp
  moreover have "push_chunk m h ck = push_all (hash_of B) manifest_default (cks @ [ck])"
    using r(4) h by (simp add: push_all_def)
  moreover have "\<forall>x \<in> set (cks @ [ck]). blobs_of B k' (hash_of B (ck_data x)) = Some (ck_data x)"
    using old new by simp
  moreover have "\<forall>x. Inr x \<in> set items \<longrightarrow> ck_data x \<in> U" using inU by simp
  ultimately show "stored_so_far B F U k' items (push_chunk m h ck)"
    using r(1,2) unfolding stored_so_far_def by blast
  show "ran (blobs_of B k') \<subseteq> U" using bs.put_ran [OF inv run] U by blast
qed

text \<open>All chunks stored: the manifest stands for the bytes of the file.\<close>

lemma stored_content:
  assumes F: "fastcdc_ok F" and st: "stored_so_far B F U k [] m"
  shows "manifest_content (blobs_of B k) m \<noteq> None"
proof -
  obtain r cfg cks where cfg: "valid_config F cfg" and small: "length (rd_bytes r) < 2 ^ 64"
      and items: "chunk_reader F r cfg = map Inr cks" and m: "m = push_all (hash_of B) manifest_default cks"
      and here: "\<forall>x \<in> set cks. blobs_of B k (hash_of B (ck_data x)) = Some (ck_data x)"
    using st unfolding stored_so_far_def by auto
  have "rd_err r = None"
  proof (rule ccontr)
    assume "rd_err r \<noteq> None"
    then obtain e cs where "chunk_reader F r cfg = map (\<lambda>c. Inr (chunk_of_cdc c)) cs @ [Inl e]"
      using chunk_reader_err [OF F cfg, of r] by blast
    then have "Inl e \<in> set (map Inr cks)" using items by simp
    then show False by auto
  qed
  then have r: "reader_of (rd_bytes r) = r" by (simp add: reader_of_def)
  obtain cs where cs: "chunk_reader F (reader_of (rd_bytes r)) cfg = map (\<lambda>c. Inr (chunk_of_cdc c)) cs"
      and cut: "cdc_cut (max_size cfg) 0 (rd_bytes r) cs"
    by (rule chunk_reader_ok [OF F cfg])
  have "(map Inr cks :: (io_error + chunk) list) = map Inr (map chunk_of_cdc cs)" using cs items r by (simp add: comp_def)
  then have "cks = map chunk_of_cdc cs" by (simp only: inj_map_eq_map inj_Inr)
  moreover from this have "blobs_of B k (hash_of B (cd_data c)) = Some (cd_data c)" if "c \<in> set cs" for c
    using here that by fastforce
  ultimately show ?thesis using content_push_all_cdc_cut [OF cut small, of "blobs_of B k" "hash_of B"] m by simp
qed

lemma meta_op_vfs_ok:
  assumes ok: "vfs_ok B s" and op: "meta_op (fs_db s) d"
  shows "vfs_ok B (s\<lparr>fs_db := d\<rparr>)" and "live_hashes B d \<subseteq> live_hashes B (fs_db s)"
proof -
  have "vfs_ok B (s\<lparr>fs_db := d\<rparr>) \<and> sub_history d (fs_db s)"
    using op
  proof cases
    case mo_insert
    then show ?thesis using insert_vfs_ok [OF ok] by blast
  next
    case mo_rename
    then show ?thesis using rename_vfs_ok [OF ok] by blast
  next
    case mo_remove_file
    then show ?thesis using remove_file_vfs_ok [OF ok] by blast
  next
    case mo_remove_dir
    then show ?thesis using remove_dir_vfs_ok [OF ok] by blast
  next
    case mo_delete_version
    then show ?thesis using delete_version_vfs_ok [OF ok] by blast
  next
    case mo_set_modified
    then show ?thesis using set_modified_vfs_ok [OF ok] by blast
  qed
  then show "vfs_ok B (s\<lparr>fs_db := d\<rparr>)" and "live_hashes B d \<subseteq> live_hashes B (fs_db s)"
    using live_sub by auto
qed

lemma load_source_readable:
  assumes "blake3_ok B" and "vfs_ok B s" and "load_source B sf (fs_db s) src = Inr m"
  shows "manifest_content (blobs_of B (fs_disk s)) m \<noteq> None"
proof (cases src)
  case (FromFile i)
  then show ?thesis using load_manifest_readable [OF assms(2,1)] assms(3) by simp
next
  case (FromVersion v)
  show ?thesis
  proof (cases "v \<in> version_ids (fs_db s)")
    case True
    then show ?thesis using read_version_readable [OF assms(2,1)] assms(3) FromVersion
      by (simp add: load_version_manifest_def)
  next
    case False
    then have "m = manifest_default" using read_manifest_deleted(2) [OF vfs_okD(5) [OF assms(2)]] assms(3) FromVersion
      by (simp add: load_version_manifest_def)
    then show ?thesis by simp
  qed
qed

lemma sys_ok_db:
  assumes ok: "sys_ok B F U (tk, s)" and db: "vfs_ok B (s\<lparr>fs_db := d\<rparr>)"
    and live: "(\<exists>p. exclusive (tk p)) \<Longrightarrow> live_hashes B d \<subseteq> live_hashes B (fs_db s)"
    and tg: "\<And>q i. target (tk q) = Some i \<Longrightarrow> no_dir d i"
  shows "sys_ok B F U (tk, s\<lparr>fs_db := d\<rparr>)"
proof (rule sys_okI)
  fix p
  have t: "task_ok B F U s (tk p)" using sys_okD(4) [OF ok] .
  show "task_ok B F U (s\<lparr>fs_db := d\<rparr>) (tk p)"
  proof (cases "tk p")
    case (Marked l)
    then have "live_hashes B d \<subseteq> live_hashes B (fs_db s)" by (intro live exI [of _ p]) simp
    then show ?thesis using t Marked by auto
  next
    case (Sweeping l hs)
    then have "live_hashes B d \<subseteq> live_hashes B (fs_db s)" by (intro live exI [of _ p]) simp
    then show ?thesis using t Sweeping by auto
  qed (use t tg [of p] in auto)
qed (use sys_okD(2,3) [OF ok] db in auto)

lemma no_dir_same_tree: "same_tree d d' \<Longrightarrow> no_dir d i \<Longrightarrow> no_dir d' i"
  unfolding no_dir_def using same_treeD by (metis same_tree_sym)

lemma target_shared: "target t = Some i \<Longrightarrow> shared t"
  by (cases t) simp_all

lemma target_no_dir: "sys_ok B F U (tk, s) \<Longrightarrow> target (tk q) = Some i \<Longrightarrow> no_dir (fs_db s) i"
  by (drule sys_okD(4) [of _ _ _ _ _ q]) (cases "tk q", auto)

lemma put_keeps:
  assumes B: "blake3_ok B" and ok: "sys_ok B F U (tk, s)" and run: "put B flt (fs_disk s) data = (k, r)"
    and U: "ran (blobs_of B k) \<subseteq> U"
  shows "sys_ok B F U (tk, s\<lparr>fs_disk := k\<rparr>)"
proof -
  have inv: "blake3_ok B \<and> disk_ok B (fs_disk s)" using B vfs_okD(2) [OF sys_okD(1) [OF ok]] by simp
  show ?thesis
    using sys_ok_more_blobs [OF ok _ bs.put_mono [OF inv run] U] bs.put_inv [OF inv run] by blast
qed

text \<open>A sweep step removes a blob that no version names.\<close>

lemma remove_keeps:
  assumes B: "blake3_ok B" and ok: "sys_ok B F U (tk, s)" and p: "tk p = Sweeping live (h # hs)"
    and h: "h \<notin> live" and run: "Blob_Store.remove B flt (fs_disk s) h = (k, r)"
  shows "sys_ok B F U (tk, s\<lparr>fs_disk := k\<rparr>)"
proof (rule sys_okI)
  note v = sys_okD(1) [OF ok]
  note rm = remove_cases(1,2) [OF B vfs_okD(2) [OF v] run]
  have live: "live_hashes B (fs_db s) \<subseteq> live" using sys_okD(4) [OF ok, of p] p by simp
  have "blobs_of B k x = blobs_of B (fs_disk s) x" if "x \<in> live_hashes B (fs_db s)" for x
    using rm(2) h live that by auto
  then have "readable B (fs_db s) k" by (rule readable_live [OF vfs_okD(3) [OF v]])
  then show "vfs_ok B (s\<lparr>fs_disk := k\<rparr>)" using vfs_okD(1) [OF v] rm(1) by (simp add: vfs_ok_def)
  show "ran (blobs_of B (fs_disk (s\<lparr>fs_disk := k\<rparr>))) \<subseteq> U"
    using rm(2) sys_okD(2) [OF ok] by (fastforce simp: ran_def split: if_splits)
  show "tk q' = Idle" if "exclusive (tk q)" "q' \<noteq> q" for q q' using sys_okD(3) [OF ok that] .
  show "task_ok B F U (s\<lparr>fs_disk := k\<rparr>) (tk q)" for q
    using sys_okD(3) [OF ok, of p q] p live by (cases "q = p") auto
qed

lemma record_keeps:
  assumes B: "blake3_ok B" and ok: "sys_ok B F U (tk, s)" and p: "tk p = Recording i m"
    and run: "set_file_content B sf now (fs_db s) i m = (d, res)"
  shows "sys_ok B F U (tk, s\<lparr>fs_db := d\<rparr>)"
proof (rule sys_ok_db [OF ok])
  have t: "no_dir (fs_db s) i" "manifest_content (blobs_of B (fs_disk s)) m \<noteq> None"
    using sys_okD(4) [OF ok, of p] p by simp_all
  show "vfs_ok B (s\<lparr>fs_db := d\<rparr>)"
    using set_content_vfs_ok [OF B sys_okD(1) [OF ok] t(2) _ run] t(1) by (simp add: no_dir_def)
  show "live_hashes B d \<subseteq> live_hashes B (fs_db s)" if ex: "\<exists>q. exclusive (tk q)"
  proof -
    obtain q where "exclusive (tk q)" using ex by blast
    then show ?thesis using sys_okD(3) [OF ok, of q p] p by (cases "p = q") auto
  qed
  show "no_dir d j" if "target (tk q) = Some j" for q j
    using no_dir_same_tree [OF same_tree_set_content [OF run] target_no_dir [OF ok that]] .
qed

lemma gc_step_keeps:
  assumes B: "blake3_ok B" and F: "fastcdc_ok F" and coll: "collision_free B U"
    and ok: "sys_ok B F U x" and step: "gc_step B F U l x y"
  shows "sys_ok B F U y"
  using step ok
proof cases
  case (gs_meta s d tk)
  have ok': "sys_ok B F U (tk, s)" using ok gs_meta(2) by simp
  show ?thesis
    unfolding gs_meta(3) using sys_ok_db [OF ok'] meta_op_vfs_ok [OF sys_okD(1) [OF ok'] gs_meta(4)] gs_meta(5) by blast
next
  case (gs_flush tk p s i cfg r)
  have "stored_so_far B F U (fs_disk s) (chunk_reader F r cfg) manifest_default"
    unfolding stored_so_far_def using gs_flush(7,8,9)
    by (intro exI [where x = r] exI [where x = cfg] exI [where x = "[]"]) simp
  then show ?thesis using gs_flush ok by (auto intro!: sys_ok_task)
next
  case (gs_put tk p i ck items m flt s k h)
  note k = vfs_okD(2) [OF sys_okD(1) [OF ok [unfolded gs_put(2)]]] sys_okD(2) [OF ok [unfolded gs_put(2)]]
  have st: "stored_so_far B F U (fs_disk s) (Inr ck # items) m" and nd: "no_dir (fs_db s) i"
    using sys_okD(4) [OF ok [unfolded gs_put(2)], of p] gs_put(4) by simp_all
  note new = put_stored_so_far [OF B coll k st gs_put(5)]
  have "sys_ok B F U (tk, s\<lparr>fs_disk := k\<rparr>)"
    using put_keeps [OF B ok [unfolded gs_put(2)] gs_put(5) new(2)] .
  then show ?thesis unfolding gs_put(3) using new(1) nd gs_put(4) by (intro sys_ok_task) auto
next
  case (gs_put_err tk p i ck items m flt s k e)
  have inv: "blake3_ok B \<and> disk_ok B (fs_disk s)"
    using B vfs_okD(2) [OF sys_okD(1) [OF ok [unfolded gs_put_err(2)]]] by simp
  have "sys_ok B F U (tk, s\<lparr>fs_disk := k\<rparr>)"
    using put_keeps [OF B ok [unfolded gs_put_err(2)] gs_put_err(5)] bs.put_err [OF inv gs_put_err(5)]
      sys_okD(2) [OF ok [unfolded gs_put_err(2)]] by simp
  then show ?thesis unfolding gs_put_err(3) by (intro sys_ok_task) auto
next
  case (gs_stored tk p i m s)
  have "no_dir (fs_db s) i \<and> stored_so_far B F U (fs_disk s) [] m"
    using sys_okD(4) [OF ok [unfolded gs_stored(2)], of p] gs_stored(4) by simp
  then show ?thesis using gs_stored ok stored_content [OF F] by (auto intro!: sys_ok_task)
next
  case (gs_load tk p i src sf s m)
  have "no_dir (fs_db s) i" using sys_okD(4) [OF ok [unfolded gs_load(2)], of p] gs_load(4) by simp
  then show ?thesis
    using gs_load ok load_source_readable [OF B sys_okD(1) [OF ok [unfolded gs_load(2)]] gs_load(5)]
    by (auto intro!: sys_ok_task)
next
  case (gs_record tk p i m sf now s d res)
  have "sys_ok B F U (tk, s\<lparr>fs_db := d\<rparr>)"
    by (rule record_keeps [OF B ok [unfolded gs_record(2)] gs_record(4,5)])
  then show ?thesis unfolding gs_record(3) by (intro sys_ok_task) auto
next
  case (gs_mark tk p sf s live)
  note v = sys_okD(1) [OF ok [unfolded gs_mark(2)]]
  have "live = live_hashes B (fs_db s)"
    using referenced_faulty [OF gs_mark(5)] referenced_live [OF B vfs_okD(5,8) [OF v]] by simp
  then show ?thesis using gs_mark ok by (auto intro!: sys_ok_task)
next
  case (gs_list tk p live flt sc s hs)
  then have "live_hashes B (fs_db s) \<subseteq> live"
    using sys_okD(4) [OF ok [unfolded gs_list(2)], of p] by simp
  then show ?thesis using gs_list ok by (auto intro!: sys_ok_task)
next
  case (gs_keep tk p live h hs s)
  then have "live_hashes B (fs_db s) \<subseteq> live"
    using sys_okD(4) [OF ok [unfolded gs_keep(2)], of p] by simp
  then show ?thesis using gs_keep ok by (auto intro!: sys_ok_task)
next
  case (gs_remove tk p live h hs flt s k res)
  have "live_hashes B (fs_db s) \<subseteq> live"
    using sys_okD(4) [OF ok [unfolded gs_remove(2)], of p] gs_remove(4) by simp
  moreover have "sys_ok B F U (tk, s\<lparr>fs_disk := k\<rparr>)"
    by (rule remove_keeps [OF B ok [unfolded gs_remove(2)] gs_remove(4-6)])
  ultimately show ?thesis unfolding gs_remove(3) using gs_remove(4) by (intro sys_ok_task) auto
qed (auto intro!: sys_ok_task simp: idle_iff)

lemma gc_run_ok:
  assumes B: "blake3_ok B" and F: "fastcdc_ok F" and coll: "collision_free B U"
  shows "gc_run B F U x \<Longrightarrow> sys_ok B F U x"
proof (induction rule: gc_run.induct)
  case (gr_start now t)
  have "blobs_of B [] h = None" for h by (simp add: blobs_of_def entry_at_def shard_of_def)
  then show ?case using vfs_ok_start [of B now t] by (intro sys_okI) (auto simp: ran_def)
next
  case (gr_step x l y)
  then show ?case using gc_step_keeps [OF B F coll] by blast
next
  case (gr_crash tk s L ups fs)
  note ok = sys_okD(1,2) [OF gr_crash(3)]
  note re = reopened [OF ok(1) gr_crash(2)]
  show ?case using re(3) ok(2) by (intro sys_okI) (auto simp: re(2))
qed

section \<open>Sections end\<close>

text \<open>The calls a section still has to make: its phase, and what is left in a loop.\<close>

fun work :: "task \<Rightarrow> nat \<times> nat" where
  "work Idle = (0, 0)"
| "work (Storing i items m) = (2, length items)"
| "work (Loading i src) = (2, 0)"
| "work (Recording i m) = (1, 0)"
| "work Collecting = (3, 0)"
| "work (Marked live) = (2, 0)"
| "work (Sweeping live hs) = (1, length hs)"

definition less_work :: "((nat \<times> nat) \<times> nat \<times> nat) set" where
  "less_work = less_than <*lex*> less_than"

inductive_cases own_stepE: "gc_step B F U (Some p) (tk, s) (tk', s')"

lemma own_step_work:
  assumes "gc_step B F U (Some p) (tk, s) (tk', s')" and "tk p \<noteq> Idle"
  shows "(work (tk' p), work (tk p)) \<in> less_work"
  using assms by (auto simp: less_work_def elim: own_stepE)

lemma step_others:
  assumes "gc_step B F U l (tk, s) (tk', s')" and "l \<noteq> Some q"
  shows "tk' q = tk q"
  using assms by cases auto

text \<open>Every call returns, so a section never blocks between taking its guard and releasing it.\<close>

lemma own_step_enabled:
  assumes "tk p \<noteq> Idle"
  shows "\<exists>y. gc_step B F U (Some p) (tk, s) y"
proof (cases "tk p")
  case (Storing i items m)
  show ?thesis
  proof (cases items)
    case Nil
    then show ?thesis using gs_stored [of tk p] Storing by blast
  next
    case (Cons item rest)
    show ?thesis
    proof (cases item)
      case (Inl e)
      then show ?thesis using gs_chunk_err [of tk p] Storing Cons by blast
    next
      case (Inr ck)
      obtain k r where "put B no_faults (fs_disk s) (ck_data ck) = (k, r)" by fastforce
      then show ?thesis
        using gs_put [of tk p i ck rest m B no_faults s] gs_put_err [of tk p i ck rest m B no_faults s] Storing Cons Inr
        by (cases r) blast+
    qed
  qed
next
  case (Loading i src)
  then show ?thesis using Loading gs_load [of tk p] gs_load_err [of tk p] by (cases "load_source B no_sql_faults (fs_db s) src") blast+
next
  case (Recording i m)
  obtain d r where "set_file_content B no_sql_faults 0 (fs_db s) i m = (d, r)" by fastforce
  then show ?thesis using Recording gs_record [of tk p] by blast
next
  case Collecting
  then show ?thesis using Collecting gs_mark [of tk p] gs_mark_err [of tk p] by (cases "referenced_chunk_hashes B no_sql_faults (fs_db s)") blast+
next
  case (Marked live)
  then show ?thesis using Marked gs_list [of tk p] gs_list_err [of tk p]
    by (cases "list_hashes B no_faults no_scan_faults (fs_disk s)") blast+
next
  case (Sweeping live hs)
  show ?thesis
  proof (cases hs)
    case Nil
    then show ?thesis using gs_done [of tk p] Sweeping by blast
  next
    case (Cons h rest)
    obtain k r where "Blob_Store.remove B no_faults (fs_disk s) h = (k, r)" by fastforce
    then show ?thesis using gs_keep [of tk p live h rest] gs_remove [of tk p live h rest] Sweeping Cons by (cases "h \<in> live") blast+
  qed
qed (use assms in simp)

lemma wf_less_work: "wf less_work"
  by (simp add: less_work_def wf_lex_prod)

lemma section_ends:
  "\<exists>tk' s'. (gc_step B F U (Some p))\<^sup>*\<^sup>* (tk, s) (tk', s') \<and> tk' p = Idle \<and> (\<forall>q. q \<noteq> p \<longrightarrow> tk' q = tk q)"
proof (induction "work (tk p)" arbitrary: tk s rule: wf_induct_rule [OF wf_less_work])
  case 1
  show ?case
  proof (cases "tk p = Idle")
    case True
    then show ?thesis by blast
  next
    case False
    then obtain tk1 s1 where step: "gc_step B F U (Some p) (tk, s) (tk1, s1)"
      using own_step_enabled by fastforce
    have "tk1 q = tk q" if "q \<noteq> p" for q using step_others [OF step] that by auto
    moreover obtain tk' s' where "(gc_step B F U (Some p))\<^sup>*\<^sup>* (tk1, s1) (tk', s')" "tk' p = Idle"
        "\<forall>q. q \<noteq> p \<longrightarrow> tk' q = tk1 q"
      using 1 own_step_work [OF step False] by blast
    ultimately show ?thesis using converse_rtranclp_into_rtranclp [of "gc_step B F U (Some p)", OF step] by metis
  qed
qed

end
