(* ===== verification/Gc_Properties.thy ===== *)
theory Gc_Properties
  imports Gc_Protocol Dav_Properties
begin

text \<open>
  The properties of the garbage collection protocol (\<open>Inner::gc_lock\<close>) under interleaving, and
  of the one window between two operations that it does not close.
\<close>

section \<open>Safety and progress\<close>


text \<open>A collection that has computed its live set, on an empty store.\<close>

definition sample_marked :: "sample_engine sys" where
  "sample_marked = ((\<lambda>_. Idle)(1 := Marked {}), \<lparr>fs_db = open_in_memory 0, fs_disk = [], fs_index = ([], [], [])\<rparr>)"

lemma sample_marked_run: "gc_run sample_blake3 sample_fastcdc {} sample_marked"
proof -
  let ?s = "\<lparr>fs_db = open_in_memory 0, fs_disk = [], fs_index = ([], [], [])\<rparr> :: sample_engine fs_state"
  let ?tk = "(\<lambda>_. Idle)(1 := Collecting)"
  have "gc_run sample_blake3 sample_fastcdc {} (?tk, ?s)"
    by (rule gr_step [OF gr_start gs_gc]) simp_all
  moreover have "referenced_chunk_hashes sample_blake3 no_sql_faults (fs_db ?s) = Inr {}"
    by (simp add: referenced_chunk_hashes_def open_in_memory_def migrate_def)
  ultimately have "gc_run sample_blake3 sample_fastcdc {} (?tk(1 := Marked {}), ?s)"
    using gr_step gs_mark [of ?tk 1] by (metis fun_upd_same)
  then show ?thesis by (simp add: sample_marked_def)
qed




section \<open>The window outside the guard\<close>

text \<open>
  C18. \<open>revert_to_version\<close> looks the version's id up before it takes the guard. When the version is
  pruned in between, the guarded part still succeeds: the manifest of a version that is gone
  reads as an empty one, not as an error, and the file's content is replaced by nothing.
\<close>

theorem revert_of_pruned_version_empties_file:
  assumes E: "env_ok B E" and q: "env_quiet E" and ok: "vfs_ok B s"
    and path: "path_to (fs_db s) i (segments path)" and r: "find_node (fs_db s) i = Some r" "n_is_dir r = 0"
    and w: "find_number (fs_db s) i (u64_as_i64 k) = Some w" and old: "n_current r \<noteq> Some (v_id w)"
  shows "version_by_number (e_sql E) (fs_db s) i k = Inr (row_to_version w) \<and> (\<exists>s1 s2.
      prune_version E s path k = (s1, Inr ())
    \<and> reference_under_guard E s1 i (\<lambda>d. load_version_manifest (e_b3 E) (e_sql E) d (version_id (row_to_version w))) = (s2, Inr ())
    \<and> file_bytes B s2 i = Some [])"
proof -
  note env = env_okD [OF E] and quiet = env_quietD [OF q]
  let ?d = "delete_version_rows (\<lambda>r. v_id r = v_id w) (fs_db s)"
  let ?ld = "\<lambda>d. load_version_manifest (e_b3 E) (e_sql E) d (version_id (row_to_version w))"
  have id: "n_id r = i" using find_node_Some [OF r(1)] by simp
  have "delete_version no_sql_faults (fs_db s) i k = (?d, Inr ())"
    using w r(1) old by (simp add: delete_version_def)
  then have prune: "prune_version E s path k = (s\<lparr>fs_db := ?d\<rparr>, Inr ())" (is "_ = (?s, _)")
    using path_lookups(2) [OF q ok path r] id by (simp add: prune_version_def quiet)
  have ok1: "vfs_ok B ?s" by (rule prune_vfs_ok [OF ok prune])
  have gone: "v_id w \<notin> version_ids ?d" by (auto simp: version_ids_def)
  have "?ld ?d = Inr manifest_default"
    using read_manifest_deleted(1) [OF vfs_okD(5) [OF ok1]] gone
    by (simp add: load_version_manifest_def quiet row_to_version_def)
  then obtain s2 where "reference_under_guard E ?s i ?ld = (s2, Inr ())" "file_bytes B s2 i = Some []"
    using reference_effect [OF E q ok1 _ r(2), of i ?ld manifest_default "[]"] r(1) by auto
  then show ?thesis using prune w by (simp add: version_by_number_def quiet)
qed

text \<open>The sample file with a second, empty version.\<close>

definition sample_two :: "sample_engine fs_state" where
  "sample_two = sample_vfs\<lparr>fs_db := \<lparr>nodes = [sample_node 1 None [] 1, sample_node 2 (Some 1) ''docs'' 1,
       (sample_node 3 (Some 2) ''a.md'' 0)\<lparr>n_size := 0, n_modified := 5, n_current := Some 2\<rparr>],
     versions = versions sample_db @ [\<lparr>v_id = 2, v_node = 3, v_number = 2, v_size = 0, v_created = 5\<rparr>],
     vchunks = vchunks sample_db\<rparr>\<rparr>"

lemma sample_two_set: "\<exists>t. set_file_content sample_blake3 no_sql_faults 5000000 sample_db 3 manifest_default = (fs_db sample_two, t)"
proof -
  have load: "read_manifest sample_blake3 no_sql_faults sample_db 1 = Inr sample_hello"
    by (rule read_manifest_encoded [OF sample_blake3_ok sample_manifests_wf(1)])
      (simp add: sample_db_def chunk_rows_def sample_hello_def)
  have ne: "sample_hello \<noteq> manifest_default" by (simp add: sample_hello_def manifest_default_def)
  show ?thesis
    by (simp add: set_file_content_def sample_lookups load ne append_version_def insert_version_row_def
        max_number_def Let_def sample_two_def sample_file_def)
      (simp add: update_node_def sample_db_def sample_simps manifest_default_def)
qed

lemma sample_two_ok: "vfs_ok sample_blake3 sample_two"
proof -
  obtain t where "set_file_content sample_blake3 no_sql_faults 5000000 (fs_db sample_vfs) 3 manifest_default = (fs_db sample_two, t)"
    using sample_two_set by auto
  from set_content_vfs_ok [OF sample_blake3_ok sample_vfs_ok _ _ this]
  have "vfs_ok sample_blake3 (sample_vfs\<lparr>fs_db := fs_db sample_two\<rparr>)"
    by (simp add: sample_lookups)
  then show ?thesis by (simp add: sample_two_def)
qed

lemma revert_of_pruned_version_empties_file_witness:
  "\<exists>s1 s2. prune_version sample_env sample_two ''/docs/a.md'' 1 = (s1, Inr ())
    \<and> reference_under_guard sample_env s1 3 (\<lambda>d. load_version_manifest sample_blake3 no_sql_faults d 1) = (s2, Inr ())
    \<and> file_bytes sample_blake3 s2 3 = Some []"
proof -
  let ?r = "(sample_node 3 (Some 2) ''a.md'' 0)\<lparr>n_size := 0, n_modified := 5, n_current := Some 2\<rparr>"
  let ?w = "hd (versions sample_db)"
  have r: "find_node (fs_db sample_two) 3 = Some ?r" "n_is_dir ?r = 0" by (simp_all add: sample_two_def sample_simps)
  have "same_tree sample_db (fs_db sample_two)" using sample_two_set same_tree_set_content by blast
  then have path: "path_to (fs_db sample_two) 3 (segments ''/docs/a.md'')"
    using path_to_same_tree sample_path(1) by (auto simp: sample_segments)
  have w: "find_number (fs_db sample_two) 3 (u64_as_i64 1) = Some ?w" "n_current ?r \<noteq> Some (v_id ?w)" "v_id ?w = 1"
    by (simp_all add: sample_two_def sample_db_def sample_simps)
  show ?thesis
    using revert_of_pruned_version_empties_file [OF sample_env_ok sample_env_quiet sample_two_ok path r w(1,2)] w(3)
    by (simp add: row_to_version_def)
qed

end
