(* ===== verification/Calendar.thy ===== *)
theory Calendar
  imports Meta_Store Rust_Str "HOL-Library.Signed_Division"
begin

text \<open>
  Times on the pages of \<open>crates/webdav-server/src/web.rs\<close>: \<open>civil_from_days\<close>, its agreement with
  the Gregorian calendar, and \<open>format_time\<close>. \<open>/\<close> on \<open>i64\<close> truncates, hence \<open>sdiv\<close>; the days of
  any \<open>SystemTime\<close> are far from where the \<open>i64\<close> operations could overflow.
\<close>

section \<open>The code\<close>

definition civil_from_days :: "i64 \<Rightarrow> i64 \<times> u32 \<times> u32" where
  "civil_from_days days =
     (let z = days + 719468;
          era = (if z \<ge> 0 then z else z - 146096) sdiv 146097;
          doe = z - era * 146097;
          yoe = (doe - doe sdiv 1460 + doe sdiv 36524 - doe sdiv 146096) sdiv 365;
          year = yoe + era * 400;
          doy = doe - (365 * yoe + yoe sdiv 4 - yoe sdiv 100);
          mp = (5 * doy + 2) sdiv 153;
          day = word_of_int (doy - (153 * mp + 2) sdiv 5 + 1);
          month = word_of_int (if mp < 10 then mp + 3 else mp - 9)
      in (if month \<le> 2 then year + 1 else year, month, day))"

definition format_time :: "system_time \<Rightarrow> bytes" where
  "format_time t =
     (let secs = (if 0 \<le> t then as_i64 (t div 1000000000) else 0);
          days = secs div 86400;
          tod = secs mod 86400;
          h = tod div 3600; m = (tod mod 3600) div 60; s = tod mod 60
      in case civil_from_days days of (year, month, day) \<Rightarrow>
        show_pad 4 year @ ''-'' @ show_pad 2 (uint month) @ ''-'' @ show_pad 2 (uint day) @ '' '' @
        show_pad 2 h @ '':'' @ show_pad 2 m @ '':'' @ show_pad 2 s @ '' UTC'')"

section \<open>The Gregorian calendar\<close>

definition leap_year :: "int \<Rightarrow> bool" where
  "leap_year y \<longleftrightarrow> y mod 4 = 0 \<and> (y mod 100 \<noteq> 0 \<or> y mod 400 = 0)"

definition days_in_month :: "int \<Rightarrow> int \<Rightarrow> int" where
  "days_in_month y m =
     (if m = 2 then if leap_year y then 29 else 28
      else if m \<in> {4, 6, 9, 11} then 30 else 31)"

fun next_day :: "int \<times> int \<times> int \<Rightarrow> int \<times> int \<times> int" where
  "next_day (y, m, d) =
     (if d < days_in_month y m then (y, m, d + 1)
      else if m < 12 then (y, m + 1, 1) else (y + 1, 1, 1))"

definition civil :: "int \<Rightarrow> int \<times> int \<times> int" where
  "civil n = (case civil_from_days n of (y, m, d) \<Rightarrow> (y, uint m, uint d))"

section \<open>Days of an era\<close>

text \<open>
  An era is 400 years beginning on the first of March; \<open>year_start y\<close> is the day of the era on
  which its year \<open>y\<close> begins.
\<close>

definition year_start :: "int \<Rightarrow> int" where
  "year_start y = 365 * y + y div 4 - y div 100"

definition year_of_era :: "int \<Rightarrow> int" where
  "year_of_era doe = (doe - doe div 1460 + doe div 36524 - doe div 146096) div 365"

definition month_day :: "int \<Rightarrow> int \<times> int" where
  "month_day doy =
     (let mp = (5 * doy + 2) div 153 in (if mp < 10 then mp + 3 else mp - 9, doy - (153 * mp + 2) div 5 + 1))"

lemma sdiv_nonneg: "0 \<le> a \<Longrightarrow> 0 < b \<Longrightarrow> a sdiv b = a div (b :: int)"
  by (simp add: signed_divide_int_def sgn_if)

lemma sdiv_era: "(if z \<ge> 0 then z else z - 146096) sdiv 146097 = z div (146097 :: int)"
proof (cases "0 \<le> z")
  case False
  then have "(z - 146096) sdiv 146097 = - ((146096 - z) div 146097)"
    by (simp add: signed_divide_int_def sgn_if)
  also have "(146096 - z) div 146097 = - (z div 146097)"
    by (rule int_div_pos_eq [where r = "146096 - z mod 146097"]) (simp_all add: minus_mult_div_eq_mod [symmetric])
  finally show ?thesis using False by simp
qed (simp add: sdiv_nonneg)

lemma div_step: "a \<le> b \<Longrightarrow> 0 < k \<Longrightarrow> b div k \<le> a div k + (b - a :: int)"
proof -
  assume "a \<le> b" "0 < k"
  then have "(b - a) * 1 \<le> (b - a) * k" by (intro mult_left_mono) simp_all
  then have "b \<le> a + (b - a) * k" by simp
  then have "b div k \<le> (a + (b - a) * k) div k" using \<open>0 < k\<close> by (rule zdiv_mono1)
  then show ?thesis using \<open>0 < k\<close> by simp
qed

text \<open>The year formula is monotone, so its values at both ends of each year decide it.\<close>

lemma year_of_era_mono:
  assumes "0 \<le> a" and "a \<le> b" and "b < 146097"
  shows "year_of_era a \<le> year_of_era b"
proof -
  let ?f = "\<lambda>x :: int. x - x div 1460 + x div 36524 - x div 146096"
  have "?f a \<le> ?f b"
  proof (cases "b = 146096 \<and> a < b")
    case True
    then show ?thesis using assms by (simp, linarith)
  next
    case False
    then have "a div 146096 = b div 146096" using assms by auto
    moreover have "b div 1460 \<le> a div 1460 + (b - a)" using assms(2) by (rule div_step) simp
    moreover have "a div 36524 \<le> b div 36524" using assms(2) by (rule zdiv_mono1) simp
    ultimately show ?thesis by linarith
  qed
  then show ?thesis unfolding year_of_era_def by (rule zdiv_mono1) simp
qed

lemma year_ends:
  "\<forall>y \<in> set [0..399]. year_of_era (year_start y) = y
     \<and> year_of_era (if y = 399 then 146096 else year_start (y + 1) - 1) = y"
  by code_simp

lemma year_lengths:
  "\<forall>y \<in> set [0..399]. (if y = 399 then 146097 else year_start (y + 1)) - year_start y = (if leap_year (y + 1) then 366 else 365)"
  by code_simp

definition month_step :: "int \<Rightarrow> bool" where
  "month_step doy =
     (case month_day doy of (m, d) \<Rightarrow> 1 \<le> m \<and> m \<le> 12 \<and> 1 \<le> d \<and> d \<le> 31 \<and> (m = 2 \<longrightarrow> d \<le> 28 \<and> (doy < 364 \<longleftrightarrow> d < 28)) \<and>
        month_day (doy + 1) =
          (if m = 2 then (2, d + 1)
           else if d < (if m \<in> {4, 6, 9, 11} then 30 else 31) then (m, d + 1)
           else if m = 12 then (1, 1) else (m + 1, 1)))"

lemma month_steps: "\<forall>doy \<in> set [0..364]. month_step doy"
  by code_simp

lemma month_ends: "month_day 0 = (3, 1)" "month_day 364 = (2, 28)" "month_day 365 = (2, 29)"
  by code_simp+

lemma in_upto: "(a \<le> x \<and> x \<le> b) = (x \<in> set [a..b])"
  by simp

text \<open>The year of a day of the era is the one it lies in.\<close>

lemma year_of_era_bounds:
  assumes "0 \<le> doe" and "doe < 146097"
  shows "0 \<le> year_of_era doe \<and> year_of_era doe \<le> 399"
proof -
  have "year_of_era 0 \<le> year_of_era doe" and "year_of_era doe \<le> year_of_era 146096"
    using assms by (auto intro: year_of_era_mono)
  then show ?thesis by (simp add: year_of_era_def)
qed

lemma year_start_bounds: "0 \<le> y \<Longrightarrow> y \<le> 399 \<Longrightarrow> 0 \<le> year_start y \<and> year_start y \<le> 145731"
proof -
  assume y: "0 \<le> y" "y \<le> 399"
  then have "0 \<le> y div 4" "y div 4 \<le> 99" "0 \<le> y div 100" "y div 100 \<le> 3" "y div 100 \<le> y div 4"
    by (auto intro: zdiv_mono2)
  moreover have "year_of_era (year_start y) = y" using year_ends y by simp
  ultimately show ?thesis using y unfolding year_start_def by linarith
qed

lemma year_of_era_in:
  assumes "0 \<le> doe" and "doe < 146097" and y: "y = year_of_era doe"
  shows "year_start y \<le> doe" and "doe < (if y = 399 then 146097 else year_start (y + 1))"
proof -
  have yb: "0 \<le> y" "y \<le> 399" using year_of_era_bounds [OF assms(1,2)] y by auto
  show "year_start y \<le> doe"
  proof (rule ccontr)
    assume "\<not> year_start y \<le> doe"
    then have less: "doe \<le> year_start y - 1" by simp
    then have "y \<noteq> 0" using assms(1) by (auto simp: year_start_def)
    then have "year_of_era (year_start (y - 1 + 1) - 1) = y - 1" using year_ends yb by (auto dest!: bspec [where x = "y - 1"])
    moreover have "year_of_era doe \<le> year_of_era (year_start y - 1)"
      using year_of_era_mono [OF assms(1) less] year_start_bounds [OF yb] by simp
    ultimately show False using y by simp
  qed
  show "doe < (if y = 399 then 146097 else year_start (y + 1))"
  proof (cases "y = 399")
    case False
    show ?thesis
    proof (rule ccontr)
      assume "\<not> ?thesis"
      then have ge: "year_start (y + 1) \<le> doe" using False by simp
      have b: "0 \<le> y + 1" "y + 1 \<le> 399" using yb False by auto
      then have "year_of_era (year_start (y + 1)) = y + 1" using year_ends by simp
      moreover have "year_of_era (year_start (y + 1)) \<le> year_of_era doe"
        using year_of_era_mono [OF _ ge assms(2)] year_start_bounds [OF b] by simp
      ultimately show False using y by simp
    qed
  qed (use assms(2) in simp)
qed

lemma year_of_era_unique:
  assumes "0 \<le> y" and "y \<le> 399" and "year_start y \<le> doe" and "doe < (if y = 399 then 146097 else year_start (y + 1))"
  shows "year_of_era doe = y"
proof -
  let ?e = "if y = 399 then 146096 else year_start (y + 1) - 1"
  have ends: "year_of_era (year_start y) = y" "year_of_era ?e = y" using year_ends assms(1,2) by auto
  have s: "0 \<le> year_start y" using year_start_bounds [OF assms(1,2)] by simp
  have e: "doe \<le> ?e" "?e < 146097"
    using assms year_start_bounds [of "y + 1"] by (auto split: if_splits)
  have "year_of_era (year_start y) \<le> year_of_era doe" using year_of_era_mono [OF s assms(3)] e by linarith
  moreover have "year_of_era doe \<le> year_of_era ?e" using year_of_era_mono [OF _ e] s assms(3) by linarith
  ultimately show ?thesis using ends by linarith
qed

section \<open>The date of a day\<close>

definition civil_of :: "int \<Rightarrow> int \<Rightarrow> int \<Rightarrow> int \<times> int \<times> int" where
  "civil_of era y doy =
     (case month_day doy of (m, d) \<Rightarrow> (if m \<le> 2 then y + era * 400 + 1 else y + era * 400, m, d))"

lemma doy_bounds:
  assumes "0 \<le> doe" and "doe < 146097" and "y = year_of_era doe"
  shows "0 \<le> doe - year_start y" and "doe - year_start y < (if leap_year (y + 1) then 366 else 365)"
proof -
  have y: "0 \<le> y" "y \<le> 399" using year_of_era_bounds [OF assms(1,2)] assms(3) by auto
  have "(if y = 399 then 146097 else year_start (y + 1)) - year_start y = (if leap_year (y + 1) then 366 else 365)"
    using year_lengths y by simp
  then show "0 \<le> doe - year_start y" and "doe - year_start y < (if leap_year (y + 1) then 366 else 365)"
    using year_of_era_in [OF assms] by linarith+
qed

lemma month_day_bounds:
  assumes "0 \<le> doy" and "doy < 366"
  shows "1 \<le> fst (month_day doy) \<and> fst (month_day doy) \<le> 12 \<and> 1 \<le> snd (month_day doy) \<and> snd (month_day doy) \<le> 31"
proof (cases "doy = 365")
  case False
  then have "month_step doy" using assms month_steps by simp
  then show ?thesis by (simp add: month_step_def split: prod.splits)
qed (simp add: month_ends)

lemma uint_u32: "0 \<le> x \<Longrightarrow> x < 2 ^ 32 \<Longrightarrow> uint (word_of_int x :: u32) = x"
  by (simp add: uint_word_of_int)

lemma civil_eq:
  assumes z: "n + 719468 = era * 146097 + doe" "0 \<le> doe" "doe < 146097"
  shows "civil n = civil_of era (year_of_era doe) (doe - year_start (year_of_era doe))"
proof -
  define y where "y = year_of_era doe"
  define doy where "doy = doe - year_start y"
  have y: "0 \<le> y" "y \<le> 399" using year_of_era_bounds [OF z(2,3)] by (auto simp: y_def)
  have doy: "0 \<le> doy" "doy < 366"
    using doy_bounds [OF z(2,3) y_def] by (auto simp: doy_def split: if_splits)
  have era: "(n + 719468) div 146097 = era" using z by (intro int_div_pos_eq) simp_all
  obtain m d where md: "month_day doy = (m, d)" by fastforce
  have b: "1 \<le> m" "m \<le> 12" "1 \<le> d" "d \<le> 31" using month_day_bounds [OF doy] md by simp_all
  have mp: "m = (let mp = (5 * doy + 2) div 153 in if mp < 10 then mp + 3 else mp - 9)"
    and dd: "d = doy - (153 * ((5 * doy + 2) div 153) + 2) div 5 + 1"
    using md by (simp_all add: month_day_def Let_def)
  have q: "0 \<le> doe div 1460" "doe div 1460 \<le> doe" "0 \<le> doe div 36524" "doe div 146096 \<le> doe div 36524"
    using z(2) div_step [of 0 doe 1460] by (auto intro: zdiv_mono2)
  have yoe: "(doe - doe sdiv 1460 + doe sdiv 36524 - doe sdiv 146096) sdiv 365 = y"
    using q z(2) by (simp add: sdiv_nonneg y_def year_of_era_def)
  have day_of_year: "doe - (365 * y + y sdiv 4 - y sdiv 100) = doy"
    using y by (simp add: sdiv_nonneg doy_def year_start_def)
  have mpn: "0 \<le> (5 * doy + 2) div 153" using doy by simp
  have "uint (word_of_int m :: u32) = m" "uint (word_of_int d :: u32) = d"
    using b by (simp_all add: uint_u32)
  moreover have "(word_of_int m :: u32) \<le> 2 \<longleftrightarrow> m \<le> 2"
    using b by (simp add: word_le_def uint_u32)
  moreover have "civil_from_days n =
      (if (word_of_int m :: u32) \<le> 2 then y + era * 400 + 1 else y + era * 400, word_of_int m, word_of_int d)"
  proof -
    have doe: "n + 719468 - era * 146097 = doe" using z(1) by simp
    have s1: "(5 * doy + 2) sdiv 153 = (5 * doy + 2) div 153" using doy by (simp add: sdiv_nonneg)
    have s2: "(153 * ((5 * doy + 2) div 153) + 2) sdiv 5 = (153 * ((5 * doy + 2) div 153) + 2) div 5"
      using mpn by (simp add: sdiv_nonneg)
    show ?thesis
      unfolding civil_from_days_def Let_def sdiv_era era doe yoe day_of_year s1 s2
        mp [unfolded Let_def, symmetric] dd [symmetric] by (rule refl)
  qed
  ultimately show ?thesis
    by (simp add: civil_def civil_of_def md y_def [symmetric] doy_def [symmetric])
qed

lemma leap_year_era: "leap_year (y + era * 400) = leap_year y"
proof -
  have "(y + era * 400) mod 4 = y mod 4" "(y + era * 400) mod 100 = y mod 100" "(y + era * 400) mod 400 = y mod 400"
    using mod_mult_self1 [of y "era * 100" 4] mod_mult_self1 [of y "era * 4" 100] mod_mult_self1 [of y era 400]
    by (simp_all add: mult.assoc)
  then show ?thesis by (simp add: leap_year_def)
qed

lemma civil_of_step:
  assumes "0 \<le> doy" and "doy + 1 < (if leap_year (y + 1) then 366 else 365)"
  shows "civil_of era y (doy + 1) = next_day (civil_of era y doy)"
proof -
  have "doy \<le> 364" using assms(2) by (auto split: if_splits)
  then have step: "month_step doy" using month_steps assms(1) by simp
  obtain m d where md: "month_day doy = (m, d)" by fastforce
  have leap: "leap_year (y + era * 400 + 1) = leap_year (y + 1)" using leap_year_era [of "y + 1" era] by (simp add: algebra_simps)
  have "d < 28 \<or> leap_year (y + 1)" if "m = 2"
    using step md that assms(2) by (auto simp: month_step_def split: if_splits)
  then show ?thesis
    using step md leap by (auto simp: month_step_def civil_of_def days_in_month_def)
qed

lemma civil_of_year_end:
  assumes "doy + 1 = (if leap_year (y + 1) then 366 else 365)"
  shows "next_day (civil_of era y doy) = (y + era * 400 + 1, 3, 1)"
proof -
  have leap: "leap_year (y + era * 400 + 1) = leap_year (y + 1)" using leap_year_era [of "y + 1" era] by (simp add: algebra_simps)
  have "doy = (if leap_year (y + 1) then 365 else 364)" using assms by auto
  then show ?thesis using leap by (auto simp: civil_of_def month_ends days_in_month_def)
qed

lemma civil_next: "civil (n + 1) = next_day (civil n)"
proof -
  define era where "era = (n + 719468) div 146097"
  define doe where "doe = (n + 719468) mod 146097"
  have z: "n + 719468 = era * 146097 + doe" "0 \<le> doe" "doe < 146097" by (simp_all add: era_def doe_def)
  define y where "y = year_of_era doe"
  have y: "0 \<le> y" "y \<le> 399" using year_of_era_bounds [OF z(2,3)] by (auto simp: y_def)
  let ?doy = "doe - year_start y" and ?len = "if leap_year (y + 1) then 366 else 365 :: int"
  have now: "civil n = civil_of era y ?doy" using civil_eq [OF z] by (simp add: y_def)
  have doy: "0 \<le> ?doy" "?doy < ?len" using doy_bounds [OF z(2,3) y_def] by auto
  have "(if y = 399 then 146097 else year_start (y + 1)) - year_start y = ?len"
    by (rule bspec [OF year_lengths]) (use y in simp)
  then have len: "(if y = 399 then 146097 else year_start (y + 1)) = year_start y + ?len" by linarith
  have in_year: "year_start y \<le> doe" "doe < (if y = 399 then 146097 else year_start (y + 1))"
    using year_of_era_in [OF z(2,3) y_def] by auto
  consider "?doy + 1 < ?len" | "?doy + 1 = ?len" "y \<noteq> 399" | "?doy + 1 = ?len" "y = 399" using doy by linarith
  then show ?thesis
  proof cases
    case 1
    then have lt: "doe + 1 < (if y = 399 then 146097 else year_start (y + 1))" using len by linarith
    have ub: "doe + 1 < 146097" using lt year_start_bounds [of "y + 1"] y by (auto split: if_splits)
    have "year_of_era (doe + 1) = y" using year_of_era_unique [OF y _ lt] in_year(1) by linarith
    then have "civil (n + 1) = civil_of era y (?doy + 1)"
      using civil_eq [of "n + 1" era "doe + 1"] z ub by (simp add: algebra_simps)
    then show ?thesis using civil_of_step [OF doy(1) 1] now by simp
  next
    case 2
    then have at: "doe + 1 = year_start (y + 1)" using len by simp
    have y1: "0 \<le> y + 1" "y + 1 \<le> 399" using y 2(2) by auto
    have "year_of_era (doe + 1) = y + 1" using year_ends y1 at by simp
    moreover have "doe + 1 < 146097" using at year_start_bounds [OF y1] by simp
    ultimately have "civil (n + 1) = civil_of era (y + 1) 0"
      using civil_eq [of "n + 1" era "doe + 1"] z at by simp
    then show ?thesis using civil_of_year_end [OF 2(1), of era] now by (simp add: civil_of_def month_ends)
  next
    case 3
    then have "doe + 1 = 146097" using len by simp
    then have "n + 1 + 719468 = (era + 1) * 146097 + 0" using z(1) by simp
    from civil_eq [OF this] have "civil (n + 1) = civil_of (era + 1) 0 0"
      by (simp add: year_of_era_def year_start_def)
    then show ?thesis using civil_of_year_end [OF 3(1), of era] now 3(2) by (simp add: civil_of_def month_ends)
  qed
qed

lemma civil_epoch: "civil 0 = (1970, 1, 1)"
  by code_simp

end
