(* ===== verification/Web.thy ===== *)
theory Web
  imports Dav_Fs Calendar
begin

text \<open>
  \<open>crates/webdav-server/src/web.rs\<close>: the pages of the browser interface, as strings. A \<open>String\<close> is
  its UTF-8 bytes. The \<open>percent-encoding\<close> and \<open>pulldown-cmark\<close> crates are parameters.
\<close>

section \<open>The crates\<close>

record web_lib =
  non_alphanumeric :: "byte \<Rightarrow> bool"
  utf8_percent_encode :: "(byte \<Rightarrow> bool) \<Rightarrow> bytes \<Rightarrow> bytes"
  percent_decode :: "bytes \<Rightarrow> bytes"
  markdown :: "bytes \<Rightarrow> bytes"

text \<open>
  What their documentation says of percent encoding: \<open>NON_ALPHANUMERIC\<close> is every ASCII character that
  is not a letter or a digit; encoding writes each byte of the set, and each that is not ASCII, as
  \<open>%\<close> and two upper-case hexadecimal digits; decoding replaces each \<open>%\<close> followed by two
  hexadecimal digits and keeps the rest.
\<close>

definition is_alnum :: "byte \<Rightarrow> bool" where
  "is_alnum c \<longleftrightarrow> byte_in 48 57 c \<or> byte_in 65 90 c \<or> byte_in 97 122 c"

definition hex_upper :: "nat \<Rightarrow> byte" where
  "hex_upper n = char_of (if n < 10 then 48 + n else 55 + n)"

definition hex_digit_val :: "byte \<Rightarrow> nat option" where
  "hex_digit_val c =
     (if byte_in 48 57 c then Some (byte_val c - 48)
      else if byte_in 65 70 c then Some (byte_val c - 55)
      else if byte_in 97 102 c then Some (byte_val c - 87) else None)"

definition encode_byte :: "byte \<Rightarrow> bytes" where
  "encode_byte c = [CHR ''%'', hex_upper (byte_val c div 16), hex_upper (byte_val c mod 16)]"

definition percent_encoded :: "(byte \<Rightarrow> bool) \<Rightarrow> bytes \<Rightarrow> bytes" where
  "percent_encoded S xs = concat (map (\<lambda>c. if byte_in 128 255 c \<or> S c then encode_byte c else [c]) xs)"

fun percent_decoded :: "bytes \<Rightarrow> bytes" where
  "percent_decoded (c # a # b # xs) =
     (if c = CHR ''%'' then
        (case (hex_digit_val a, hex_digit_val b) of
           (Some h, Some l) \<Rightarrow> char_of (16 * h + l) # percent_decoded xs
         | _ \<Rightarrow> c # percent_decoded (a # b # xs))
      else c # percent_decoded (a # b # xs))"
| "percent_decoded xs = xs"

definition web_lib_ok :: "web_lib \<Rightarrow> bool" where
  "web_lib_ok W \<longleftrightarrow>
     (\<forall>c. non_alphanumeric W c \<longleftrightarrow> byte_in 0 127 c \<and> \<not> is_alnum c)
     \<and> (\<forall>S xs. utf8_percent_encode W S xs = percent_encoded S xs)
     \<and> (\<forall>xs. percent_decode W xs = percent_decoded xs)"

section \<open>Encoding names\<close>

text \<open>The characters of a path segment that are percent-encoded.\<close>

definition SEGMENT :: "web_lib \<Rightarrow> byte \<Rightarrow> bool" where
  "SEGMENT W c \<longleftrightarrow> non_alphanumeric W c \<and> c \<notin> set ''-_.~''"

definition encode_segment :: "web_lib \<Rightarrow> bytes \<Rightarrow> bytes" where
  "encode_segment W name = utf8_percent_encode W (SEGMENT W) name"

definition escape_char :: "byte \<Rightarrow> bytes" where
  "escape_char c =
     (if c = CHR ''&'' then ''&amp;''
      else if c = CHR ''<'' then ''&lt;''
      else if c = CHR ''>'' then ''&gt;''
      else if c = CHR 0x22 then ''&quot;''
      else if c = CHR 0x27 then ''&#39;''
      else [c])"

definition escape_html :: "bytes \<Rightarrow> bytes" where
  "escape_html s = concat (map escape_char s)"

definition dir_href :: "web_lib \<Rightarrow> bytes list \<Rightarrow> bytes" where
  "dir_href W segs =
     (let href = concat (map (\<lambda>seg. ''/'' @ encode_segment W seg) segs)
      in if href = [] then ''/'' else href)"

definition file_href :: "web_lib \<Rightarrow> bytes list \<Rightarrow> bytes \<Rightarrow> bytes" where
  "file_href W dir_segments name =
     (let base = dir_href W dir_segments
      in if ends_with ''/'' base then base @ encode_segment W name else base @ ''/'' @ encode_segment W name)"

definition path_href :: "web_lib \<Rightarrow> bytes \<Rightarrow> bytes" where
  "path_href W path = dir_href W (filter (\<lambda>s. s \<noteq> []) (split_on CHR ''/'' path))"

section \<open>Sizes\<close>

text \<open>
  \<open>bytes as f64\<close>: the nearest number of 53 significant bits, ties to even. Dividing by 1024 is exact,
  so the \<open>f64\<close> \<open>size\<close> of the loop is \<open>m / 1024 ^ unit\<close>; \<open>{:.1}\<close> rounds its exact value, ties to even.
\<close>

fun bit_length :: "nat \<Rightarrow> nat" where
  "bit_length n = (if n = 0 then 0 else Suc (bit_length (n div 2)))"

definition round_half_even :: "nat \<Rightarrow> nat \<Rightarrow> nat" where
  "round_half_even n d =
     (let q = n div d; r = n mod d in if 2 * r > d \<or> 2 * r = d \<and> odd q then q + 1 else q)"

definition f64_of_u64 :: "u64 \<Rightarrow> nat" where
  "f64_of_u64 b =
     (let n = unat b; k = bit_length n - 53 in round_half_even n (2 ^ k) * 2 ^ k)"

function size_unit :: "nat \<Rightarrow> nat \<Rightarrow> nat" where
  "size_unit m unit =
     (if 4 \<le> unit then unit
      else if 1024 ^ (unit + 1) \<le> m then size_unit m (unit + 1) else unit)"
  by pat_completeness auto
termination by (relation "measure (\<lambda>(m, unit). 4 - unit)") auto

declare bit_length.simps [simp del] size_unit.simps [simp del]

definition UNITS :: "bytes list" where
  "UNITS = [''B'', ''KiB'', ''MiB'', ''GiB'', ''TiB'']"

definition format_size :: "u64 \<Rightarrow> bytes" where
  "format_size b =
     (if b < 1024 then show_nat (unat b) @ '' B''
      else let m = f64_of_u64 b; unit = size_unit m 0; tenths = round_half_even (10 * m) (1024 ^ unit)
        in show_nat (tenths div 10) @ ''.'' @ show_nat (tenths mod 10) @ '' '' @ UNITS ! unit)"

section \<open>Kinds of files\<close>

datatype file_kind = Markdown | Text | Image | Video | Audio | Pdf | Other

definition reads_text :: "file_kind \<Rightarrow> bool" where
  "reads_text k \<longleftrightarrow> k = Markdown \<or> k = Text"

definition code_extensions :: "bytes list" where
  "code_extensions =
     [''txt'', ''text'', ''log'', ''json'', ''jsonc'', ''csv'', ''tsv'', ''toml'', ''yaml'', ''yml'',
      ''xml'', ''ini'', ''conf'', ''cfg'', ''env'', ''properties'', ''diff'', ''patch'', ''rs'',
      ''py'', ''js'', ''mjs'', ''cjs'', ''ts'', ''tsx'', ''jsx'', ''c'', ''h'', ''cpp'', ''cc'', ''hpp'',
      ''go'', ''java'', ''rb'', ''sh'', ''bash'', ''zsh'', ''sql'', ''css'', ''scss'', ''lua'', ''pl'',
      ''php'', ''kt'', ''swift'', ''r'', ''jl'', ''hs'', ''ml'', ''ex'', ''exs'']"

definition kind_of_name :: "bytes \<Rightarrow> file_kind" where
  "kind_of_name name =
     (let ext = to_ascii_lowercase (after_last CHR ''.'' name)
      in if ext \<in> {''md'', ''markdown''} then Markdown
         else if ext \<in> {''png'', ''jpg'', ''jpeg'', ''gif'', ''webp'', ''avif'', ''bmp'', ''ico''} then Image
         else if ext \<in> {''mp4'', ''webm'', ''mov'', ''mkv'', ''ogv''} then Video
         else if ext \<in> {''mp3'', ''wav'', ''ogg'', ''flac'', ''m4a'', ''aac''} then Audio
         else if ext = ''pdf'' then Pdf
         else if ext \<in> set code_extensions then Text
         else Other)"

section \<open>Style sheets\<close>

definition CUSTOM_CSS :: bytes where \<open>
  CUSTOM_CSS =
     ''html,body{height:100%}'' @
     ''.app{display:flex;height:100vh}'' @
     ''.app-sidebar{width:20rem;min-width:15rem;max-width:24rem;overflow:auto;'' @
     ''padding:1rem 1rem 2rem;border-right:1px solid var(--bulma-border);'' @
     ''background:var(--bulma-scheme-main-bis)}'' @
     ''.app-main{flex:1;overflow:auto;padding:1.5rem 2rem;background:var(--bulma-scheme-main)}'' @
     ''.app-sidebar .breadcrumb{margin-bottom:1rem}'' @
     ''.app-sidebar .menu-label{margin-top:1rem}'' @
     ''.app-main .actions form{display:inline;margin-left:.35rem}'' @
     ''.app-main .search-results li{margin-bottom:.9rem}'' @
     ''.app-main .search-results .snippet{margin-top:.15rem}'' @
     ''.app-main figure.image img{max-width:100%;height:auto}'' @
     ''@media(max-width:768px){.app{flex-direction:column;height:auto}'' @
     ''.app-sidebar{width:auto;max-width:none;border-right:none;'' @
     ''border-bottom:1px solid var(--bulma-border)}}''\<close>

definition PRINT_CSS :: bytes where \<open>
  PRINT_CSS =
     ''body{max-width:44rem;margin:0 auto;padding:1.5rem 2rem 4rem}'' @
     ''@media print{.no-print{display:none}}''\<close>

section \<open>The page and its sidebar\<close>

definition html_start :: bytes where \<open>
  html_start =
     ''<!doctype html>'' @ [CHR 0x0A] @
     ''<html lang="en"><head><meta charset="utf-8">'' @
     ''<meta name="viewport" content="width=device-width, initial-scale=1">''\<close>

definition page :: "bytes \<Rightarrow> bytes \<Rightarrow> bytes \<Rightarrow> bytes" where \<open>
  page title sidebar main =
     html_start @
     ''<title>'' @ escape_html title @ ''</title>'' @
     ''<link rel="stylesheet" href="/_assets/bulma.css">'' @
     ''<style>'' @ CUSTOM_CSS @ ''</style></head>'' @
     ''<body><div class="app">'' @
     ''<aside class="app-sidebar">'' @ sidebar @ ''</aside>'' @
     ''<main class="app-main">'' @ main @ ''</main>'' @
     ''</div></body></html>''\<close>

definition search_box :: bytes where \<open>
  search_box =
     ''<form class="field mb-4" action="/" method="get" role="search">'' @
     ''<div class="control">'' @
     ''<input class="input is-small" type="search" name="q" '' @
     ''placeholder="Search'' @ [CHR 0xE2, CHR 0x80, CHR 0xA6] @ ''" aria-label="Search">'' @
     ''</div></form>''\<close>

definition breadcrumb :: "web_lib \<Rightarrow> bytes list \<Rightarrow> bytes" where \<open>
  breadcrumb W segs =
     (let item = (\<lambda>i.
            let href = dir_href W (take (Suc i) segs) @ ''/'';
                label = escape_html (segs ! i);
                active = (if i + 1 = length segs then '' class="is-active"'' else [])
            in ''<li'' @ active @ ''><a href="'' @ href @ ''">'' @ label @ ''</a></li>'')
      in ''<nav class="breadcrumb is-small"><ul>'' @
         ''<li><a href="/">home</a></li>'' @ concat (map item [0..<length segs]) @ ''</ul></nav>'')\<close>

definition folder_item :: "web_lib \<Rightarrow> bytes list \<Rightarrow> dir_entry_info \<Rightarrow> bytes" where \<open>
  folder_item W dir_segments e =
     ''<li><a href="'' @ file_href W dir_segments (di_name e) @ ''/">'' @ escape_html (di_name e) @ ''/</a></li>''\<close>

definition file_item :: "web_lib \<Rightarrow> bytes list \<Rightarrow> bytes option \<Rightarrow> dir_entry_info \<Rightarrow> bytes" where \<open>
  file_item W dir_segments current_file e =
     ''<li><a'' @ (if current_file = Some (di_name e) then '' class="is-active"'' else []) @
     '' href="'' @ file_href W dir_segments (di_name e) @ ''">'' @ escape_html (di_name e) @ ''</a></li>''\<close>

definition sidebar :: "web_lib \<Rightarrow> bytes list \<Rightarrow> dir_entry_info list \<Rightarrow> bytes option \<Rightarrow> bytes" where \<open>
  sidebar W dir_segments entries current_file =
     (let folders = concat (map (folder_item W dir_segments) (filter di_is_dir entries));
          files = concat (map (file_item W dir_segments current_file) (filter (\<lambda>e. \<not> di_is_dir e) entries))
      in search_box @ breadcrumb W dir_segments @ ''<div class="menu">'' @
         (if folders \<noteq> [] then ''<p class="menu-label">Folders</p><ul class="menu-list">'' @ folders @ ''</ul>'' else []) @
         (if files \<noteq> [] then ''<p class="menu-label">Files</p><ul class="menu-list">'' @ files @ ''</ul>'' else []) @
         (if folders = [] \<and> files = [] then ''<p class="menu-label">empty</p>'' else []) @
         ''</div>'')\<close>

section \<open>The main panes\<close>

text \<open>The snippet is HTML already.\<close>

definition search_item :: "web_lib \<Rightarrow> search_result \<Rightarrow> bytes" where \<open>
  search_item W r =
     ''<li><a href="'' @ path_href W (sr_path r) @ ''">'' @ escape_html (sr_path r) @ ''</a>'' @
     ''<p class="snippet is-size-7 has-text-grey">'' @ (case sr_snippet r of Some s \<Rightarrow> s | None \<Rightarrow> []) @ ''</p></li>''\<close>

definition search_main :: "web_lib \<Rightarrow> bytes \<Rightarrow> search_result list \<Rightarrow> bytes" where \<open>
  search_main W query results =
     (let body = (if results = [] then ''<p class="notification">No matches.</p>''
                  else ''<ul class="search-results">'' @ concat (map (search_item W) results) @ ''</ul>'')
      in ''<h1 class="title is-5">Search results for '' @ [CHR 0xE2, CHR 0x80, CHR 0x9C] @ escape_html query @
         [CHR 0xE2, CHR 0x80, CHR 0x9D] @ ''</h1>'' @
         ''<p class="subtitle is-6">'' @ show_nat (length results) @ '' match'' @
         (if length results = 1 then [] else ''es'') @ ''</p>'' @
         ''<div class="content">'' @ body @ ''</div>'')\<close>

definition dir_row :: "web_lib \<Rightarrow> bytes list \<Rightarrow> dir_entry_info \<Rightarrow> bytes" where \<open>
  dir_row W dir_segments e =
     (let name = escape_html (di_name e); modified = escape_html (format_time (di_modified e));
          href = file_href W dir_segments (di_name e)
      in if di_is_dir e then
           ''<tr><td><a href="'' @ href @ ''/">'' @ name @ ''/</a></td><td></td><td>'' @ modified @ ''</td><td></td></tr>''
         else
           ''<tr><td><a href="'' @ href @ ''">'' @ name @ ''</a></td><td>'' @ format_size (di_size e) @ ''</td><td>'' @
           modified @ ''</td>'' @ ''<td><a href="'' @ href @ ''?versions">history</a></td></tr>'')\<close>

definition dir_main :: "web_lib \<Rightarrow> bytes \<Rightarrow> bytes option \<Rightarrow> bytes list \<Rightarrow> dir_entry_info list \<Rightarrow> bytes" where \<open>
  dir_main W display_path readme_html dir_segments entries =
     (case readme_html of
        Some html \<Rightarrow> ''<div class="content">'' @ html @ ''</div>''
      | None \<Rightarrow>
          ''<h1 class="title is-5">Index of '' @ escape_html display_path @ ''</h1>'' @
          ''<table class="table is-fullwidth is-hoverable"><thead><tr>'' @
          ''<th>Name</th><th>Size</th><th>Modified</th><th></th></tr></thead><tbody>'' @
          concat (map (dir_row W dir_segments) entries) @ ''</tbody></table>'')\<close>

definition file_header :: "bytes \<Rightarrow> bool \<Rightarrow> bytes" where \<open>
  file_header name printable =
     ''<div class="level"><div class="level-left">'' @
     ''<h1 class="title is-5">'' @ escape_html name @ ''</h1></div>'' @
     ''<div class="level-right buttons">'' @
     (if printable then ''<a class="button is-small" href="?print">Print</a>'' else []) @
     ''<a class="button is-small" href="?raw" download>Download</a>'' @
     ''<a class="button is-small" href="?versions">History</a></div></div>''\<close>

definition no_preview :: bytes where \<open>
  no_preview =
     ''<p class="notification">No inline preview for this file '' @ [CHR 0xE2, CHR 0x80, CHR 0x94] @
     '' use Download above.</p>''\<close>

text \<open>For Markdown, \<open>text\<close> is the rendered HTML; for a text file, its content.\<close>

definition text_body :: "file_kind \<Rightarrow> bytes option \<Rightarrow> bytes" where \<open>
  text_body kind text =
     (case text of
        None \<Rightarrow> no_preview
      | Some t \<Rightarrow> if kind = Markdown then ''<div class="content">'' @ t @ ''</div>''
                 else ''<pre>'' @ escape_html t @ ''</pre>'')\<close>

definition file_main :: "bytes \<Rightarrow> file_kind \<Rightarrow> bytes option \<Rightarrow> bytes" where \<open>
  file_main name kind text =
     file_header name (reads_text kind) @
     (case kind of
        Markdown \<Rightarrow> text_body kind text
      | Text \<Rightarrow> text_body kind text
      | Image \<Rightarrow> ''<figure class="image"><img src="?raw" alt=""></figure>''
      | Video \<Rightarrow> ''<video controls style="max-width:100%"><source src="?raw"></video>''
      | Audio \<Rightarrow> ''<audio controls src="?raw" style="width:100%"></audio>''
      | Pdf \<Rightarrow> ''<iframe src="?raw" title="PDF" style="width:100%;height:82vh;border:0"></iframe>''
      | Other \<Rightarrow> no_preview)\<close>

definition print_page :: "bytes \<Rightarrow> file_kind \<Rightarrow> bytes option \<Rightarrow> bytes" where \<open>
  print_page name kind text =
     html_start @
     ''<title>'' @ escape_html name @ ''</title>'' @
     ''<link rel="stylesheet" href="/_assets/bulma.css">'' @
     ''<style>'' @ PRINT_CSS @ ''</style></head>'' @
     ''<body><div class="print-page">'' @
     ''<div class="level no-print"><div class="level-left"></div>'' @
     ''<div class="level-right">'' @
     ''<button class="button is-small" onclick="window.print()">Print</button>'' @
     ''</div></div>'' @
     ''<h1 class="title is-4">'' @ escape_html name @ ''</h1>'' @
     (if reads_text kind then text_body kind text else no_preview) @
     ''</div></body></html>''\<close>

section \<open>The version page\<close>

definition version_actions :: "version_info \<Rightarrow> bytes" where \<open>
  version_actions v =
     (let n = show_nat (unat (vi_number v))
      in ''<a class="button is-small" href="?version='' @ n @ ''">view</a>'' @
         (if vi_is_current v then []
          else '' <form method="post" action="?revert='' @ n @ ''">'' @
               ''<button class="button is-small">revert to</button></form>'' @
               ''<form method="post" action="?prune='' @ n @ ''">'' @
               ''<button class="button is-small is-danger is-light">delete</button></form>''))\<close>

definition version_row_html :: "version_info \<Rightarrow> bytes" where \<open>
  version_row_html v =
     ''<tr><td>'' @ show_nat (unat (vi_number v)) @
     (if vi_is_current v then '' <span class="tag is-success is-light">current</span>'' else []) @
     ''</td><td>'' @ format_size (vi_size v) @ ''</td><td>'' @ escape_html (format_time (vi_created v)) @ ''</td>'' @
     ''<td class="actions">'' @ version_actions v @ ''</td></tr>''\<close>

definition version_main :: "web_lib \<Rightarrow> bytes \<Rightarrow> version_info list \<Rightarrow> bytes" where \<open>
  version_main W name vs =
     ''<h1 class="title is-5">Versions of '' @ escape_html name @ ''</h1>'' @
     ''<p class="buttons"><a class="button is-small" href="'' @ encode_segment W name @ ''">view current</a></p>'' @
     ''<p class="notification is-warning is-light">Deleting a version removes it from '' @
     ''history; the chunks it no longer shares stay on disk until garbage collection is '' @
     ''run (<code>POST /?gc</code>).</p>'' @
     ''<table class="table is-fullwidth"><thead><tr>'' @
     ''<th>Version</th><th>Size</th><th>Created</th><th>Actions</th></tr></thead>'' @
     ''<tbody>'' @ concat (map version_row_html (rev vs)) @ ''</tbody></table>''\<close>

end
