(* ===== verification/Error_Text.thy ===== *)
theory Error_Text
  imports Vfs_Inner Rust_Str
begin

text \<open>
  The \<open>Display\<close> texts of the program's errors (\<open>davfs.rs\<close>, \<open>meta.rs\<close>, \<open>index/src/lib.rs\<close>,
  \<open>hash.rs\<close>, \<open>chunker/src/lib.rs\<close>), over the texts of the errors of other crates. A string is
  its UTF-8 bytes.
\<close>

record text_lib =
  show_io :: "io_error \<Rightarrow> bytes"
  show_sqlite :: "sqlite_error \<Rightarrow> bytes"
  show_tantivy :: "tantivy_error \<Rightarrow> bytes"

fun show_meta_error :: "text_lib \<Rightarrow> meta_error \<Rightarrow> bytes" where
  "show_meta_error L (MetaSqlite e) = ''sqlite error: '' @ show_sqlite L e"
| "show_meta_error L MetaNotFound = ''node not found''"
| "show_meta_error L MetaExists = ''node already exists''"
| "show_meta_error L MetaNotEmpty = ''collection is not empty''"
| "show_meta_error L MetaNotADirectory = ''not a collection''"
| "show_meta_error L MetaIsADirectory = ''is a collection''"
| "show_meta_error L MetaCurrentVersion = ''cannot delete the current version''"
| "show_meta_error L MetaCorrupt = ''corrupt metadata''"

fun show_index_error :: "text_lib \<Rightarrow> index_error \<Rightarrow> bytes" where
  "show_index_error L (Tantivy e) = ''search index error: '' @ show_tantivy L e"
| "show_index_error L (BadQuery q) = ''invalid search query: '' @ q"

fun show_vfs_error :: "text_lib \<Rightarrow> vfs_error \<Rightarrow> bytes" where
  "show_vfs_error L (VfsIo e) = ''i/o error: '' @ show_io L e"
| "show_vfs_error L (VfsMeta e) = ''metadata error: '' @ show_meta_error L e"
| "show_vfs_error L (VfsIndex e) = ''search index error: '' @ show_index_error L e"
| "show_vfs_error L (VfsTooLarge n) = ''version too large to serve in memory: '' @ show_nat (unat n) @ '' bytes''"

fun show_parse_hash_error :: "parse_hash_error \<Rightarrow> bytes" where
  "show_parse_hash_error (InvalidLength n) = ''expected 64 hex characters, got '' @ show_nat n"
| "show_parse_hash_error InvalidHex = ''string contains a non-hex character''"

definition show_range :: "bytes \<Rightarrow> u32 \<Rightarrow> u32 \<Rightarrow> u32 \<Rightarrow> bytes" where
  "show_range what v lo hi =
     what @ '' chunk size '' @ show_nat (unat v) @ '' out of range ['' @ show_nat (unat lo) @ '', '' @
     show_nat (unat hi) @ '']''"

fun show_config_error :: "fastcdc_lib \<Rightarrow> config_error \<Rightarrow> bytes" where
  "show_config_error F (MinOutOfRange v) = show_range ''minimum'' v (minimum_min F) (minimum_max F)"
| "show_config_error F (AvgOutOfRange v) = show_range ''average'' v (average_min F) (average_max F)"
| "show_config_error F (MaxOutOfRange v) = show_range ''maximum'' v (maximum_min F) (maximum_max F)"
| "show_config_error F (NotAscending mn av mx) =
     ''chunk sizes must satisfy min <= avg <= max, got '' @ show_nat (unat mn) @ '' / '' @ show_nat (unat av) @
     '' / '' @ show_nat (unat mx)"

end
