(* ===== verification/Router.thy ===== *)
theory Router
  imports Web Error_Text
begin

text \<open>
  \<open>crates/webdav-server/src/main.rs\<close>: the router in front of \<open>dav-server\<close>. Its query parsers, its
  browser pages, the version and collection actions, and the two search surfaces, over the file
  system of theory \<open>Dav_Fs\<close>. A header is its value when it is present and visible ASCII;
  a content type is given where the code sets one.
\<close>

section \<open>Requests and responses\<close>

record request =
  rq_method :: bytes
  rq_path :: bytes
  rq_query :: "bytes option"
  rq_accept :: "bytes option"
  rq_origin :: "bytes option"
  rq_host :: "bytes option"
  rq_body :: "bytes option"

text \<open>A body is sent whole, or streamed as the chunks come, the last of which may be an error.\<close>

datatype body = Full bytes | Stream "(io_error + bytes) list"

record response =
  rs_status :: nat
  rs_content_type :: "bytes option"
  rs_location :: "bytes option"
  rs_length :: "u64 option"
  rs_dasl :: "bytes option"
  rs_body :: body

definition reply :: "nat \<Rightarrow> bytes option \<Rightarrow> bytes \<Rightarrow> response" where
  "reply st ty b = \<lparr>rs_status = st, rs_content_type = ty, rs_location = None, rs_length = None, rs_dasl = None, rs_body = Full b\<rparr>"

definition html_response :: "bytes \<Rightarrow> response" where
  "html_response html = reply 200 (Some ''text/html; charset=utf-8'') html"

definition json_response :: "bytes \<Rightarrow> response" where
  "json_response json = reply 200 (Some ''application/json'') json"

definition redirect :: "nat \<Rightarrow> bytes \<Rightarrow> response" where
  "redirect st loc = (reply st None [])\<lparr>rs_location := Some loc\<rparr>"

definition bad_request :: "bytes \<Rightarrow> response" where
  "bad_request msg = reply 400 None msg"

definition not_found :: response where
  "not_found = reply 404 None ''not found''"

section \<open>What the router calls\<close>

text \<open>
  \<open>DavPath::new\<close> and the \<open>DavHandler\<close> of \<open>dav-server\<close> over the same file system, the events of a
  \<open>quick-xml\<close> reader up to the end of the input or the first error, the texts of their errors and
  of a score, and which calls of a garbage collection fail.
\<close>

datatype xml_event = XStart bytes | XEnd bytes | XText "bytes option" | XOther

record 't router_lib =
  dav_path_new :: "bytes \<Rightarrow> bytes option"
  dav_handle :: "request \<Rightarrow> 't fs_state \<Rightarrow> 't fs_state \<times> response"
  xml_events :: "bytes \<Rightarrow> xml_event list"
  error_texts :: text_lib
  show_score :: "score \<Rightarrow> bytes"
  gc_faults :: "hash \<Rightarrow> faults"
  gc_scan :: scan_faults

section \<open>Query strings\<close>

definition pairs_of :: "bytes \<Rightarrow> (bytes \<times> bytes) list" where
  "pairs_of query =
     map (\<lambda>p. case split_once ''='' p of Some kv \<Rightarrow> kv | None \<Rightarrow> (p, []))
       (filter (\<lambda>s. s \<noteq> []) (split_on CHR ''&'' query))"

datatype version_request = NoVersion | ListVersions | Version u64 | BadVersion

fun version_loop :: "(bytes \<times> bytes) list \<Rightarrow> bool \<Rightarrow> u64 option option \<Rightarrow> bool \<times> u64 option option" where
  "version_loop [] l v = (l, v)"
| "version_loop ((key, val) # ps) l v =
     (if key = ''versions'' then version_loop ps True v
      else if key = ''version'' then version_loop ps l (Some (parse_u64 val))
      else version_loop ps l v)"

definition parse_version_query :: "bytes \<Rightarrow> version_request" where
  "parse_version_query query =
     (case version_loop (pairs_of query) False None of
        (False, None) \<Rightarrow> NoVersion
      | (True, None) \<Rightarrow> ListVersions
      | (False, Some (Some n)) \<Rightarrow> Version n
      | _ \<Rightarrow> BadVersion)"

datatype action = Revert u64 | Prune u64 | Gc | BadAction

fun action_loop :: "(bytes \<times> bytes) list \<Rightarrow> action option" where
  "action_loop [] = None"
| "action_loop ((key, val) # ps) =
     (if key = ''revert'' then Some (case parse_u64 val of Some n \<Rightarrow> Revert n | None \<Rightarrow> BadAction)
      else if key = ''prune'' then Some (case parse_u64 val of Some n \<Rightarrow> Prune n | None \<Rightarrow> BadAction)
      else if key = ''gc'' then Some Gc
      else action_loop ps)"

definition parse_action_query :: "bytes \<Rightarrow> action option" where
  "parse_action_query query = action_loop (pairs_of query)"

definition decode_query_value :: "web_lib \<Rightarrow> bytes \<Rightarrow> bytes" where
  "decode_query_value W val =
     from_utf8_lossy (percent_decode W (map (\<lambda>c. if c = CHR ''+'' then CHR '' '' else c) val))"

definition parse_search_query :: "web_lib \<Rightarrow> bytes \<Rightarrow> bytes option" where
  "parse_search_query W query =
     (case find (\<lambda>kv. fst kv = ''q'') (pairs_of query) of
        None \<Rightarrow> None
      | Some kv \<Rightarrow>
          (let trimmed = trim (decode_query_value W (snd kv)) in if trimmed = [] then None else Some trimmed))"

definition has_raw :: "bytes \<Rightarrow> bool" where
  "has_raw query = list_ex (\<lambda>p. p = ''raw'' \<or> starts_with ''raw='' p) (split_on CHR ''&'' query)"

definition has_print :: "bytes \<Rightarrow> bool" where
  "has_print query = list_ex (\<lambda>p. p = ''print'' \<or> starts_with ''print='' p) (split_on CHR ''&'' query)"

section \<open>Headers and paths\<close>

text \<open>The guard against cross-site requests: the origin's authority must be the host.\<close>

definition is_cross_origin :: "request \<Rightarrow> bool" where
  "is_cross_origin req =
     (case rq_origin req of
        None \<Rightarrow> False
      | Some origin \<Rightarrow>
          (let host = (case rq_host req of Some h \<Rightarrow> h | None \<Rightarrow> [])
           in map_option snd (split_once ''://'' origin) \<noteq> Some host))"

definition wants_html :: "request \<Rightarrow> bool" where
  "wants_html req = (case rq_accept req of Some a \<Rightarrow> contains ''text/html'' a | None \<Rightarrow> False)"

text \<open>The last non-empty piece of a path, or nothing.\<close>

definition last_piece :: "bytes \<Rightarrow> bytes" where
  "last_piece p = (case find (\<lambda>s. s \<noteq> []) (rev (split_on CHR ''/'' p)) of Some s \<Rightarrow> s | None \<Rightarrow> [])"

definition needs_trailing_slash :: "bytes \<Rightarrow> bytes option" where
  "needs_trailing_slash path_str = (if ends_with ''/'' path_str then None else Some (last_piece path_str))"

definition is_readme :: "bytes \<Rightarrow> bool" where
  "is_readme name \<longleftrightarrow> to_ascii_lowercase name \<in> {''readme.md'', ''index.md''}"

definition basename :: "bytes \<Rightarrow> bytes" where
  "basename path = from_utf8_lossy (last_piece path)"

definition decoded_segments :: "bytes \<Rightarrow> bytes list" where
  "decoded_segments path = map from_utf8_lossy (filter (\<lambda>s. s \<noteq> []) (split_on CHR ''/'' path))"

definition display_path :: "bytes \<Rightarrow> bytes" where
  "display_path path = (let d = from_utf8_lossy path in if d = [] then ''/'' else d)"

definition parent_encoded :: "bytes \<Rightarrow> bytes" where
  "parent_encoded path_str =
     (case rfind CHR ''/'' (trim_end_matches CHR ''/'' path_str) of
        Some i \<Rightarrow> take (Suc i) path_str
      | None \<Rightarrow> ''/'')"

definition child_path :: "'t router_lib \<Rightarrow> web_lib \<Rightarrow> bytes \<Rightarrow> bytes \<Rightarrow> bytes option" where
  "child_path R W parent name =
     dav_path_new R (parent @ (if ends_with ''/'' parent then [] else ''/'') @ encode_segment W name)"

section \<open>JSON\<close>

definition hex_lower :: "nat \<Rightarrow> byte" where
  "hex_lower n = char_of (if n < 10 then 48 + n else 87 + n)"

definition json_char :: "byte \<Rightarrow> bytes" where
  "json_char c =
     (if c = CHR 0x22 then [CHR 0x5C, CHR 0x22]
      else if c = CHR 0x5C then [CHR 0x5C, CHR 0x5C]
      else if c = CHR 0x0A then [CHR 0x5C, CHR ''n'']
      else if c = CHR 0x0D then [CHR 0x5C, CHR ''r'']
      else if c = CHR 0x09 then [CHR 0x5C, CHR ''t'']
      else if byte_in 0 31 c
        then [CHR 0x5C, CHR ''u'', CHR ''0'', CHR ''0'', hex_lower (byte_val c div 16), hex_lower (byte_val c mod 16)]
      else [c])"

definition json_string :: "bytes \<Rightarrow> bytes" where
  "json_string s = [CHR 0x22] @ concat (map json_char s) @ [CHR 0x22]"

fun join :: "bytes \<Rightarrow> bytes list \<Rightarrow> bytes" where
  "join sep [] = []"
| "join sep [x] = x"
| "join sep (x # xs) = x @ sep @ join sep xs"

definition hit_json :: "'t router_lib \<Rightarrow> search_result \<Rightarrow> bytes" where \<open>
  hit_json R h =
     ''{"path":'' @ json_string (sr_path h) @ '',"score":'' @ show_score R (sr_score h) @ '',"snippet":'' @
     (case sr_snippet h of Some s \<Rightarrow> json_string s | None \<Rightarrow> ''null'') @ ''}''\<close>

definition search_to_json :: "'t router_lib \<Rightarrow> search_result list \<Rightarrow> bytes" where
  "search_to_json R hits = ''['' @ join '','' (map (hit_json R) hits) @ '']''"

definition gc_stats_json :: "gc_stats \<Rightarrow> bytes" where \<open>
  gc_stats_json st =
     ''{"scanned":'' @ show_nat (unat (blobs_scanned st)) @ '',"removed":'' @ show_nat (unat (blobs_removed st)) @
     '',"reclaimed":'' @ show_nat (unat (bytes_reclaimed st)) @ '',"failed":'' @ show_nat (unat (blobs_failed st)) @ ''}''\<close>

definition unix_millis :: "system_time \<Rightarrow> i64" where
  "unix_millis t = (if 0 \<le> t then as_i64 (t div 1000000) else 0)"

definition version_json :: "version_info \<Rightarrow> bytes" where \<open>
  version_json v =
     ''{"number":'' @ show_nat (unat (vi_number v)) @ '',"size":'' @ show_nat (unat (vi_size v)) @
     '',"created":'' @ show_int (unix_millis (vi_created v)) @
     '',"current":'' @ (if vi_is_current v then ''true'' else ''false'') @ ''}''\<close>

definition versions_to_json :: "version_info list \<Rightarrow> bytes" where
  "versions_to_json vs = ''['' @ join '','' (map version_json vs) @ '']''"

end
