(* ===== verification/Server.thy ===== *)
theory Server
  imports Router
begin

text \<open>
  The request handlers of \<open>crates/webdav-server/src/main.rs\<close>, from \<open>handle\<close> down. A handler that
  only reads answers a response; \<open>handle_post_action\<close> and \<open>handle\<close> thread the file system's
  state. The tasks they spawn run to their end; \<open>dav-server\<close> gets what they do not answer.
\<close>

section \<open>Reading pages\<close>

definition MAX_PREVIEW_BYTES :: u64 where "MAX_PREVIEW_BYTES = 8 * 1024 * 1024"

definition read_inline :: "'t env \<Rightarrow> web_lib \<Rightarrow> 't fs_state \<Rightarrow> bytes \<Rightarrow> file_kind \<Rightarrow> bytes option" where
  "read_inline E W s path kind =
     (case read_current E s path MAX_PREVIEW_BYTES of
        Inl _ \<Rightarrow> None
      | Inr b \<Rightarrow> (let text = from_utf8_lossy b in Some (if kind = Markdown then markdown W text else text)))"

definition listing_or_empty :: "'t env \<Rightarrow> 't fs_state \<Rightarrow> bytes \<Rightarrow> dir_entry_info list" where
  "listing_or_empty E s path = (case list_dir E s path of Inr es \<Rightarrow> es | Inl _ \<Rightarrow> [])"

definition parent_sidebar :: "'t env \<Rightarrow> 't router_lib \<Rightarrow> web_lib \<Rightarrow> 't fs_state \<Rightarrow> bytes \<Rightarrow> bytes \<Rightarrow> bytes" where
  "parent_sidebar E R W s path_str current_file =
     (case dav_path_new R (parent_encoded path_str) of
        Some parent \<Rightarrow> sidebar W (decoded_segments parent) (listing_or_empty E s parent) (Some current_file)
      | None \<Rightarrow> sidebar W [] [] (Some current_file))"

definition scope_sidebar :: "'t env \<Rightarrow> 't router_lib \<Rightarrow> web_lib \<Rightarrow> 't fs_state \<Rightarrow> bytes \<Rightarrow> bytes" where
  "scope_sidebar E R W s path_str =
     (case dav_path_new R path_str of
        Some path \<Rightarrow> sidebar W (decoded_segments path) (listing_or_empty E s path) None
      | None \<Rightarrow> sidebar W [] [] None)"

definition directory_page ::
  "'t env \<Rightarrow> 't router_lib \<Rightarrow> web_lib \<Rightarrow> 't fs_state \<Rightarrow> bytes \<Rightarrow> bytes \<Rightarrow> response"
where
  "directory_page E R W s path path_str =
     (case list_dir E s path of
        Inl _ \<Rightarrow> not_found
      | Inr entries \<Rightarrow>
          (let dir_segments = decoded_segments path;
               readme_html =
                 (case find (\<lambda>e. \<not> di_is_dir e \<and> is_readme (di_name e)) entries of
                    Some entry \<Rightarrow> (case child_path R W path_str (di_name entry) of
                        Some readme \<Rightarrow> read_inline E W s readme Markdown
                      | None \<Rightarrow> None)
                  | None \<Rightarrow> None);
               display = display_path path
           in html_response (page display (sidebar W dir_segments entries None)
                (dir_main W display readme_html dir_segments entries))))"

definition file_page ::
  "'t env \<Rightarrow> 't router_lib \<Rightarrow> web_lib \<Rightarrow> 't fs_state \<Rightarrow> bytes \<Rightarrow> bytes \<Rightarrow> response"
where
  "file_page E R W s path path_str =
     (let name = basename path; kind = kind_of_name name;
          content = (if reads_text kind then read_inline E W s path kind else None)
      in html_response (page name (parent_sidebar E R W s path_str name) (file_main name kind content)))"

definition print_page_response :: "'t env \<Rightarrow> web_lib \<Rightarrow> 't fs_state \<Rightarrow> bytes \<Rightarrow> response" where
  "print_page_response E W s path =
     (let name = basename path; kind = kind_of_name name
      in if \<not> reads_text kind then not_found
         else html_response (print_page name kind (read_inline E W s path kind)))"

definition version_page_response ::
  "'t env \<Rightarrow> 't router_lib \<Rightarrow> web_lib \<Rightarrow> 't fs_state \<Rightarrow> bytes \<Rightarrow> bool \<Rightarrow> response"
where
  "version_page_response E R W s path_str accept_html =
     (case dav_path_new R path_str of
        None \<Rightarrow> bad_request ''bad path''
      | Some path \<Rightarrow>
          (case dav_list_versions E s path of
             Inr vs \<Rightarrow>
               if accept_html then
                 (let name = basename path
                  in html_response (page (''Versions of '' @ name) (parent_sidebar E R W s path_str name)
                       (version_main W name vs)))
               else json_response (versions_to_json vs)
           | Inl e \<Rightarrow> if is_not_found e then not_found else bad_request ''not a versioned file''))"

section \<open>Streaming a version\<close>

text \<open>
  The blocking task sends the chunks until the reader is through or a read has failed; a client that
  hangs up ends it earlier. There are at most as many sends as the version has chunks.
\<close>

fun drain :: "'t env \<Rightarrow> 't fs_state \<Rightarrow> nat \<Rightarrow> version_reader \<Rightarrow> (io_error + bytes) list" where
  "drain E s 0 r = []"
| "drain E s (Suc n) r =
     (case reader_next_chunk E s r of
        (r', None) \<Rightarrow> []
      | (r', Some (Inl e)) \<Rightarrow> [Inl e]
      | (r', Some (Inr b)) \<Rightarrow> Inr b # drain E s n r')"

definition serve_version :: "'t env \<Rightarrow> 't fs_state \<Rightarrow> bytes \<Rightarrow> u64 \<Rightarrow> response" where
  "serve_version E s path n =
     (case open_version E s path n of
        Inl e \<Rightarrow>
          if is_not_found e then reply 404 None ''version not found''
          else if is_invalid_target e then reply 400 None ''not a versioned file''
          else reply 500 None ''read failed''
      | Inr r \<Rightarrow>
          \<lparr>rs_status = 200, rs_content_type = Some ''application/octet-stream'', rs_location = None,
            rs_length = Some (vr_size r), rs_dasl = None,
            rs_body = Stream (drain E s (Suc (length (chunks (cs_manifest (vr_chunks r))))) r)\<rparr>)"

section \<open>Searching\<close>

definition SEARCH_LIMIT :: nat where "SEARCH_LIMIT = 50"

definition search_failed :: "vfs_error \<Rightarrow> response" where
  "search_failed e =
     (if is_not_found e then not_found
      else if is_bad_query e then bad_request ''invalid search query''
      else reply 500 None ''search failed'')"

definition search_response ::
  "'t env \<Rightarrow> 't router_lib \<Rightarrow> web_lib \<Rightarrow> 't fs_state \<Rightarrow> bytes \<Rightarrow> bytes \<Rightarrow> bool \<Rightarrow> response"
where
  "search_response E R W s path_str query accept_html =
     (case dav_path_new R path_str of
        None \<Rightarrow> bad_request ''bad path''
      | Some scope \<Rightarrow>
          (case dav_search E s query SEARCH_LIMIT scope of
             Inr hits \<Rightarrow>
               if accept_html then
                 html_response (page (''Search: '' @ query) (scope_sidebar E R W s path_str) (search_main W query hits))
               else json_response (search_to_json R hits)
           | Inl e \<Rightarrow> search_failed e))"

text \<open>The local part of an XML name: what follows the last colon.\<close>

definition local_name :: "bytes \<Rightarrow> bytes" where
  "local_name qname = (case rfind CHR '':'' qname of Some i \<Rightarrow> drop (Suc i) qname | None \<Rightarrow> qname)"

record search_scan =
  in_contains :: bool
  in_literal :: bool
  in_scope :: bool
  in_href :: bool
  sc_contains :: bytes
  sc_literal :: bytes
  sc_href :: bytes

definition scan_start :: search_scan where
  "scan_start = \<lparr>in_contains = False, in_literal = False, in_scope = False, in_href = False,
     sc_contains = [], sc_literal = [], sc_href = []\<rparr>"

fun scan_event :: "xml_event \<Rightarrow> search_scan \<Rightarrow> search_scan" where
  "scan_event (XStart n) st =
     (if local_name n = ''contains'' then st\<lparr>in_contains := True\<rparr>
      else if local_name n = ''literal'' then st\<lparr>in_literal := True\<rparr>
      else if local_name n = ''scope'' then st\<lparr>in_scope := True\<rparr>
      else if local_name n = ''href'' \<and> in_scope st then st\<lparr>in_href := True\<rparr>
      else st)"
| "scan_event (XEnd n) st =
     (if local_name n = ''contains'' then st\<lparr>in_contains := False\<rparr>
      else if local_name n = ''literal'' then st\<lparr>in_literal := False\<rparr>
      else if local_name n = ''scope'' then st\<lparr>in_scope := False\<rparr>
      else if local_name n = ''href'' then st\<lparr>in_href := False\<rparr>
      else st)"
| "scan_event (XText t) st =
     (let text = (case t of Some x \<Rightarrow> x | None \<Rightarrow> [])
      in if in_contains st then st\<lparr>sc_contains := sc_contains st @ text\<rparr>
         else if in_literal st then st\<lparr>sc_literal := sc_literal st @ text\<rparr>
         else if in_href st then st\<lparr>sc_href := sc_href st @ text\<rparr>
         else st)"
| "scan_event XOther st = st"

definition parse_search_request :: "'t router_lib \<Rightarrow> bytes \<Rightarrow> bytes \<times> bytes option" where
  "parse_search_request R b =
     (let st = fold scan_event (xml_events R b) scan_start;
          query = (if trim (sc_contains st) \<noteq> [] then trim (sc_contains st)
                   else trim (trim_matches (set ''%_'') (trim (sc_literal st))));
          href = trim (sc_href st)
      in (query, if href = [] then None else Some href))"

definition href_to_path :: "bytes \<Rightarrow> bytes option" where
  "href_to_path href =
     (let h = trim href
      in if h = [] then None
         else Some (case find_str ''://'' h of
             Some i \<Rightarrow>
               (let rest = drop (i + 3) h
                in case find_str ''/'' rest of Some j \<Rightarrow> drop j rest | None \<Rightarrow> ''/'')
           | None \<Rightarrow> h))"

definition multistatus_item :: "web_lib \<Rightarrow> search_result \<Rightarrow> bytes" where
  "multistatus_item W h =
     ''<D:response><D:href>'' @ path_href W (sr_path h) @ ''</D:href><D:propstat><D:prop>'' @
     ''<D:displayname>'' @ escape_html (last_piece (sr_path h)) @ ''</D:displayname></D:prop>'' @
     ''<D:status>HTTP/1.1 200 OK</D:status></D:propstat></D:response>''"

definition multistatus_response :: "web_lib \<Rightarrow> search_result list \<Rightarrow> response" where \<open>
  multistatus_response W hits =
     reply 207 (Some ''application/xml; charset=utf-8'')
       (''<?xml version="1.0" encoding="utf-8"?>'' @ [CHR 0x0A] @ ''<D:multistatus xmlns:D="DAV:">'' @
        concat (map (multistatus_item W) hits) @ ''</D:multistatus>'')\<close>

text \<open>The body is \<^const>\<open>None\<close> when it cannot be read; \<open>to_bytes\<close> refuses a longer one than its limit.\<close>

definition MAX_SEARCH_BODY :: nat where "MAX_SEARCH_BODY = 64 * 1024"

definition handle_search_method ::
  "'t env \<Rightarrow> 't router_lib \<Rightarrow> web_lib \<Rightarrow> 't fs_state \<Rightarrow> request \<Rightarrow> response"
where
  "handle_search_method E R W s req =
     (case rq_body req of
        None \<Rightarrow> bad_request ''search request body too large or unreadable''
      | Some b \<Rightarrow>
          if length b > MAX_SEARCH_BODY then bad_request ''search request body too large or unreadable''
          else (case parse_search_request R b of (query, scope_href) \<Rightarrow>
             if trim query = [] then bad_request ''no supported search term (expected DAV:contains)''
             else
               (let scope_str = (case Option.bind scope_href href_to_path of Some p \<Rightarrow> p | None \<Rightarrow> rq_path req)
                in case dav_path_new R scope_str of
                     None \<Rightarrow> bad_request ''bad search scope''
                   | Some scope \<Rightarrow>
                       (case dav_search E s query SEARCH_LIMIT scope of
                          Inr hits \<Rightarrow> multistatus_response W hits
                        | Inl e \<Rightarrow> search_failed e))))"

section \<open>Dispatch\<close>

text \<open>\<^const>\<open>None\<close> falls through to \<open>dav-server\<close>.\<close>

definition handle_browser_get ::
  "'t env \<Rightarrow> 't router_lib \<Rightarrow> web_lib \<Rightarrow> 't fs_state \<Rightarrow> bytes \<Rightarrow> bytes \<Rightarrow> bool \<Rightarrow> response option"
where
  "handle_browser_get E R W s path_str query accept_html =
     (if has_raw query then None
      else if has_print query then
        Some (case dav_path_new R path_str of
            Some path \<Rightarrow> print_page_response E W s path
          | None \<Rightarrow> bad_request ''bad path'')
      else case parse_search_query W query of
        Some q \<Rightarrow> Some (search_response E R W s path_str q accept_html)
      | None \<Rightarrow>
          (case parse_version_query query of
             BadVersion \<Rightarrow> Some (bad_request ''invalid version selector'')
           | ListVersions \<Rightarrow> Some (version_page_response E R W s path_str accept_html)
           | Version n \<Rightarrow>
               Some (case dav_path_new R path_str of
                   Some path \<Rightarrow> serve_version E s path n
                 | None \<Rightarrow> bad_request ''bad path'')
           | NoVersion \<Rightarrow>
               (case dav_path_new R path_str of
                  None \<Rightarrow> None
                | Some path \<Rightarrow>
                    (case dav_is_dir E s path of
                       Inr True \<Rightarrow>
                         Some (case needs_trailing_slash path_str of
                             Some seg \<Rightarrow> redirect 302 (seg @ ''/'')
                           | None \<Rightarrow> directory_page E R W s path path_str)
                     | Inr False \<Rightarrow> if accept_html then Some (file_page E R W s path path_str) else None
                     | Inl _ \<Rightarrow> None))))"

definition version_action ::
  "'t env \<Rightarrow> 't router_lib \<Rightarrow> 't fs_state \<Rightarrow> bool \<Rightarrow> bytes \<Rightarrow> u64 \<Rightarrow> 't fs_state \<times> response"
where
  "version_action E R s revert path_str n =
     (case dav_path_new R path_str of
        None \<Rightarrow> (s, bad_request ''bad path'')
      | Some path \<Rightarrow>
          (case (if revert then revert_to_version E s path n else prune_version E s path n) of
             (s', Inr _) \<Rightarrow> (s', redirect 303 (path_str @ ''?versions''))
           | (s', Inl e) \<Rightarrow> (s', if is_not_found e then not_found else reply 400 None (show_vfs_error (error_texts R) e))))"

definition handle_post_action ::
  "'t env \<Rightarrow> 't router_lib \<Rightarrow> 't fs_state \<Rightarrow> bytes \<Rightarrow> bytes \<Rightarrow> bool \<Rightarrow> 't fs_state \<times> response option"
where
  "handle_post_action E R s query path_str cross_origin =
     (case parse_action_query query of
        None \<Rightarrow> (s, None)
      | Some a \<Rightarrow>
          if cross_origin then (s, Some (reply 403 None ''cross-origin request refused''))
          else case a of
            BadAction \<Rightarrow> (s, Some (bad_request ''invalid action''))
          | Gc \<Rightarrow>
              if path_str \<noteq> ''/'' then (s, Some (bad_request ''gc is only available at POST /?gc''))
              else (case gc E (gc_faults R) (gc_scan R) s of
                  (s', Inr st) \<Rightarrow> (s', Some (json_response (gc_stats_json st)))
                | (s', Inl _) \<Rightarrow> (s', Some (reply 500 None ''gc failed'')))
          | Revert n \<Rightarrow> (case version_action E R s True path_str n of (s', r) \<Rightarrow> (s', Some r))
          | Prune n \<Rightarrow> (case version_action E R s False path_str n of (s', r) \<Rightarrow> (s', Some r)))"

definition query_of :: "request \<Rightarrow> bytes" where
  "query_of req = (case rq_query req of Some q \<Rightarrow> q | None \<Rightarrow> [])"

definition pass_to_dav :: "'t router_lib \<Rightarrow> 't fs_state \<Rightarrow> request \<Rightarrow> 't fs_state \<times> response" where
  "pass_to_dav R s req =
     (case dav_handle R req s of (s', r) \<Rightarrow>
        (s', if rq_method req = ''OPTIONS'' then r\<lparr>rs_dasl := Some ''<DAV:basicsearch>''\<rparr> else r))"

definition handle :: "'t env \<Rightarrow> 't router_lib \<Rightarrow> web_lib \<Rightarrow> 't fs_state \<Rightarrow> request \<Rightarrow> 't fs_state \<times> response" where
  "handle E R W s req =
     (if rq_method req = ''GET'' then
        (case handle_browser_get E R W s (rq_path req) (query_of req) (wants_html req) of
           Some r \<Rightarrow> (s, r)
         | None \<Rightarrow> pass_to_dav R s req)
      else if rq_method req = ''POST'' then
        (case handle_post_action E R s (query_of req) (rq_path req) (is_cross_origin req) of
           (s', Some r) \<Rightarrow> (s', r)
         | (s', None) \<Rightarrow> pass_to_dav R s' req)
      else if rq_method req = ''SEARCH'' then (s, handle_search_method E R W s req)
      else pass_to_dav R s req)"

end
