(* ===== verification/Web_Text.thy ===== *)
theory Web_Text
  imports Server
begin

text \<open>
  Lemmas on the encodings of the web layer: HTML escaping, percent encoding and JSON strings each
  have a decoder that undoes them, and none of them lets a character of the markup through.
\<close>

section \<open>Decoders\<close>

text \<open>A browser's reading of the five character references.\<close>

definition entities :: "(bytes \<times> byte) list" where
  "entities = [(''&amp;'', CHR ''&''), (''&lt;'', CHR ''<''), (''&gt;'', CHR ''>''), (''&quot;'', CHR 0x22), (''&#39;'', CHR 0x27)]"

function unescape_html :: "bytes \<Rightarrow> bytes" where
  "unescape_html [] = []"
| "unescape_html (c # xs) =
     (case find (\<lambda>e. starts_with (fst e) (c # xs)) entities of
        Some (p, x) \<Rightarrow> x # unescape_html (drop (length p - 1) xs)
      | None \<Rightarrow> c # unescape_html xs)"
  by pat_completeness auto
termination by (relation "measure length") auto

text \<open>A JSON reader on the characters of a string after its opening quote.\<close>

fun hex_value_of :: "bytes \<Rightarrow> nat option" where
  "hex_value_of [a, b, c, d] =
     (case (hex_digit_val a, hex_digit_val b, hex_digit_val c, hex_digit_val d) of
        (Some w, Some x, Some y, Some z) \<Rightarrow> Some (((w * 16 + x) * 16 + y) * 16 + z)
      | _ \<Rightarrow> None)"
| "hex_value_of _ = None"

definition simple_escape :: "byte \<Rightarrow> byte option" where
  "simple_escape e =
     map_of [(CHR 0x22, CHR 0x22), (CHR 0x5C, CHR 0x5C), (CHR ''/'', CHR ''/''), (CHR ''b'', CHR 0x08),
       (CHR ''f'', CHR 0x0C), (CHR ''n'', CHR 0x0A), (CHR ''r'', CHR 0x0D), (CHR ''t'', CHR 0x09)] e"

function json_chars :: "bytes \<Rightarrow> bytes option" where
  "json_chars [] = None"
| "json_chars (c # xs) =
     (if c = CHR 0x22 then (if xs = [] then Some [] else None)
      else if c = CHR 0x5C then
        (if xs = [] then None
         else if hd xs = CHR ''u'' then
           (case hex_value_of (take 4 (tl xs)) of
              Some n \<Rightarrow> if n < 128 then map_option (Cons (char_of n)) (json_chars (drop 5 xs)) else None
            | None \<Rightarrow> None)
         else (case simple_escape (hd xs) of
              Some x \<Rightarrow> map_option (Cons x) (json_chars (tl xs))
            | None \<Rightarrow> None))
      else if byte_in 0 31 c then None
      else map_option (Cons c) (json_chars xs))"
  by pat_completeness auto
termination by (relation "measure length") auto

definition parse_json_string :: "bytes \<Rightarrow> bytes option" where
  "parse_json_string s = (case s of c # xs \<Rightarrow> if c = CHR 0x22 then json_chars xs else None | [] \<Rightarrow> None)"

declare unescape_html.simps [simp del] json_chars.simps [simp del]

section \<open>The contract of a codec\<close>

text \<open>
  What the encoders share: each writes a string character by character, and its decoder takes what
  one character was written as off the front, whatever follows. Reading a written string and what
  comes after it is then reading its characters and the rest.
\<close>

locale char_codec =
  fixes enc :: "byte \<Rightarrow> bytes" and dec :: "bytes \<Rightarrow> 'r" and add :: "byte \<Rightarrow> 'r \<Rightarrow> 'r"
  assumes dec_enc: "dec (enc c @ xs) = add c (dec xs)"
begin

lemma dec_string: "dec (concat (map enc s) @ rest) = foldr add s (dec rest)"
  by (induction s) (simp_all add: dec_enc)

end

lemma foldr_Cons_id: "foldr (#) s [] = s"
  by (induction s) simp_all

lemma foldr_map_option_Cons: "foldr (\<lambda>c. map_option (Cons c)) s (Some []) = Some s"
  by (induction s) simp_all

section \<open>HTML\<close>

lemma unescape_char: "unescape_html (escape_char c @ xs) = c # unescape_html xs"
  by (auto simp: escape_char_def unescape_html.simps(2) entities_def starts_with_def)

interpretation html: char_codec escape_char unescape_html "(#)"
  by unfold_locales (rule unescape_char)

lemma unescape_escape: "unescape_html (escape_html s) = s"
  using html.dec_string [of s "[]"] by (simp add: escape_html_def unescape_html.simps(1) foldr_Cons_id)

definition is_markup :: "byte \<Rightarrow> bool" where
  "is_markup c \<longleftrightarrow> c = CHR ''<'' \<or> c = CHR ''>'' \<or> c = CHR 0x22 \<or> c = CHR 0x27"

definition markup :: "bytes \<Rightarrow> bytes" where
  "markup xs = filter is_markup xs"

lemma markup_simps [simp]:
  "markup [] = []"
  "markup (xs @ ys) = markup xs @ markup ys"
  "markup (concat xss) = concat (map markup xss)"
proof -
  have m: "markup = filter is_markup" by (rule ext) (rule markup_def)
  show "markup [] = []" and "markup (xs @ ys) = markup xs @ markup ys" by (simp_all add: m)
  show "markup (concat xss) = concat (map markup xss)" unfolding m by (rule filter_concat)
qed

lemma markup_escape_html [simp]: "markup (escape_html s) = []"
  by (auto simp: markup_def escape_html_def escape_char_def is_markup_def filter_empty_conv split: if_splits)

section \<open>Percent encoding\<close>

lemma web_lib_okD:
  assumes "web_lib_ok W"
  shows "non_alphanumeric W c \<longleftrightarrow> byte_in 0 127 c \<and> \<not> is_alnum c"
    and "utf8_percent_encode W S xs = percent_encoded S xs" and "percent_decode W xs = percent_decoded xs"
  using assms by (auto simp: web_lib_ok_def)

lemma hex_upper_val: "n < 16 \<Longrightarrow> hex_digit_val (hex_upper n) = Some n"
  by (auto simp: hex_upper_def hex_digit_val_def byte_in_def)

lemma decode_encode_byte: "percent_decoded (encode_byte c @ xs) = c # percent_decoded xs"
proof -
  have "byte_val c div 16 < 16" using byte_val_bound [of c] by linarith
  moreover have "(char_of (16 * (byte_val c div 16) + byte_val c mod 16) :: byte) = c"
    by (simp add: byte_val_def)
  ultimately show ?thesis by (simp add: encode_byte_def hex_upper_val)
qed

lemma decode_plain: "c \<noteq> CHR ''%'' \<Longrightarrow> percent_decoded (c # xs) = c # percent_decoded xs"
proof -
  assume c: "c \<noteq> CHR ''%''"
  consider "xs = []" | a where "xs = [a]" | a b ys where "xs = a # b # ys" by (metis list.exhaust)
  then show ?thesis using c by cases simp_all
qed

interpretation percent: char_codec "\<lambda>c. if byte_in 128 255 c \<or> S c \<or> c = CHR ''%'' then encode_byte c else [c]"
    percent_decoded "(#)" for S
  by unfold_locales (simp add: decode_encode_byte decode_plain)

lemma percent_roundtrip:
  assumes "S CHR ''%''"
  shows "percent_decoded (percent_encoded S xs) = xs"
proof -
  have "(\<lambda>c. if byte_in 128 255 c \<or> S c then encode_byte c else [c])
      = (\<lambda>c. if byte_in 128 255 c \<or> S c \<or> c = CHR ''%'' then encode_byte c else [c])"
    using assms by auto
  then show ?thesis using percent.dec_string [of S xs "[]"] by (simp add: percent_encoded_def foldr_Cons_id)
qed

lemma SEGMENT_iff: "web_lib_ok W \<Longrightarrow> SEGMENT W c \<longleftrightarrow> byte_in 0 127 c \<and> \<not> is_alnum c \<and> c \<notin> set ''-_.~''"
  by (simp add: SEGMENT_def web_lib_okD)

lemma segment_roundtrip: "web_lib_ok W \<Longrightarrow> percent_decoded (encode_segment W s) = s"
  by (simp add: encode_segment_def web_lib_okD(2), rule percent_roundtrip)
    (simp add: SEGMENT_iff is_alnum_def byte_in_def byte_val_def)

lemma hex_upper_alnum: "n < 16 \<Longrightarrow> is_alnum (hex_upper n)"
  by (auto simp: hex_upper_def is_alnum_def byte_in_def)

lemma segment_chars:
  assumes "web_lib_ok W" and "c \<in> set (encode_segment W s)"
  shows "is_alnum c \<or> c \<in> set ''-_.~%''"
proof -
  obtain x where x: "c \<in> set (if byte_in 128 255 x \<or> SEGMENT W x then encode_byte x else [x])"
    using assms unfolding encode_segment_def web_lib_okD(2) [OF assms(1)] percent_encoded_def by fastforce
  have "byte_val x div 16 < 16" using byte_val_bound [of x] by linarith
  then have "is_alnum (hex_upper (byte_val x div 16))" "is_alnum (hex_upper (byte_val x mod 16))"
    by (simp_all add: hex_upper_alnum)
  moreover have "byte_in 128 255 x \<or> byte_in 0 127 x" using byte_val_bound [of x] by (simp add: byte_in_def, linarith)
  ultimately show ?thesis using x assms(1) by (auto simp: encode_byte_def SEGMENT_iff split: if_splits)
qed

lemma not_alnum: "\<not> is_alnum CHR ''/''" "\<not> is_alnum CHR ''<''" "\<not> is_alnum CHR ''>''"
  "\<not> is_alnum CHR 0x22" "\<not> is_alnum CHR 0x27"
  by (simp_all add: is_alnum_def byte_in_def byte_val_def)

lemma markup_encode_segment [simp]: "web_lib_ok W \<Longrightarrow> markup (encode_segment W s) = []"
  using segment_chars [of W _ s] not_alnum by (fastforce simp: markup_def is_markup_def filter_empty_conv)

lemma encode_segment_no_slash: "web_lib_ok W \<Longrightarrow> CHR ''/'' \<notin> set (encode_segment W s)"
  using segment_chars [of W _ s] not_alnum by fastforce

lemma encode_segment_empty: "web_lib_ok W \<Longrightarrow> encode_segment W s = [] \<longleftrightarrow> s = []"
  by (cases s) (auto simp: encode_segment_def web_lib_okD(2) percent_encoded_def encode_byte_def)

section \<open>Paths in links\<close>

lemma split_pieces: "p \<in> set (split_on c xs) \<Longrightarrow> c \<notin> set p"
  by (induction xs arbitrary: p) (auto split: list.splits if_splits)

text \<open>A link's path splits into the encoded names it was made of.\<close>

lemma split_segments:
  assumes "\<And>p. p \<in> set ps \<Longrightarrow> c \<notin> set p" and "c \<notin> set h"
  shows "split_on c (h @ concat (map (\<lambda>p. c # p) ps)) = h # ps"
  using assms
proof (induction ps arbitrary: h)
  case (Cons p ps)
  then show ?case by (simp add: split_on_append)
qed (simp add: split_on_none)

lemma dir_href_segments:
  assumes W: "web_lib_ok W" and ne: "[] \<notin> set segs"
  shows "map percent_decoded (filter (\<lambda>s. s \<noteq> []) (split_on CHR ''/'' (dir_href W segs))) = segs"
proof (cases "segs = []")
  case True
  then show ?thesis by (simp add: dir_href_def)
next
  case False
  let ?e = "map (encode_segment W) segs"
  have "dir_href W segs = concat (map (\<lambda>p. CHR ''/'' # p) ?e)"
    using False by (simp add: dir_href_def Let_def comp_def)
  moreover have "split_on CHR ''/'' ([] @ concat (map (\<lambda>p. CHR ''/'' # p) ?e)) = [] # ?e"
    by (rule split_segments) (use encode_segment_no_slash [OF W] in auto)
  moreover have "filter (\<lambda>s. s \<noteq> []) ?e = ?e"
    using ne encode_segment_empty [OF W] by (auto simp: filter_id_conv)
  ultimately show ?thesis by (simp add: comp_def segment_roundtrip [OF W] cong: map_cong)
qed

lemma path_href_segments:
  assumes "web_lib_ok W"
  shows "map percent_decoded (segments (path_href W path)) = segments path"
  unfolding segments_def path_href_def by (rule dir_href_segments [OF assms]) simp

section \<open>JSON\<close>

lemma hex_lower_val: "n < 16 \<Longrightarrow> hex_digit_val (hex_lower n) = Some n"
  by (auto simp: hex_lower_def hex_digit_val_def byte_in_def)

lemma json_plain: "c \<noteq> CHR 0x22 \<Longrightarrow> c \<noteq> CHR 0x5C \<Longrightarrow> \<not> byte_in 0 31 c \<Longrightarrow> json_chars (c # xs) = map_option (Cons c) (json_chars xs)"
  by (subst json_chars.simps) simp

lemma json_escape: "simple_escape e = Some x \<Longrightarrow> json_chars (CHR 0x5C # e # xs) = map_option (Cons x) (json_chars xs)"
  by (subst json_chars.simps) (auto simp: simple_escape_def)

lemma json_hex:
  "hex_value_of [a, b, c, d] = Some n \<Longrightarrow> n < 128 \<Longrightarrow>
     json_chars (CHR 0x5C # CHR ''u'' # a # b # c # d # xs) = map_option (Cons (char_of n)) (json_chars xs)"
  by (subst json_chars.simps) (simp add: numeral_eq_Suc del: hex_value_of.simps)

lemma json_char_read: "json_chars (json_char c @ xs) = map_option (Cons c) (json_chars xs)"
proof -
  consider "c = CHR 0x22" | "c = CHR 0x5C" | "c = CHR 0x0A" | "c = CHR 0x0D" | "c = CHR 0x09"
    | "c \<notin> {CHR 0x22, CHR 0x5C, CHR 0x0A, CHR 0x0D, CHR 0x09}" by blast
  then show ?thesis
  proof cases
    case plain: 6
    show ?thesis
    proof (cases "byte_in 0 31 c")
      case True
      let ?h = "byte_val c div 16" and ?l = "byte_val c mod 16"
      have v: "?h < 16" "?h * 16 + ?l = byte_val c" "byte_val c < 128"
        using True by (auto simp: byte_in_def)
      have "hex_digit_val CHR ''0'' = Some 0" by (simp add: hex_digit_val_def byte_in_def byte_val_def)
      then have "hex_value_of [CHR ''0'', CHR ''0'', hex_lower ?h, hex_lower ?l] = Some (byte_val c)"
        using v(1,2) by (simp add: hex_lower_val)
      from json_hex [OF this v(3)] show ?thesis
        using plain True by (simp add: json_char_def byte_val_def)
    next
      case False
      then show ?thesis using plain by (simp add: json_char_def json_plain)
    qed
  qed (simp_all add: json_char_def json_escape simple_escape_def)
qed

interpretation json: char_codec json_char json_chars "\<lambda>c. map_option (Cons c)"
  by unfold_locales (rule json_char_read)

lemma json_roundtrip: "parse_json_string (json_string s) = Some s"
proof -
  have "json_chars (concat (map json_char s) @ [CHR 0x22]) = Some s"
    using json.dec_string [of s "[CHR 0x22]"] by (simp add: json_chars.simps(2) foldr_map_option_Cons)
  then show ?thesis by (simp add: parse_json_string_def json_string_def)
qed

section \<open>Markup of the pages' parts\<close>

text \<open>Names in links and as text contribute no markup.\<close>

lemma markup_Cons: "markup (c # xs) = (if is_markup c then c # markup xs else markup xs)"
  by (simp add: markup_def)

lemmas markup_read = markup_Cons is_markup_def

lemma markup_dir_href [simp]: "web_lib_ok W \<Longrightarrow> markup (dir_href W segs) = []"
  by (auto simp: dir_href_def Let_def markup_read)

lemma markup_file_href [simp]: "web_lib_ok W \<Longrightarrow> markup (file_href W segs name) = []"
  by (simp add: file_href_def Let_def markup_read)

lemma markup_path_href [simp]: "web_lib_ok W \<Longrightarrow> markup (path_href W path) = []"
  by (simp add: path_href_def)

text \<open>Renaming the names on a page.\<close>

definition rename_entry :: "(bytes \<Rightarrow> bytes) \<Rightarrow> dir_entry_info \<Rightarrow> dir_entry_info" where
  "rename_entry f e = e\<lparr>di_name := f (di_name e)\<rparr>"

definition rename_hit :: "(bytes \<Rightarrow> bytes) \<Rightarrow> search_result \<Rightarrow> search_result" where
  "rename_hit f r = r\<lparr>sr_path := f (sr_path r)\<rparr>"

lemma rename_simps [simp]:
  "di_name (rename_entry f e) = f (di_name e)" "di_is_dir (rename_entry f e) = di_is_dir e"
  "di_size (rename_entry f e) = di_size e" "di_modified (rename_entry f e) = di_modified e"
  "sr_path (rename_hit f r) = f (sr_path r)" "sr_snippet (rename_hit f r) = sr_snippet r"
  "sr_score (rename_hit f r) = sr_score r"
  by (simp_all add: rename_entry_def rename_hit_def)

lemma items_markup:
  assumes "web_lib_ok W"
  shows "markup (folder_item W segs' (rename_entry f e)) = markup (folder_item W segs e)"
    and "inj f \<Longrightarrow> markup (file_item W segs' (map_option f cur) (rename_entry f e)) = markup (file_item W segs cur e)"
    and "markup (dir_row W segs' (rename_entry f e)) = markup (dir_row W segs e)"
    and "markup (search_item W (rename_hit f r)) = markup (search_item W r)"
    and "markup (multistatus_item W (rename_hit f r)) = markup (multistatus_item W r)"
proof -
  show "markup (folder_item W segs' (rename_entry f e)) = markup (folder_item W segs e)"
    using assms by (simp add: folder_item_def markup_read)
  show "markup (dir_row W segs' (rename_entry f e)) = markup (dir_row W segs e)"
    using assms by (simp add: dir_row_def Let_def markup_read)
  show "markup (search_item W (rename_hit f r)) = markup (search_item W r)"
    using assms by (simp add: search_item_def markup_read)
  show "markup (multistatus_item W (rename_hit f r)) = markup (multistatus_item W r)"
    using assms by (simp add: multistatus_item_def markup_read)
  assume "inj f"
  then have "map_option f cur = Some (f (di_name e)) \<longleftrightarrow> cur = Some (di_name e)"
    by (cases cur) (auto dest: injD)
  then show "markup (file_item W segs' (map_option f cur) (rename_entry f e)) = markup (file_item W segs cur e)"
    using assms by (simp add: file_item_def markup_read)
qed

lemma item_lists:
  assumes "\<And>e. g (rename_entry f e) \<noteq> []" "\<And>e. h e \<noteq> []"
    and "\<And>e. P (rename_entry f e) = P e" and "\<And>e. markup (g (rename_entry f e)) = markup (h e)"
  shows "markup (concat (map g (filter P (map (rename_entry f) es)))) = markup (concat (map h (filter P es)))"
    and "(concat (map g (filter P (map (rename_entry f) es))) = []) = (concat (map h (filter P es)) = [])"
proof -
  show "markup (concat (map g (filter P (map (rename_entry f) es)))) = markup (concat (map h (filter P es)))"
    using assms by (induction es) simp_all
  show "(concat (map g (filter P (map (rename_entry f) es))) = []) = (concat (map h (filter P es)) = [])"
    using assms by (induction es) (simp_all del: concat_eq_Nil_conv)
qed

lemma items_nonempty: "folder_item W segs e \<noteq> []" "file_item W segs cur e \<noteq> []"
  by (simp_all add: folder_item_def file_item_def)

lemma breadcrumb_markup:
  assumes "web_lib_ok W" and "length segs' = length segs"
  shows "markup (breadcrumb W segs') = markup (breadcrumb W segs)"
  using assms by (simp add: breadcrumb_def Let_def comp_def markup_read cong: map_cong)

lemma sidebar_markup:
  assumes W: "web_lib_ok W" and f: "inj f"
  shows "markup (sidebar W (map f segs) (map (rename_entry f) es) (map_option f cur)) = markup (sidebar W segs es cur)"
proof -
  define F F' G G' where
    "F = concat (map (folder_item W (map f segs)) (filter di_is_dir (map (rename_entry f) es)))"
    and "F' = concat (map (folder_item W segs) (filter di_is_dir es))"
    and "G = concat (map (file_item W (map f segs) (map_option f cur)) (filter (\<lambda>e. \<not> di_is_dir e) (map (rename_entry f) es)))"
    and "G' = concat (map (file_item W segs cur) (filter (\<lambda>e. \<not> di_is_dir e) es))"
  note parts = F_def [symmetric] F'_def [symmetric] G_def [symmetric] G'_def [symmetric]
  have "markup F = markup F'" "(F = []) = (F' = [])"
    unfolding F_def F'_def by (rule item_lists; simp add: items_nonempty items_markup(1) [OF W])+
  moreover have "markup G = markup G'" "(G = []) = (G' = [])"
    unfolding G_def G'_def by (rule item_lists; simp add: items_nonempty items_markup(2) [OF W f])+
  moreover have "markup (breadcrumb W (map f segs)) = markup (breadcrumb W segs)"
    by (rule breadcrumb_markup [OF W]) simp
  ultimately show ?thesis
    unfolding sidebar_def Let_def parts by (cases "F = []"; cases "G = []") (simp_all add: markup_read)
qed

end
