(* ===== verification/Web_Valid.thy ===== *)
theory Web_Valid
  imports Web_Text
begin

text \<open>
  A Rust \<open>String\<close> is valid UTF-8. Here a string is its bytes, so that its validity is a property of
  the definitions: these lemmas show it for every part of the pages.
\<close>

section \<open>Concatenation\<close>

lemma utf8_valid_Nil [simp]: "utf8_valid []"
  by (simp add: utf8_valid.simps)

lemma utf8_valid_step: "xs \<noteq> [] \<Longrightarrow> utf8_valid xs \<Longrightarrow> \<exists>k. utf8_step xs = (k, True) \<and> utf8_valid (drop k xs)"
  by (subst (asm) utf8_valid.simps) (auto split: prod.splits if_splits)

lemma utf8_valid_app:
  assumes "utf8_valid xs" and "utf8_valid ys"
  shows "utf8_valid (xs @ ys)"
  using assms
proof (induction xs rule: utf8_valid.induct)
  case (1 xs)
  show ?case
  proof (cases "xs = []")
    case False
    then obtain k where k: "utf8_step xs = (k, True)" "utf8_valid (drop k xs)"
      using utf8_valid_step 1(2) by blast
    have "utf8_valid (drop k xs @ ys)" using 1(1) [OF False k(1) [symmetric]] k(2) 1(3) by simp
    then have "utf8_valid (take k xs @ drop k xs @ ys)" by (rule utf8_valid_append [OF k(1) False])
    then show ?thesis by (simp flip: append_assoc)
  qed (use 1 in simp)
qed

lemma utf8_valid_concat: "(\<And>x. x \<in> set xss \<Longrightarrow> utf8_valid x) \<Longrightarrow> utf8_valid (concat xss)"
  by (induction xss) (simp_all add: utf8_valid_app)

lemma utf8_valid_concat_map [intro]: "(\<And>x. x \<in> set xs \<Longrightarrow> utf8_valid (f x)) \<Longrightarrow> utf8_valid (concat (map f xs))"
  by (rule utf8_valid_concat) auto

lemma utf8_valid_Cons: "byte_in 0 127 c \<Longrightarrow> utf8_valid (c # xs) = utf8_valid xs"
  by (subst utf8_valid.simps) simp

lemma utf8_valid_ascii: "list_all (byte_in 0 127) xs \<Longrightarrow> utf8_valid xs"
  by (induction xs) (simp_all add: utf8_valid_Cons)

text \<open>Reading a literal: its ASCII characters, and the three others the pages use.\<close>

lemma utf8_valid_three:
  "utf8_valid (CHR 0xE2 # CHR 0x80 # c # xs) = (byte_in 128 191 c \<and> utf8_valid xs)"
proof -
  have "utf8_step (CHR 0xE2 # CHR 0x80 # c # xs) = (if byte_in 128 191 c then (3, True) else (2, False))"
    by (simp add: byte_in_def byte_val_def utf8_second_def)
  then show ?thesis by (subst utf8_valid.simps) simp
qed

lemmas valid_read = utf8_valid_three utf8_valid_Cons byte_in_def byte_val_def

section \<open>Escaping\<close>

lemma utf8_tail_high: "utf8_tail n xs = (k, True) \<Longrightarrow> list_all (byte_in 128 255) (take k xs)"
proof (induction n arbitrary: xs k)
  case (Suc n)
  then show ?case by (cases xs) (auto split: if_splits prod.splits simp: byte_in_def)
qed simp

lemma utf8_second_high:
  "utf8_second lo hi n xs = (k, True) \<Longrightarrow> 128 \<le> lo \<Longrightarrow> list_all (byte_in 128 255) (take (k - 1) xs)"
proof (cases xs)
  case (Cons x zs)
  assume run: "utf8_second lo hi n xs = (k, True)" and "128 \<le> lo"
  then obtain j where "byte_in lo hi x" "utf8_tail n zs = (j, True)" "k = 2 + j"
    using Cons by (auto simp: utf8_second_def split: if_splits prod.splits)
  then show ?thesis using Cons utf8_tail_high \<open>128 \<le> lo\<close> byte_val_bound [of x] by (auto simp: byte_in_def)
qed (simp add: utf8_second_def)

text \<open>A code point is one ASCII byte or some that are all not ASCII.\<close>

lemma utf8_step_high:
  assumes "utf8_step xs = (k, True)" and "xs \<noteq> []"
  shows "k = 1 \<or> list_all (byte_in 128 255) (take k xs)"
proof -
  obtain x zs where xs: "xs = x # zs" using assms(2) by (cases xs) auto
  consider "k = 1" | lo hi n where "byte_in 128 255 x" and "128 \<le> lo" and "utf8_second lo hi n zs = (k, True)"
  proof -
    assume 1: "k = 1 \<Longrightarrow> thesis"
      and 2: "\<And>lo hi n. byte_in 128 255 x \<Longrightarrow> 128 \<le> lo \<Longrightarrow> utf8_second lo hi n zs = (k, True) \<Longrightarrow> thesis"
    have high: "byte_in 128 255 x \<or> byte_in 0 127 x" using byte_val_bound [of x] by (simp add: byte_in_def, linarith)
    show thesis
      using assms(1) high unfolding xs utf8_step.simps
      by (auto split: if_splits intro: 1 2 [of 128] 2 [of 160] 2 [of 144])
  qed
  then show ?thesis
  proof cases
    case (2 lo hi n)
    have "0 < k" using utf8_second_pos [OF 2(3)] .
    then obtain j where "k = Suc j" by (cases k) auto
    then show ?thesis using 2 utf8_second_high [OF 2(3,2)] xs by simp
  qed simp
qed

lemma escape_char_valid: "utf8_valid [c] \<Longrightarrow> utf8_valid (escape_char c)"
  by (simp add: escape_char_def valid_read)

lemma escape_high: "list_all (byte_in 128 255) xs \<Longrightarrow> escape_html xs = xs"
  by (induction xs) (auto simp: escape_html_def escape_char_def byte_in_def byte_val_def)

lemma escape_html_append: "escape_html (xs @ ys) = escape_html xs @ escape_html ys"
  by (simp add: escape_html_def)

lemma utf8_valid_escape [intro]: "utf8_valid xs \<Longrightarrow> utf8_valid (escape_html xs)"
proof (induction xs rule: utf8_valid.induct)
  case (1 xs)
  show ?case
  proof (cases "xs = []")
    case False
    then obtain k where k: "utf8_step xs = (k, True)" "utf8_valid (drop k xs)"
      using utf8_valid_step 1(2) by blast
    have tl: "utf8_valid (escape_html (drop k xs))" using 1(1) [OF False k(1) [symmetric]] k(2) by simp
    have hd: "utf8_valid (take k xs)" using utf8_valid_append [OF k(1) False, of "[]"] by simp
    have "utf8_valid (escape_html (take k xs))"
      using utf8_step_high [OF k(1) False]
    proof
      assume "k = 1"
      then show ?thesis using hd False escape_char_valid [of "hd xs"]
        by (cases xs) (simp_all add: escape_html_def)
    qed (use hd escape_high in simp)
    then have "utf8_valid (escape_html (take k xs) @ escape_html (drop k xs))" using tl by (rule utf8_valid_app)
    then show ?thesis by (simp flip: escape_html_append)
  qed (simp add: escape_html_def)
qed

section \<open>Numbers, times and links\<close>

lemma digits_valid: "list_all is_digit xs \<Longrightarrow> utf8_valid xs"
  by (rule utf8_valid_ascii) (auto simp: is_digit_def byte_in_def elim!: list.pred_mono_strong)

lemma show_nat_valid [simp, intro]: "utf8_valid (show_nat n)"
  by (rule digits_valid [OF show_nat_digits])

lemma show_pad_valid [simp, intro]: "utf8_valid (show_pad w i)"
proof -
  have "utf8_valid (replicate n CHR ''0'')" for n
    by (rule utf8_valid_ascii) (simp add: list_all_iff byte_in_def byte_val_def)
  then show ?thesis by (simp add: show_pad_def Let_def utf8_valid_app valid_read)
qed

lemma format_time_valid [simp, intro]: "utf8_valid (format_time t)"
  by (simp add: format_time_def Let_def utf8_valid_app valid_read split: prod.splits)

lemma size_unit_bound: "u \<le> 4 \<Longrightarrow> size_unit m u \<le> 4"
  by (induction m u rule: size_unit.induct) (subst size_unit.simps, auto)

lemma format_size_valid [simp, intro]: "utf8_valid (format_size b)"
proof -
  have "utf8_valid (UNITS ! k)" if "k \<le> 4" for k
    using that by (auto simp: UNITS_def le_Suc_eq numeral_eq_Suc valid_read)
  then have "utf8_valid (UNITS ! size_unit m 0)" for m
    using size_unit_bound [of 0 m] by simp
  then show ?thesis by (simp add: format_size_def Let_def utf8_valid_app valid_read)
qed

lemma encode_segment_valid [simp, intro]:
  assumes "web_lib_ok W"
  shows "utf8_valid (encode_segment W s)"
proof (rule utf8_valid_ascii)
  have "byte_in 0 127 c" if "c \<in> set (encode_segment W s)" for c
    using segment_chars [OF assms that] by (auto simp: is_alnum_def byte_in_def byte_val_def)
  then show "list_all (byte_in 0 127) (encode_segment W s)" by (simp add: list_all_iff)
qed

lemma href_valid [simp, intro]:
  assumes "web_lib_ok W"
  shows "utf8_valid (dir_href W segs)" and "utf8_valid (file_href W segs name)" and "utf8_valid (path_href W path)"
proof -
  show d: "utf8_valid (dir_href W segs)" for segs
    using assms by (auto simp: dir_href_def Let_def valid_read)
  show "utf8_valid (file_href W segs name)"
    using assms d by (simp add: file_href_def Let_def utf8_valid_app valid_read)
  show "utf8_valid (path_href W path)" by (simp add: path_href_def d)
qed

section \<open>Pages\<close>

definition names_valid :: "dir_entry_info list \<Rightarrow> bool" where
  "names_valid es \<longleftrightarrow> (\<forall>e \<in> set es. utf8_valid (di_name e))"

lemmas valid_parts = utf8_valid_app utf8_valid_escape href_valid encode_segment_valid

lemma items_valid:
  assumes "web_lib_ok W" and "utf8_valid (di_name e)"
  shows "utf8_valid (folder_item W segs e)" and "utf8_valid (file_item W segs cur e)" and "utf8_valid (dir_row W segs e)"
  using assms by (simp_all add: folder_item_def file_item_def dir_row_def Let_def valid_parts valid_read)

lemma breadcrumb_valid:
  assumes "web_lib_ok W" and "list_all utf8_valid segs"
  shows "utf8_valid (breadcrumb W segs)"
proof -
  have "utf8_valid (segs ! i)" if "i < length segs" for i
    using assms(2) that by (simp add: list_all_length)
  then show ?thesis
    using assms(1) unfolding breadcrumb_def Let_def
    by (intro utf8_valid_app utf8_valid_concat_map) (simp_all add: valid_parts valid_read)
qed

lemma sidebar_valid [intro]:
  assumes W: "web_lib_ok W" and "list_all utf8_valid segs" and es: "names_valid es"
  shows "utf8_valid (sidebar W segs es cur)"
proof -
  define F G where "F = concat (map (folder_item W segs) (filter di_is_dir es))"
    and "G = concat (map (file_item W segs cur) (filter (\<lambda>e. \<not> di_is_dir e) es))"
  have "utf8_valid F" "utf8_valid G"
    unfolding F_def G_def using es items_valid [OF W] by (auto simp: names_valid_def)
  moreover have "utf8_valid search_box" by (simp add: search_box_def valid_read)
  ultimately show ?thesis
    unfolding sidebar_def Let_def F_def [symmetric] G_def [symmetric]
    using breadcrumb_valid [OF W assms(2)]
    by (cases "F = []"; cases "G = []") (simp_all add: utf8_valid_app valid_read)
qed

lemma dir_main_valid [intro]:
  assumes W: "web_lib_ok W" and es: "names_valid es" and d: "utf8_valid d" and "pred_option utf8_valid html"
  shows "utf8_valid (dir_main W d html segs es)"
proof (cases html)
  case None
  have "utf8_valid (concat (map (dir_row W segs) es))"
    using es items_valid(3) [OF W] by (auto simp: names_valid_def)
  then show ?thesis using None d by (simp add: dir_main_def valid_parts valid_read)
qed (use assms in \<open>simp add: dir_main_def valid_parts valid_read\<close>)

lemma text_body_valid [intro]: "pred_option utf8_valid t \<Longrightarrow> utf8_valid (text_body kind t)"
  by (cases t) (simp_all add: text_body_def no_preview_def valid_parts valid_read)

lemma file_main_valid [intro]:
  assumes "utf8_valid name" and "pred_option utf8_valid t"
  shows "utf8_valid (file_main name kind t)"
proof -
  have "utf8_valid (file_header name b)" for b
    using assms(1) by (simp add: file_header_def valid_parts valid_read)
  then show ?thesis
    using text_body_valid [OF assms(2), of kind]
    by (cases kind) (simp_all add: file_main_def no_preview_def valid_parts valid_read)
qed

lemma CSS_valid: "utf8_valid CUSTOM_CSS" "utf8_valid PRINT_CSS" "utf8_valid html_start"
  by (simp_all add: CUSTOM_CSS_def PRINT_CSS_def html_start_def valid_read)

lemma page_valid [intro]:
  "utf8_valid title \<Longrightarrow> utf8_valid side \<Longrightarrow> utf8_valid main \<Longrightarrow> utf8_valid (page title side main)"
  by (simp add: page_def CSS_valid valid_parts valid_read)

lemma print_page_valid [intro]:
  "utf8_valid name \<Longrightarrow> pred_option utf8_valid t \<Longrightarrow> utf8_valid (print_page name kind t)"
  using text_body_valid [of t kind]
  by (simp add: print_page_def CSS_valid no_preview_def valid_parts valid_read)

lemma version_main_valid [intro]:
  assumes W: "web_lib_ok W" and "utf8_valid name"
  shows "utf8_valid (version_main W name vs)"
proof -
  have "utf8_valid (version_row_html v)" for v
    by (simp add: version_row_html_def version_actions_def Let_def valid_parts valid_read)
  then have "utf8_valid (concat (map version_row_html (rev vs)))" by auto
  then show ?thesis using assms by (simp add: version_main_def valid_parts valid_read)
qed

section \<open>What the handlers put into the pages\<close>

lemma list_dir_names: "list_dir E s path = Inr es \<Longrightarrow> names_valid es"
  by (auto simp: list_dir_def names_valid_def utf8_valid_lossy split: if_splits)

lemma names_valid_Nil [simp]: "names_valid []"
  by (simp add: names_valid_def)

lemma listing_names [simp]: "names_valid (listing_or_empty E s path)"
  by (cases "list_dir E s path") (simp_all add: listing_or_empty_def list_dir_names)

lemma path_strings_valid:
  "utf8_valid (basename p)" "utf8_valid (display_path p)" "list_all utf8_valid (decoded_segments p)"
  by (auto simp: basename_def display_path_def decoded_segments_def Let_def list_all_iff utf8_valid_lossy valid_read)

lemma read_inline_valid:
  "(\<And>t. utf8_valid t \<Longrightarrow> utf8_valid (markdown W t)) \<Longrightarrow> pred_option utf8_valid (read_inline E W s path kind)"
  by (simp add: read_inline_def Let_def utf8_valid_lossy split: sum.split)

lemma parent_sidebar_valid: "web_lib_ok W \<Longrightarrow> utf8_valid (parent_sidebar E R W s p f)"
  by (simp add: parent_sidebar_def sidebar_valid path_strings_valid(3) split: option.split)

lemma show_int_valid: "utf8_valid (show_int i)"
  by (simp add: show_int_def utf8_valid_app valid_read)

lemma join_valid: "list_all utf8_valid xs \<Longrightarrow> utf8_valid sep \<Longrightarrow> utf8_valid (join sep xs)"
  by (induction sep xs rule: join.induct) (simp_all add: utf8_valid_app)

lemma versions_json_valid: "utf8_valid (versions_to_json vs)"
proof -
  have "utf8_valid (version_json v)" for v
    by (simp add: version_json_def show_int_valid valid_parts valid_read)
  then have "utf8_valid (join '','' (map version_json vs))"
    by (intro join_valid) (simp_all add: list_all_iff valid_read)
  then show ?thesis by (simp add: versions_to_json_def valid_parts valid_read)
qed

definition valid_body :: "response \<Rightarrow> bool" where
  "valid_body r \<longleftrightarrow> (case rs_body r of Full b \<Rightarrow> utf8_valid b | Stream _ \<Rightarrow> False)"

lemma valid_body_simps [simp]:
  "valid_body (html_response b) = utf8_valid b" "valid_body (json_response b) = utf8_valid b"
  "valid_body (bad_request b) = utf8_valid b" "valid_body not_found"
  by (simp_all add: valid_body_def html_response_def json_response_def bad_request_def not_found_def reply_def valid_read)

end
