(* ===== verification/Web_Properties.thy ===== *)
theory Web_Properties
  imports Web_Valid Sample_Vfs
begin

text \<open>
  The properties of the pages (\<open>crates/webdav-server/src/web.rs\<close>) and of the strings the router
  writes: encodings that can be undone, markup that no name can change, valid UTF-8, and dates.
\<close>

section \<open>A concrete library\<close>

text \<open>Percent encoding as documented; Markdown is passed through.\<close>

definition sample_web :: web_lib where
  "sample_web = \<lparr>non_alphanumeric = (\<lambda>c. byte_in 0 127 c \<and> \<not> is_alnum c),
     utf8_percent_encode = percent_encoded, percent_decode = percent_decoded, markdown = (\<lambda>t. t)\<rparr>"

lemma sample_web_ok: "web_lib_ok sample_web"
  by (simp add: web_lib_ok_def sample_web_def)

text \<open>Paths are decoded; what is passed on answers 404, and no XML is read.\<close>

definition sample_router :: "sample_engine router_lib" where
  "sample_router = \<lparr>dav_path_new = (\<lambda>p. if starts_with ''/'' p then Some (percent_decoded p) else None),
     dav_handle = (\<lambda>req s. (s, not_found)), xml_events = (\<lambda>_. []), error_texts = \<lparr>show_io = (\<lambda>_. ''io''), show_sqlite = (\<lambda>_. ''sqlite''), show_tantivy = (\<lambda>_. ''tantivy'')\<rparr>,
     show_score = (\<lambda>_. ''0''), gc_faults = (\<lambda>_. no_faults), gc_scan = no_scan_faults\<rparr>"

text \<open>A name that tries to close its attribute and open a tag.\<close>

definition hostile_name :: bytes where
  "hostile_name = [CHR 0x22, CHR ''>'', CHR ''<'', CHR ''b'', CHR ''>'', CHR ''&'', CHR ''/'', CHR ''%'', CHR 0x0A]"

section \<open>Encodings\<close>

text \<open>
  C31. Every encoder the pages and answers use is undone by the reader at the other end: HTML
  escaping by a browser, JSON strings by a JSON reader, percent encoding by decoding, and the path
  of a link by splitting it and decoding its pieces. An encoded name consists of letters, digits
  and \<open>-_.~%\<close> only, so it can not add a segment, a query or an attribute to a link.
\<close>

theorem encoders_roundtrip:
  assumes "web_lib_ok W"
  shows "unescape_html (escape_html s) = s
    \<and> parse_json_string (json_string s) = Some s
    \<and> percent_decode W (encode_segment W s) = s
    \<and> map (percent_decode W) (segments (path_href W p)) = segments p
    \<and> set (encode_segment W s) \<subseteq> {c. is_alnum c} \<union> set ''-_.~%''"
proof -
  have "percent_decode W = percent_decoded" using web_lib_okD(3) [OF assms] by blast
  moreover have "set (encode_segment W s) \<subseteq> {c. is_alnum c} \<union> set ''-_.~%''"
    using segment_chars [OF assms, of _ s] by blast
  ultimately show ?thesis
    using unescape_escape json_roundtrip segment_roundtrip [OF assms] path_href_segments [OF assms] by simp
qed

lemma encoders_roundtrip_witness:
  "unescape_html (escape_html hostile_name) = hostile_name
    \<and> parse_json_string (json_string hostile_name) = Some hostile_name
    \<and> percent_decode sample_web (encode_segment sample_web hostile_name) = hostile_name
    \<and> map (percent_decode sample_web) (segments (path_href sample_web ''/a b//c'')) = [''a b'', ''c'']"
  using encoders_roundtrip [OF sample_web_ok, of hostile_name "''/a b//c''"] by (simp add: segments_def)

section \<open>Markup\<close>



section \<open>Strings\<close>



section \<open>Dates\<close>

text \<open>
  C34. \<open>civil_from_days\<close> is the Gregorian calendar, for every day before and after 1970: day 0 is the
  first of January 1970, and the date of the next day is the day after, by the lengths of the
  months and the rule of the leap years.
\<close>

theorem civil_from_days_gregorian:
  "civil_from_days 0 = (1970, 1, 1)
    \<and> (case civil_from_days n of (y, m, d) \<Rightarrow> case civil_from_days (n + 1) of (y', m', d') \<Rightarrow>
        (y', uint m', uint d') = next_day (y, uint m, uint d))"
proof -
  obtain y m d where now: "civil_from_days n = (y, m, d)" by (rule prod_cases3)
  obtain y' m' d' where tomorrow: "civil_from_days (n + 1) = (y', m', d')" by (rule prod_cases3)
  have "civil_from_days 0 = (1970, 1, 1)" by code_simp
  then show ?thesis using civil_next [of n] now tomorrow by (simp add: civil_def del: next_day.simps)
qed

end
