(* ===== verification/Server_Properties.thy ===== *)
theory Server_Properties
  imports Web_Properties Vfs_Properties Gc_Properties
begin

text \<open>
  The properties of the router (\<open>crates/webdav-server/src/main.rs\<close>) in front of the file system:
  which requests can change it, what a version download sends, and what a search request asks.
\<close>

section \<open>Lemmas the properties share\<close>

text \<open>Queries of one pair whose value is a number.\<close>

lemma digits_not: "list_all is_digit ds \<Longrightarrow> \<not> is_digit c \<Longrightarrow> c \<notin> set ds"
  by (auto simp: list_all_iff)

lemma not_digits: "\<not> is_digit CHR ''&''" "\<not> is_digit CHR ''=''"
  by (simp_all add: is_digit_def byte_in_def byte_val_def)

lemma pairs_of_number:
  assumes "CHR ''&'' \<notin> set k" and "CHR ''='' \<notin> set k"
  shows "split_on CHR ''&'' (k @ CHR ''='' # show_nat n) = [k @ CHR ''='' # show_nat n]"
    and "pairs_of (k @ CHR ''='' # show_nat n) = [(k, show_nat n)]"
proof -
  have "CHR ''&'' \<notin> set (k @ CHR ''='' # show_nat n)"
    using assms(1) digits_not [OF show_nat_digits not_digits(1), of n] by simp
  then show 1: "split_on CHR ''&'' (k @ CHR ''='' # show_nat n) = [k @ CHR ''='' # show_nat n]"
    by (rule split_on_none)
  show "pairs_of (k @ CHR ''='' # show_nat n) = [(k, show_nat n)]"
    using split_once_char [OF assms(2), of "show_nat n"] by (simp add: pairs_of_def 1)
qed

lemma version_link:
  "parse_version_query (''version='' @ show_nat (unat n)) = Version n"
  "parse_action_query (''revert='' @ show_nat (unat n)) = Some (Revert n)"
  "parse_action_query (''prune='' @ show_nat (unat n)) = Some (Prune n)"
  using pairs_of_number(2) [of "''version''" "unat n"] pairs_of_number(2) [of "''revert''" "unat n"]
    pairs_of_number(2) [of "''prune''" "unat n"]
  by (simp_all add: parse_version_query_def parse_action_query_def parse_show_u64)

text \<open>A \<open>GET\<close> of a version reaches \<open>serve_version\<close>.\<close>

lemma get_version:
  assumes "dav_path_new R path_str = Some path"
  shows "handle_browser_get E R W s path_str (''version='' @ show_nat (unat k)) accept = Some (serve_version E s path k)"
proof -
  let ?q = "''version='' @ show_nat (unat k)"
  have split: "split_on CHR ''&'' ?q = [?q]" and pairs: "pairs_of ?q = [(''version'', show_nat (unat k))]"
    using pairs_of_number [of "''version''" "unat k"] by simp_all
  have "\<not> has_raw ?q" "\<not> has_print ?q"
    using split by (simp_all add: has_raw_def has_print_def starts_with_def)
  moreover have "parse_search_query W ?q = None" by (simp only: parse_search_query_def pairs) simp
  ultimately show ?thesis using assms version_link(1) [of k] by (simp add: handle_browser_get_def)
qed

text \<open>Draining a reader whose chunks can all be read.\<close>

lemma drain_all:
  assumes "map (\<lambda>c. blob_get E s (cr_hash c)) (drop i (chunks m)) = map Inr bs" and "length bs < n"
  shows "drain E s n \<lparr>vr_size = sz, vr_chunks = \<lparr>cs_manifest = m, cs_next = i\<rparr>\<rparr> = map Inr bs"
  using assms
proof (induction n arbitrary: i bs)
  case (Suc n)
  show ?case
  proof (cases "i < length (chunks m)")
    case True
    then have "drop i (chunks m) = chunks m ! i # drop (Suc i) (chunks m)" by (simp add: Cons_nth_drop_Suc)
    then obtain b bs' where bs: "bs = b # bs'" "blob_get E s (cr_hash (chunks m ! i)) = Inr b"
      "map (\<lambda>c. blob_get E s (cr_hash c)) (drop (Suc i) (chunks m)) = map Inr bs'"
      using Suc.prems(1) by (cases bs) auto
    then show ?thesis using Suc.IH [OF bs(3)] Suc.prems(2) True
      by (simp add: reader_next_chunk_def next_chunk_def)
  next
    case False
    then show ?thesis using Suc.prems by (simp add: reader_next_chunk_def next_chunk_def)
  qed
qed simp

text \<open>What \<open>serve_version\<close> answers for a number the file has no version of.\<close>

lemma serve_unknown:
  assumes q: "env_quiet E" and ok: "vfs_ok B s" and path: "path_to (fs_db s) i (segments path)"
    and r: "find_node (fs_db s) i = Some r" "n_is_dir r = 0" and none: "find_number (fs_db s) i (u64_as_i64 k) = None"
  shows "serve_version E s path k = reply 404 None ''version not found''"
proof -
  have "open_version E s path k = Inl (VfsMeta MetaNotFound)"
    using path_lookups(2) [OF q ok path r] find_node_Some [OF r(1)] none
    by (simp add: open_version_def version_by_number_def env_quietD [OF q])
  then show ?thesis by (simp add: serve_version_def is_not_found_def)
qed

section \<open>Version downloads\<close>

text \<open>
  C35. \<open>GET path?version=N\<close>, as the version page links it, when nothing fails: for a version of the
  file, status 200, a \<open>Content-Length\<close> that is its size, and a stream without an error whose chunks
  are together exactly its bytes, whatever its size; for a number the file has no version of, a
  404; for a collection, a 400. Nothing changes.
\<close>

theorem version_download:
  assumes E: "env_ok B E" and q: "env_quiet E" and ok: "vfs_ok B s"
    and new: "dav_path_new R (rq_path req) = Some path"
    and path: "path_to (fs_db s) i (segments path)" and r: "find_node (fs_db s) i = Some r"
    and get: "rq_method req = ''GET''" "rq_query req = Some (''version='' @ show_nat (unat k))"
  shows "if n_is_dir r \<noteq> 0 then handle E R W s req = (s, reply 400 None ''not a versioned file'')
    else case find_number (fs_db s) i (u64_as_i64 k) of
      None \<Rightarrow> handle E R W s req = (s, reply 404 None ''version not found'')
    | Some w \<Rightarrow> \<exists>rs bufs data. handle E R W s req = (s, rs) \<and> rs_status rs = 200
        \<and> rs_length rs = Some (of_nat (length data)) \<and> rs_body rs = Stream (map Inr bufs) \<and> concat bufs = data
        \<and> version_bytes B s (v_id w) = Some data"
proof -
  note env = env_okD [OF E] and quiet = env_quietD [OF q]
  have h: "handle E R W s req = (s, serve_version E s path k)"
    using get get_version [OF new] by (simp add: handle_def query_of_def del: append.simps)
  have res: "meta_lookup E s (segments path) = Inr (row_to_node r)"
    using path_lookups(1) [OF q ok path r] by (auto simp: resolve_def split: sum.splits)
  have id: "n_id r = i" using find_node_Some [OF r] by simp
  show ?thesis
  proof (cases "n_is_dir r = 0")
    case False
    then have "open_version E s path k = Inl (VfsMeta MetaIsADirectory)"
      using res by (simp add: open_version_def resolve_file_def)
    then show ?thesis using False h by (simp add: serve_version_def is_not_found_def is_invalid_target_def)
  next
    case plain: True
    have rf: "resolve_file E s path = Inr (row_to_node r)" by (rule path_lookups(2) [OF q ok path r plain])
    show ?thesis
    proof (cases "find_number (fs_db s) i (u64_as_i64 k)")
      case None
      then show ?thesis using plain h serve_unknown [OF q ok path r plain None] by simp
    next
      case (Some w)
      have w: "w \<in> set (versions (fs_db s))" using find_number_version [OF Some] by blast
      obtain m data where m: "read_manifest B no_sql_faults (fs_db s) (v_id w) = Inr m"
        "manifest_content (blobs_of B (fs_disk s)) m = Some data" "version_bytes B s (v_id w) = Some data"
        "as_u64 (v_size w) = of_nat (length data)"
        using version_bytes_readable [OF ok env(2) w] by blast
      let ?r = "\<lparr>vr_size = of_nat (length data), vr_chunks = \<lparr>cs_manifest = m, cs_next = 0\<rparr>\<rparr>"
      have op: "open_version E s path k = Inr ?r"
        using rf id Some m(1,4)
        by (simp add: open_version_def version_by_number_def load_version_manifest_def quiet env(1) row_to_version_def stream_new_def)
      have "content_of (view_of (blob_get E s)) (chunks m) = Some data"
        using m(2) view_of_blob_get [OF E q] by (simp add: manifest_content_def split: if_splits)
      then obtain bufs where bufs: "map (\<lambda>c. blob_get E s (cr_hash c)) (chunks m) = map Inr bufs" "concat bufs = data"
        using content_of_chunks by blast
      then have "length bufs < Suc (length (chunks m))" by (metis length_map lessI)
      then have "drain E s (Suc (length (chunks m))) ?r = map Inr bufs"
        using drain_all [where i = 0] bufs(1) by (simp del: drain.simps)
      then show ?thesis using plain Some h op bufs(2) m(3) by (simp add: serve_version_def del: drain.simps)
    qed
  qed
qed

text \<open>The requests of the witnesses.\<close>

definition sample_request :: "bytes \<Rightarrow> bytes \<Rightarrow> bytes \<Rightarrow> bytes option \<Rightarrow> request" where
  "sample_request mt path q origin = \<lparr>rq_method = mt, rq_path = path, rq_query = Some q, rq_accept = None,
     rq_origin = origin, rq_host = Some ''kb:4918'', rq_body = None\<rparr>"

lemma version_download_witness:
  "\<exists>rs bufs. handle sample_env sample_router sample_web sample_vfs
      (sample_request ''GET'' ''/docs/a.md'' (''version='' @ show_nat (unat (1 :: u64))) None) = (sample_vfs, rs)
    \<and> rs_status rs = 200 \<and> rs_length rs = Some (of_nat (length (concat bufs))) \<and> rs_body rs = Stream (map Inr bufs) \<and> concat bufs = ''hello''"
proof -
  let ?req = "sample_request ''GET'' ''/docs/a.md'' (''version='' @ show_nat (unat (1 :: u64))) None"
  have "dav_path_new sample_router (rq_path ?req) = Some ''/docs/a.md''"
    by (simp add: sample_router_def sample_request_def starts_with_def)
  moreover have "path_to (fs_db sample_vfs) 3 (segments ''/docs/a.md'')" using sample_path(1) by (simp add: sample_segments)
  moreover have "find_node (fs_db sample_vfs) 3 = Some sample_file" using sample_lookups(1) by simp
  moreover have "find_number sample_db 3 (u64_as_i64 1) = Some (hd (versions sample_db))" "v_id (hd (versions sample_db)) = 1"
    by (simp_all add: sample_db_def sample_simps)
  moreover have "version_bytes sample_blake3 sample_vfs 1 = Some ''hello''"
    using file_bytes_current(1) [OF sample_vfs_ok sample_blake3_ok, of 3 sample_file 1] sample_bytes sample_lookups(1,4) by simp
  ultimately show ?thesis
    using version_download [OF sample_env_ok sample_env_quiet sample_vfs_ok, where i = 3 and R = sample_router and req = ?req
        and path = "''/docs/a.md''" and r = sample_file and k = 1 and W = sample_web]
    by (auto simp: sample_request_def sample_lookups simp del: append.simps)
qed

section \<open>Search requests\<close>

lemma local_name_prefix: "CHR '':'' \<notin> set n \<Longrightarrow> local_name (p @ CHR '':'' # n) = n"
proof -
  assume n: "CHR '':'' \<notin> set n"
  then have "takeWhile (\<lambda>x. x \<noteq> CHR '':'') (rev n @ CHR '':'' # rev p) = rev n" by (subst takeWhile_append2) auto
  then show ?thesis by (simp add: local_name_def rfind_def find_str_char)
qed

lemma search_names:
  "local_name (p @ '':scope'') = ''scope''" "local_name (p @ '':href'') = ''href''"
  "local_name (p @ '':contains'') = ''contains''"
  using local_name_prefix [of _ p] by simp_all

definition href_events :: "bytes \<Rightarrow> bytes \<Rightarrow> xml_event list" where
  "href_events p h = [XStart (p @ '':href''), XText (Some h), XEnd (p @ '':href'')]"

definition search_events :: "bytes \<Rightarrow> bytes list \<Rightarrow> bytes \<Rightarrow> xml_event list" where
  "search_events p hs t =
     XStart (p @ '':scope'') # concat (map (href_events p) hs) @
     [XEnd (p @ '':scope''), XStart (p @ '':contains''), XText (Some t), XEnd (p @ '':contains'')]"

lemma scan_hrefs:
  assumes "in_scope st" and "\<not> in_contains st" and "\<not> in_literal st" and "\<not> in_href st"
  shows "fold scan_event (concat (map (href_events p) hs)) st = st\<lparr>sc_href := sc_href st @ concat hs\<rparr>"
  using assms
proof (induction hs arbitrary: st)
  case (Cons h hs)
  have "fold scan_event (href_events p h) st = st\<lparr>sc_href := sc_href st @ h\<rparr>"
    using Cons.prems by (simp add: href_events_def search_names del: append.simps)
  then show ?case using Cons by simp
qed simp



section \<open>What a request can change\<close>


text \<open>When an origin is another one.\<close>

lemma origin_authority:
  assumes "rq_origin req = Some (scheme @ ''://'' @ auth)" and "CHR '':'' \<notin> set scheme"
  shows "is_cross_origin req \<longleftrightarrow> rq_host req \<noteq> Some auth \<and> (rq_host req \<noteq> None \<or> auth \<noteq> [])"
proof -
  have find: "find_str ''://'' (sc @ ''://'' @ auth) = Some (length sc)" if "CHR '':'' \<notin> set sc" for sc
    using that by (induction sc) (auto simp: starts_with_def)
  have "split_once ''://'' (scheme @ ''://'' @ auth) = Some (scheme, auth)"
    using find [OF assms(2)] by (simp add: split_once_def)
  then show ?thesis using assms(1) by (auto simp: is_cross_origin_def split: option.splits)
qed


section \<open>Pruning a version\<close>

text \<open>
  C37. \<open>POST path?prune=N\<close> from the version page, when nothing fails: a number the file has no version of
  is answered 404 and the current version 400 with the reason, both without an effect; any other
  version is gone, the answer leads back to the version page, every other version of every file
  keeps its bytes, and asking for the pruned version is answered 404 from then on.
\<close>

theorem prune_request_answers:
  assumes E: "env_ok B E" and q: "env_quiet E" and ok: "vfs_ok B s"
    and new: "dav_path_new R (rq_path req) = Some path"
    and path: "path_to (fs_db s) i (segments path)" and r: "find_node (fs_db s) i = Some r" "n_is_dir r = 0"
    and post: "rq_method req = ''POST''" "rq_query req = Some (''prune='' @ show_nat (unat k))" "\<not> is_cross_origin req"
  shows "case find_number (fs_db s) i (u64_as_i64 k) of
      None \<Rightarrow> handle E R W s req = (s, not_found)
    | Some w \<Rightarrow>
        if n_current r = Some (v_id w)
        then handle E R W s req = (s, reply 400 None ''metadata error: cannot delete the current version'')
        else \<exists>s'. handle E R W s req = (s', redirect 303 (rq_path req @ ''?versions'')) \<and> vfs_ok B s'
          \<and> version_ids (fs_db s') = version_ids (fs_db s) - {v_id w}
          \<and> (\<forall>v \<in> version_ids (fs_db s'). version_bytes B s' v = version_bytes B s v)
          \<and> handle E R W s' (req\<lparr>rq_method := ''GET'', rq_query := Some (''version='' @ show_nat (unat k))\<rparr>)
              = (s', reply 404 None ''version not found'')"
proof -
  note env = env_okD [OF E] and quiet = env_quietD [OF q]
  have id: "n_id r = i" using find_node_Some [OF r(1)] by simp
  have rf: "resolve_file E s path = Inr (row_to_node r)" by (rule path_lookups(2) [OF q ok path r])
  have h: "handle E R W s req = (case prune_version E s path k of
      (s', Inr u) \<Rightarrow> (s', redirect 303 (rq_path req @ ''?versions''))
    | (s', Inl e) \<Rightarrow> (s', if is_not_found e then not_found else reply 400 None (show_vfs_error (error_texts R) e)))"
    using post new version_link(3) [of k]
    by (simp add: handle_def handle_post_action_def version_action_def query_of_def split: prod.split sum.split del: append.simps)
  show ?thesis
  proof (cases "find_number (fs_db s) i (u64_as_i64 k)")
    case None
    then have "prune_version E s path k = (s, Inl (VfsMeta MetaNotFound))"
      using rf id by (simp add: prune_version_def delete_version_def quiet)
    then show ?thesis using None h by (simp add: is_not_found_def)
  next
    case (Some w)
    have sql: "sql_ok (fs_db s)" by (rule vfs_okD(5) [OF ok])
    have w: "w \<in> set (versions (fs_db s))" "v_node w = i" "v_number w = u64_as_i64 k"
      using Some find_number_iff [OF sql] by auto
    show ?thesis
    proof (cases "n_current r = Some (v_id w)")
      case True
      then have "prune_version E s path k = (s, Inl (VfsMeta MetaCurrentVersion))"
        using rf id Some r(1) by (simp add: prune_version_def delete_version_def quiet)
      then show ?thesis using True Some h by (simp add: is_not_found_def)
    next
      case False
      let ?d = "delete_version_rows (\<lambda>x. v_id x = v_id w) (fs_db s)"
      let ?s = "s\<lparr>fs_db := ?d\<rparr>"
      have run: "prune_version E s path k = (?s, Inr ())"
        using rf id Some r(1) False by (simp add: prune_version_def delete_version_def quiet)
      have ok': "vfs_ok B ?s" by (rule prune_vfs_ok [OF ok run])
      have ids: "version_ids ?d = version_ids (fs_db s) - {v_id w}" by (auto simp: version_ids_def)
      have bytes: "version_bytes B ?s v = version_bytes B s v" if v: "v \<in> version_ids ?d" for v
      proof -
        obtain x where "x \<in> set (versions (fs_db s))" "v_id x = v" "v \<noteq> v_id w" using v by (auto simp: version_ids_def)
        then have "read_manifest B no_sql_faults ?d v = read_manifest B no_sql_faults (fs_db s) v"
          using chunk_rows_delete_version [OF sql, of x "\<lambda>x. v_id x = v_id w"] by (intro read_manifest_cong) auto
        then show ?thesis by (simp add: version_bytes_def split: sum.split)
      qed
      have "find_number ?d i (u64_as_i64 k) = None"
        unfolding find_number_None using find_number_iff [OF sql, of i "u64_as_i64 k"] Some by fastforce
      moreover have "path_to (fs_db ?s) i (segments path)"
        using path_to_same_tree [of "fs_db s" ?d] path by (simp add: same_tree_def)
      moreover have "find_node (fs_db ?s) i = Some r" using r(1) by (simp add: find_node_def)
      ultimately have "serve_version E ?s path k = reply 404 None ''version not found''"
        using serve_unknown [OF q ok' _ _ r(2)] by simp
      then have "handle E R W ?s (req\<lparr>rq_method := ''GET'', rq_query := Some (''version='' @ show_nat (unat k))\<rparr>)
          = (?s, reply 404 None ''version not found'')"
        using get_version [OF new] by (simp add: handle_def query_of_def del: append.simps)
      then show ?thesis using False Some h run ok' ids bytes by auto
    qed
  qed
qed

lemma prune_request_answers_witness:
  "\<exists>s'. handle sample_env sample_router sample_web sample_two
      (sample_request ''POST'' ''/docs/a.md'' (''prune='' @ show_nat (unat (1 :: u64))) (Some ''http://kb:4918''))
        = (s', redirect 303 (''/docs/a.md'' @ ''?versions''))
    \<and> version_ids (fs_db s') = {2}"
proof -
  let ?req = "sample_request ''POST'' ''/docs/a.md'' (''prune='' @ show_nat (unat (1 :: u64))) (Some ''http://kb:4918'')"
  let ?r = "(sample_node 3 (Some 2) ''a.md'' 0)\<lparr>n_size := 0, n_modified := 5, n_current := Some 2\<rparr>"
  let ?w = "hd (versions sample_db)"
  have r: "find_node (fs_db sample_two) 3 = Some ?r" "n_is_dir ?r = 0" by (simp_all add: sample_two_def sample_simps)
  have "same_tree sample_db (fs_db sample_two)" using sample_two_set same_tree_set_content by blast
  then have path: "path_to (fs_db sample_two) 3 (segments ''/docs/a.md'')"
    using path_to_same_tree sample_path(1) by (auto simp: sample_segments)
  have w: "find_number (fs_db sample_two) 3 (u64_as_i64 1) = Some ?w" "n_current ?r \<noteq> Some (v_id ?w)"
    by (simp_all add: sample_two_def sample_db_def sample_simps)
  have ids: "version_ids (fs_db sample_two) - {v_id ?w} = {2}"
    by (auto simp: version_ids_def sample_two_def sample_db_def sample_simps)
  have new: "dav_path_new sample_router (rq_path ?req) = Some ''/docs/a.md''"
    by (simp add: sample_router_def sample_request_def starts_with_def)
  have "\<not> is_cross_origin ?req"
    using origin_authority [of ?req "''http''" "''kb:4918''"] by (simp add: sample_request_def)
  then show ?thesis
    using prune_request_answers [OF sample_env_ok sample_env_quiet sample_two_ok new path r, where k = 1 and W = sample_web] w ids
    by (auto simp: sample_request_def simp del: append.simps)
qed

section \<open>Serving requests\<close>

text \<open>A sequence of requests, each with the environment it is served in.\<close>

definition serve :: "web_lib \<Rightarrow> ('t env \<times> 't router_lib \<times> request) list \<Rightarrow> 't fs_state \<Rightarrow> 't fs_state" where
  "serve W calls s = foldl (\<lambda>s (E, R, req). fst (handle E R W s req)) s calls"

text \<open>
  The contract of a service: a request that is served properly keeps the invariant of its state, and
  so does any sequence of such requests.
\<close>

locale service =
  fixes inv :: "'s \<Rightarrow> bool" and proper :: "'c \<Rightarrow> bool" and step :: "'s \<Rightarrow> 'c \<Rightarrow> 's"
  assumes step_inv: "proper c \<Longrightarrow> inv s \<Longrightarrow> inv (step s c)"
begin

lemma run_inv: "list_all proper cs \<Longrightarrow> inv s \<Longrightarrow> inv (foldl step s cs)"
  by (induction cs arbitrary: s) (simp_all add: step_inv)

end

text \<open>\<open>dav-server\<close> reaches the file system through its operations only.\<close>

definition dav_server_ok :: "blake3_lib \<Rightarrow> 't router_lib \<Rightarrow> bool" where
  "dav_server_ok B R \<longleftrightarrow> (\<forall>req s. vfs_run B s \<longrightarrow> vfs_run B (fst (dav_handle R req s)))"

lemma pass_to_dav_run: "dav_server_ok B R \<Longrightarrow> vfs_run B s \<Longrightarrow> vfs_run B (fst (pass_to_dav R s req))"
  by (auto simp: dav_server_ok_def pass_to_dav_def split: prod.splits) (metis fst_conv)

lemma handle_run:
  assumes E: "env_ok B E" and R: "dav_server_ok B R" and run: "vfs_run B s"
  shows "vfs_run B (fst (handle E R W s req))"
proof -
  note pass = pass_to_dav_run [OF R run, of req]
  have action: "vfs_run B s'" if "handle_post_action E R s (query_of req) (rq_path req) (is_cross_origin req) = (s', r)" for s' r
    using that run
    by (auto simp: handle_post_action_def version_action_def split: option.splits if_splits action.splits prod.splits sum.splits
        dest: vr_gc [OF run E] vr_revert [OF run E] vr_prune [OF run E])
  have none: "s' = s"
    if "handle_post_action E R s (query_of req) (rq_path req) (is_cross_origin req) = (s', None)" for s'
    using that by (auto simp: handle_post_action_def split: option.splits if_splits action.splits prod.splits sum.splits)
  obtain s' r where h: "handle_post_action E R s (query_of req) (rq_path req) (is_cross_origin req) = (s', r)" by fastforce
  show ?thesis using pass run h action [OF h] none by (cases r) (auto simp: handle_def split: option.split)
qed

interpretation sv: service "vfs_run B" "\<lambda>(E, R, req). env_ok B E \<and> dav_server_ok B R"
    "\<lambda>s (E, R, req). fst (handle E R W s req)" for B W
  by unfold_locales (auto intro: handle_run)



end
