(* ===== verification/Redirect_Properties.thy ===== *)
theory Redirect_Properties
  imports Server_Properties
begin

text \<open>
  The redirect of \<open>handle_browser_get\<close> (\<open>crates/webdav-server/src/main.rs\<close>) to a collection's page, read
  the way a client reads it: by the resolution of references of RFC 3986.
\<close>

section \<open>Following a reference\<close>

text \<open>
  A scheme is a letter, then letters, digits, plus, hyphen and dot (section 3.1). A reference that
  starts with a scheme and a colon is a URI of its own; another one that does not start with a
  slash replaces the last segment of the base path (section 5.2.3).
\<close>

definition is_letter :: "byte \<Rightarrow> bool" where
  "is_letter c \<longleftrightarrow> byte_in 65 90 c \<or> byte_in 97 122 c"

definition is_scheme :: "bytes \<Rightarrow> bool" where
  "is_scheme s = (case s of
     [] \<Rightarrow> False
   | c # cs \<Rightarrow> is_letter c \<and> list_all (\<lambda>x. is_letter x \<or> is_digit x \<or> x \<in> set ''+-.'') cs)"

datatype target_uri = OtherUri bytes bytes | OnServer bytes

definition merge_paths :: "bytes \<Rightarrow> bytes \<Rightarrow> bytes" where
  "merge_paths here ref = (case rfind CHR ''/'' here of Some i \<Rightarrow> take (Suc i) here @ ref | None \<Rightarrow> ref)"

definition follow :: "bytes \<Rightarrow> bytes \<Rightarrow> target_uri" where
  "follow here ref =
     (case split_once '':'' ref of
        Some (scheme, rest) \<Rightarrow> if is_scheme scheme then OtherUri scheme rest else OnServer (merge_paths here ref)
      | None \<Rightarrow> OnServer (merge_paths here ref))"

lemma scheme_no_colon: "is_scheme s \<Longrightarrow> CHR '':'' \<notin> set s"
  by (cases s) (auto simp: is_scheme_def list_all_iff is_letter_def is_digit_def byte_in_def byte_val_def)

lemma last_piece_of: "CHR ''/'' \<notin> set seg \<Longrightarrow> seg \<noteq> [] \<Longrightarrow> last_piece (p @ CHR ''/'' # seg) = seg"
proof -
  assume seg: "CHR ''/'' \<notin> set seg" "seg \<noteq> []"
  have "split_on CHR ''/'' (p @ CHR ''/'' # seg) = split_on CHR ''/'' p @ [seg]"
    by (induction p) (auto simp: split_on_none [OF seg(1)] split: list.split)
  then show ?thesis using seg(2) by (simp add: last_piece_def)
qed

lemma merge_sibling: "CHR ''/'' \<notin> set seg \<Longrightarrow> merge_paths (p @ CHR ''/'' # seg) ref = p @ CHR ''/'' # ref"
proof -
  assume seg: "CHR ''/'' \<notin> set seg"
  then have "takeWhile (\<lambda>x. x \<noteq> CHR ''/'') (rev seg @ CHR ''/'' # rev p) = rev seg" by (subst takeWhile_append2) auto
  then show ?thesis by (simp add: merge_paths_def rfind_def find_str_char)
qed

lemma follow_other: "is_scheme sc \<Longrightarrow> follow here (sc @ CHR '':'' # rest) = OtherUri sc rest"
  using split_once_char [OF scheme_no_colon] by (simp add: follow_def)

lemma follow_server:
  assumes "\<And>sc rest. ref = sc @ CHR '':'' # rest \<Longrightarrow> \<not> is_scheme sc"
  shows "follow here ref = OnServer (merge_paths here ref)"
proof (cases "CHR '':'' \<in> set ref")
  case True
  then obtain sc rest where ref: "ref = sc @ CHR '':'' # rest" "CHR '':'' \<notin> set sc" using split_list_first by metis
  then show ?thesis using assms split_once_char [OF ref(2)] by (simp add: follow_def)
qed (simp add: follow_def split_once_none)

section \<open>The redirect\<close>

text \<open>
  C40. A \<open>GET\<close> of a collection without its trailing slash is answered 302 with the last segment and a slash
  as its location, and changes nothing. Followed from the path it was asked for, that is the path
  with the slash, whatever prefix the server is mounted under; but not for a collection whose name
  starts like a URI, as in \<open>notes:2024\<close>: its location names a resource of the scheme \<open>notes\<close>, which is
  not on this server.
\<close>

theorem directory_redirect:
  assumes get: "rq_method req = ''GET''" "rq_query req = None"
    and path: "rq_path req = p @ CHR ''/'' # seg" "CHR ''/'' \<notin> set seg" "seg \<noteq> []"
    and new: "dav_path_new R (rq_path req) = Some path" and dir: "dav_is_dir E s path = Inr True"
  shows "\<exists>rs. handle E R W s req = (s, rs) \<and> rs_status rs = 302 \<and> rs_location rs = Some (seg @ ''/'')
    \<and> (\<forall>sc rest. seg = sc @ CHR '':'' # rest \<and> is_scheme sc \<longrightarrow>
        follow (mount @ rq_path req) (seg @ ''/'') = OtherUri sc (rest @ ''/''))
    \<and> ((\<forall>sc rest. seg = sc @ CHR '':'' # rest \<longrightarrow> \<not> is_scheme sc) \<longrightarrow>
        follow (mount @ rq_path req) (seg @ ''/'') = OnServer (mount @ rq_path req @ ''/''))"
proof -
  have "\<not> ends_with ''/'' (rq_path req)" using path
    by (cases seg rule: rev_cases) (auto simp: ends_with_def starts_with_def)
  then have "needs_trailing_slash (rq_path req) = Some seg"
    using path last_piece_of [OF path(2,3)] by (simp add: needs_trailing_slash_def)
  then have h: "handle E R W s req = (s, redirect 302 (seg @ ''/''))"
    using get new dir
    by (simp add: handle_def handle_browser_get_def query_of_def has_raw_def has_print_def starts_with_def
        parse_search_query_def pairs_of_def parse_version_query_def)
  have "follow (mount @ rq_path req) (seg @ ''/'') = OnServer (mount @ rq_path req @ ''/'')"
    if plain: "\<And>sc rest. seg = sc @ CHR '':'' # rest \<Longrightarrow> \<not> is_scheme sc"
  proof -
    have "\<not> is_scheme sc" if "seg @ ''/'' = sc @ CHR '':'' # rest" for sc rest
      using that plain by (cases rest rule: rev_cases) auto
    then show ?thesis using follow_server [of "seg @ ''/''"] merge_sibling [OF path(2), of "mount @ p"] path(1) by simp
  qed
  then show ?thesis using h follow_other by (auto simp: redirect_def reply_def)
qed

text \<open>A collection named \<open>n:1\<close> at the root.\<close>

definition sample_colon :: "sample_engine fs_state" where
  "sample_colon = sample_vfs\<lparr>fs_db := \<lparr>nodes = [sample_node 1 None [] 1, sample_node 2 (Some 1) ''n:1'' 1],
     versions = [], vchunks = []\<rparr>\<rparr>"

lemma directory_redirect_witness:
  "\<exists>rs. handle sample_env sample_router sample_web sample_colon ((sample_request ''GET'' ''/n:1'' [] None)\<lparr>rq_query := None\<rparr>)
      = (sample_colon, rs) \<and> rs_status rs = 302 \<and> rs_location rs = Some ''n:1/''
    \<and> follow ''/kb/n:1'' ''n:1/'' = OtherUri ''n'' ''1/''"
proof -
  let ?req = "(sample_request ''GET'' ''/n:1'' [] None)\<lparr>rq_query := None\<rparr>"
  have "segments ''/n:1'' = [''n:1'']" by (simp add: segments_def)
  then have "dav_is_dir sample_env sample_colon ''/n:1'' = Inr True"
    by (simp add: dav_is_dir_def meta_lookup_def lookup_path_def get_node_eq lookup_child_def sample_colon_def sample_simps
        row_to_node_def)
  moreover have "dav_path_new sample_router ''/n:1'' = Some ''/n:1''"
    by (simp add: sample_router_def starts_with_def)
  moreover have "is_scheme ''n''" by (simp add: is_scheme_def is_letter_def byte_in_def byte_val_def)
  ultimately obtain rs where "handle sample_env sample_router sample_web sample_colon ?req = (sample_colon, rs)"
    "rs_status rs = 302" "rs_location rs = Some (''n:1'' @ ''/'')"
    and "\<forall>sc rest. ''n:1'' = sc @ CHR '':'' # rest \<and> is_scheme sc \<longrightarrow>
        follow (''/kb'' @ rq_path ?req) (''n:1'' @ ''/'') = OtherUri sc (rest @ ''/'')"
    using directory_redirect [of ?req "[]" "''n:1''" sample_router "''/n:1''" sample_env sample_colon sample_web "''/kb''"]
    by (auto simp: sample_request_def)
  moreover from this(4) [rule_format, of "''n''" "''1''"]
  have "follow ''/kb/n:1'' ''n:1/'' = OtherUri ''n'' ''1/''"
    using \<open>is_scheme ''n''\<close> by (simp add: sample_request_def)
  ultimately show ?thesis by simp
qed

end
