(* ===== verification/Spec2Isabelle.thy ===== *)
theory Spec2Isabelle
  imports Storage_Properties Meta_Properties File_Properties Vfs_Properties Opening_Properties Dav_Properties Search_Properties
    Gc_Properties Web_Properties Server_Properties Redirect_Properties
begin

text \<open>
  A verification library of \<open>chishiki\<close>, a WebDAV server for a personal knowledge base. This is the
  root theory: it imports every other one.

  \<^bold>\<open>The program and its model.\<close> The program is five crates under \<open>src/crates\<close>.
  \<^item> \<open>chunker\<close> cuts a file by content (theory \<open>Chunker\<close>: \<open>ChunkerConfig\<close>, \<open>chunk_reader\<close>).
  \<^item> \<open>blobstore\<close> keeps each chunk once, under its hash (\<open>Blob_Hash\<close>: \<open>hash.rs\<close>; \<open>Blob_Store\<close>:
    \<open>lib.rs\<close> over a directory of shards, \<open>disk\<close>; \<open>Manifest\<close> and \<open>Manifest_Reader\<close>: \<open>manifest.rs\<close>,
    the list of chunks a file is made of and its two readers).
  \<^item> \<open>index\<close> wraps the full-text engine (\<open>Search_Index\<close>).
  \<^item> \<open>vfs\<close> joins them: the SQLite metadata (\<open>Meta_Db\<close>: the tables and SQL statements of \<open>meta.rs\<close> as
    lists of rows; \<open>Meta_Store\<close>: the operations of \<open>MetaStore\<close>), open files (\<open>File_Handle\<close>:
    \<open>file.rs\<close>), the shared state \<open>Inner\<close> with its index maintenance (\<open>Vfs_Inner\<close>), every operation of
    \<open>DavFs\<close> (\<open>Dav_Fs\<close>: \<open>davfs.rs\<close>, \<open>metadata.rs\<close>), the opening of a data directory with its parts
    (\<open>Opening\<close>: \<open>DavFs::open\<close> and the \<open>open\<close> of each store), and the lock between garbage collection and
    writers, call by call (\<open>Gc_Protocol\<close>).
  \<^item> \<open>webdav-server\<close> answers requests: \<open>Web\<close> and \<open>Calendar\<close> are \<open>web.rs\<close>, \<open>Router\<close> the parsers and
    answers of \<open>main.rs\<close> and \<open>Server\<close> its handlers, from \<open>handle\<close> down. \<open>Error_Text\<close> has the texts of
    the errors of all crates.

  \<open>Prelude\<close>, \<open>Rust_Std\<close>, \<open>Rust_Str\<close> and \<open>Utf8\<close> model what the source uses of Rust's standard library.
  An operation takes the environment \<open>env\<close> (the crates, the clock and which calls fail) and the
  state \<open>fs_state\<close> (tables, blob directory, index) and returns the new state with \<open>Inl\<close> an error or
  \<open>Inr\<close> a result; names of definitions, records and constructors are the source's. \<open>u64\<close> and
  \<open>u32\<close> are words, so that they wrap; \<open>i64\<close> is \<open>int\<close> with the casts written out; strings and
  file contents are bytes.

  \<^bold>\<open>Code that is not here\<close> is a parameter with named laws: \<open>blake3\<close> (\<open>blake3_ok\<close>, and
  \<open>collision_free\<close> on the contents a theorem is about), \<open>fastcdc\<close> (\<open>fastcdc_ok\<close>), \<open>tantivy\<close>
  (\<open>tantivy_ok\<close>, \<open>tantivy_reliable\<close>, \<open>index_open_ok\<close>), \<open>percent-encoding\<close> (\<open>web_lib_ok\<close>), \<open>pulldown-cmark\<close>,
  \<open>quick-xml\<close> and \<open>dav-server\<close> (\<open>router_lib\<close>, \<open>dav_server_ok\<close>). \<open>Sample_Env\<close>, \<open>Sample_Vfs\<close> and the
  sample values next to the properties are concrete instances on which every witness runs.
  System calls and SQL statements can fail at any point (\<open>faults\<close>, \<open>sql_faults\<close>, \<open>temp_faults\<close>,
  \<open>open_faults\<close>).

  \<^bold>\<open>What is proved.\<close>
  \<^item> Storage (\<open>Storage_Properties\<close>): what is stored can be read back by both readers, under any buffer
    sizes and seeks; a failing call never harms a stored blob. The locales \<open>content_store\<close> (interpreted
    on \<open>put\<close>) and \<open>byte_reader\<close> (interpreted on \<open>ManifestReader::read\<close> and on a read handle) are the
    contracts the clients rest on.
  \<^item> Metadata (\<open>Meta_Inv\<close>, \<open>Meta_Content\<close>, \<open>Meta_Tree\<close>, \<open>Meta_History\<close>, \<open>Meta_Keep\<close>,
    \<open>Meta_Properties\<close>): constraints, tree and history are invariants of every run; content, paths,
    moves, removals and prunings do what they promise; a failed operation changes nothing.
  \<^item> The file system (\<open>Vfs_Inv\<close>, \<open>Vfs_Keep\<close>, \<open>Vfs_Run\<close>, \<open>Vfs_Effect\<close>, \<open>Handle_Refine\<close>,
    \<open>Vfs_Properties\<close>, \<open>File_Properties\<close>, \<open>Dav_Properties\<close>): no reachable state refers to a missing
    chunk; handles refine byte strings; PUT then GET, revert and copy give the right bytes; collection
    removes exactly the garbage.
  \<^item> Restarts (\<open>Opening\<close>, \<open>Opening_Properties\<close>): a process may stop at any call, and what it leaves opens
    to the same files and versions; runs and guarded sections include such restarts.
  \<^item> Concurrency (\<open>Gc_Protocol\<close>, \<open>Gc_Properties\<close>): under every interleaving of the guarded sections
    every version stays readable, and each section can end.
  \<^item> Search (\<open>Search_Index\<close>, \<open>Search_Properties\<close>): the index follows the content; results are live,
    in scope and in order.
  \<^item> The web layer (\<open>Web_Text\<close>, \<open>Web_Valid\<close>, \<open>Web_Properties\<close>, \<open>Server_Properties\<close>,
    \<open>Redirect_Properties\<close>): the encoders are undone by their readers (locale \<open>char_codec\<close>, interpreted
    on HTML, percent and JSON encoding), no name reaches the markup, pages are valid UTF-8, dates follow
    the Gregorian calendar, version downloads and prunings answer as documented, redirects lead to the
    page unless its name starts like a URI, cross-site actions are refused, and the invariant holds
    after any requests (locale \<open>service\<close>, interpreted on \<open>handle\<close>).

  \<^bold>\<open>Bounds and fuel.\<close> \<open>path_of\<close> and \<open>is_ancestor_or_self\<close> stop after \<open>MAX_DEPTH\<close> = 10,000 steps in the
  source, and so here. \<open>stream_run\<close> and \<open>drain\<close> get one step more than the manifest has chunks, after
  which \<open>next_chunk\<close> answers \<open>None\<close>; \<open>read_to_end\<close> is proved to end; \<open>trim\<close> gets one step per byte and
  each step removes at least one. Files are shorter than \<open>2 ^ 64\<close> bytes.

  \<^bold>\<open>Not modelled.\<close> The inside of SQLite, of the other crates and of the asynchronous runtime; the
  mutex around the connection and the index writer (one operation at a time outside \<open>Gc_Protocol\<close>);
  the SQL of the schema and what the pragmas do; which writes survive a power failure; file
  permissions and the start and shutdown of the server; row ids beyond 64 bits; the panic of a
  spawned task and a client that hangs up; derived \<open>Debug\<close> output. The score of a hit is formatted by
  a parameter.
\<close>

end
